(* ===== verification/Prelude.thy ===== *)
theory Prelude
  imports Main "HOL-Library.Signed_Division" "HOL-Library.Multiset" "HOL-Library.Sublist"
begin

text \<open>
  Shared vocabulary of the development: Go's 64-bit integer arithmetic with its wrap-around
  written out, decimal formatting and parsing of integers (\<open>fmt.Sprintf\<close> with \<open>%d\<close>,
  \<open>strconv.ParseInt\<close>), the few functions of Go's package \<open>strings\<close> the program uses,
  the Redis key formats, and the generic lemmas on lists and multisets that several
  components need.
\<close>

named_theorems key_simps \<open>when two Redis keys of the program are equal\<close>

section \<open>64-bit integers\<close>

text \<open>
  Go's \<open>int\<close> and \<open>int64\<close> are 64-bit two's complement. They are modelled as \<open>int\<close>;
  every arithmetic operation of the source goes through \<open>wrap64\<close>, which keeps the low
  64 bits.
\<close>

definition in64 :: "int \<Rightarrow> bool" where
  "in64 x \<longleftrightarrow> - (2 ^ 63) \<le> x \<and> x < 2 ^ 63"

definition wrap64 :: "int \<Rightarrow> int" where
  "wrap64 x = (x + 2 ^ 63) mod 2 ^ 64 - 2 ^ 63"

definition add64 :: "int \<Rightarrow> int \<Rightarrow> int" where "add64 x y = wrap64 (x + y)"
definition sub64 :: "int \<Rightarrow> int \<Rightarrow> int" where "sub64 x y = wrap64 (x - y)"
definition neg64 :: "int \<Rightarrow> int" where "neg64 x = wrap64 (- x)"

text \<open>Go's \<open>/\<close> and \<open>%\<close> truncate towards zero (the divisor is never 0 where the code divides).\<close>

definition quot64 :: "int \<Rightarrow> int \<Rightarrow> int" where "quot64 x y = wrap64 (x sdiv y)"
definition rem64 :: "int \<Rightarrow> int \<Rightarrow> int" where "rem64 x y = wrap64 (x smod y)"

lemma wrap64_id: "in64 x \<Longrightarrow> wrap64 x = x"
  by (simp add: in64_def wrap64_def mod_pos_pos_trivial)

lemma in64_wrap64 [simp]: "in64 (wrap64 x)"
proof -
  have "0 \<le> (x + 2 ^ 63) mod 2 ^ 64" and "(x + 2 ^ 63) mod 2 ^ 64 < (2::int) ^ 64"
    by (rule pos_mod_sign, simp) (rule pos_mod_bound, simp)
  then show ?thesis by (simp add: in64_def wrap64_def)
qed

lemma add64_exact: "in64 (x + y) \<Longrightarrow> add64 x y = x + y"
  by (simp add: add64_def wrap64_id)

lemma sub64_exact: "in64 (x - y) \<Longrightarrow> sub64 x y = x - y"
  by (simp add: sub64_def wrap64_id)

lemma abs_smod_less: "0 < b \<Longrightarrow> \<bar>(a::int) smod b\<bar> < b"
  by (simp add: signed_modulo_int_def abs_mult sgn_if)

lemma smod_nonneg: "0 \<le> a \<Longrightarrow> 0 < b \<Longrightarrow> (a::int) smod b = a mod b"
  by (cases "a = 0") (simp_all add: signed_modulo_int_def sgn_if)

lemma sdiv_nonneg: "0 \<le> a \<Longrightarrow> 0 < b \<Longrightarrow> (a::int) sdiv b = a div b"
  by (cases "a = 0") (simp_all add: signed_divide_int_def sgn_if)

lemma abs_smod: "0 < b \<Longrightarrow> \<bar>(a::int) smod b\<bar> = \<bar>a\<bar> mod b"
  by (simp add: signed_modulo_int_def abs_mult sgn_if)

lemma abs_sdiv: "0 < b \<Longrightarrow> \<bar>(a::int) sdiv b\<bar> = \<bar>a\<bar> div b"
  by (auto simp: signed_divide_int_def abs_mult sgn_if pos_imp_zdiv_nonneg_iff)

lemma sdiv_neg: "a < 0 \<Longrightarrow> 0 < b \<Longrightarrow> (a::int) sdiv b = - (- a div b)"
  by (simp add: signed_divide_int_def sgn_if)

lemma div_le_self: "0 \<le> a \<Longrightarrow> 0 < b \<Longrightarrow> (a::int) div b \<le> a"
  using zdiv_mono2 [of a 1 b] by simp

lemma rem64_exact: "0 < b \<Longrightarrow> in64 b \<Longrightarrow> rem64 a b = a smod b"
  using abs_smod_less [of b a] by (auto simp: rem64_def in64_def intro!: wrap64_id)

lemma quot64_exact:
  assumes "0 < b" and "in64 a"
  shows "quot64 a b = a sdiv b"
proof -
  have "in64 (a sdiv b)"
  proof (cases "0 \<le> a")
    case True
    then show ?thesis
      using assms div_le_self [of a b]
      by (auto simp: in64_def sdiv_nonneg pos_imp_zdiv_nonneg_iff intro: order_trans [of _ 0])
  next
    case False
    then show ?thesis
      using assms div_le_self [of "- a" b] pos_imp_zdiv_nonneg_iff [of b "- a"]
      by (auto simp: in64_def sdiv_neg)
  qed
  then show ?thesis by (simp add: quot64_def wrap64_id)
qed

section \<open>Decimal integers\<close>

definition digit :: "nat \<Rightarrow> char" where
  "digit d = char_of (48 + d)"

fun show_nat :: "nat \<Rightarrow> string" where
  "show_nat n = (if n < 10 then [digit n] else show_nat (n div 10) @ [digit (n mod 10)])"

declare show_nat.simps [simp del]

definition show_int :: "int \<Rightarrow> string" where
  "show_int i = (if i < 0 then CHR ''-'' # show_nat (nat (- i)) else show_nat (nat i))"

definition digit_val :: "char \<Rightarrow> nat option" where
  "digit_val c = (let n = of_char c :: nat in if 48 \<le> n \<and> n \<le> 57 then Some (n - 48) else None)"

fun parse_digits :: "nat \<Rightarrow> string \<Rightarrow> nat option" where
  "parse_digits acc [] = Some acc"
| "parse_digits acc (c # cs) =
     (case digit_val c of None \<Rightarrow> None | Some d \<Rightarrow> parse_digits (10 * acc + d) cs)"

definition parse_dec :: "string \<Rightarrow> int option" where
  "parse_dec s =
     (let (neg, ds) = (case s of [] \<Rightarrow> (False, [])
        | c # cs \<Rightarrow> if c = CHR ''-'' then (True, cs)
                    else if c = CHR ''+'' then (False, cs) else (False, c # cs))
      in if ds = [] then None
         else map_option (\<lambda>n. if neg then - int n else int n) (parse_digits 0 ds))"

text \<open>\<open>strconv.ParseInt(s, 10, 64)\<close>: \<open>None\<close> is its syntax or range error.\<close>

definition ParseInt :: "string \<Rightarrow> int option" where
  "ParseInt s = (case parse_dec s of None \<Rightarrow> None | Some i \<Rightarrow> if in64 i then Some i else None)"

lemma digit_val_digit [simp]: "d < 10 \<Longrightarrow> digit_val (digit d) = Some d"
  by (simp add: digit_val_def digit_def)

lemma parse_digits_append:
  "parse_digits acc (xs @ ys) = Option.bind (parse_digits acc xs) (\<lambda>a. parse_digits a ys)"
  by (induction acc xs rule: parse_digits.induct) (auto split: option.splits)

lemma show_nat_nonempty [simp]: "show_nat n \<noteq> []"
  by (subst show_nat.simps) simp

lemma parse_digits_show_nat [simp]: "parse_digits 0 (show_nat n) = Some n"
proof (induction n rule: show_nat.induct)
  case (1 n)
  then show ?case
    by (subst show_nat.simps) (auto simp: parse_digits_append)
qed

lemma digit_facts [simp]: "d < 10 \<Longrightarrow> digit d \<noteq> CHR '':'' \<and> digit d \<noteq> CHR ''-'' \<and> digit d \<noteq> CHR ''+''"
  by (auto simp: digit_def dest!: arg_cong [where f = "of_char :: char \<Rightarrow> nat"])

lemma show_nat_chars: "c \<in> set (show_nat n) \<Longrightarrow> \<exists>d<10. c = digit d"
proof (induction n rule: show_nat.induct)
  case (1 n)
  show ?case
  proof (cases "n < 10")
    case True
    with 1 show ?thesis by (subst (asm) show_nat.simps) auto
  next
    case False
    with "1.prems" have "c \<in> set (show_nat (n div 10)) \<or> c = digit (n mod 10)"
      by (subst (asm) show_nat.simps) auto
    then show ?thesis
    proof
      assume "c \<in> set (show_nat (n div 10))"
      with False "1.IH" show ?thesis by blast
    qed (auto intro!: exI [of _ "n mod 10"])
  qed
qed

lemma parse_dec_show_int [simp]: "parse_dec (show_int i) = Some i"
proof -
  obtain c cs where c: "show_nat (nat i) = c # cs" by (cases "show_nat (nat i)") auto
  then have "\<exists>d<10. c = digit d" using show_nat_chars [of c "nat i"] by simp
  then have ne: "c \<noteq> CHR ''-'' \<and> c \<noteq> CHR ''+''" by (metis digit_facts)
  from c have "parse_digits 0 (c # cs) = Some (nat i)"
    using parse_digits_show_nat [of "nat i"] by (simp del: parse_digits.simps)
  then show ?thesis
    using c ne by (auto simp: parse_dec_def show_int_def simp del: parse_digits.simps)
qed

lemma ParseInt_show_int: "in64 i \<Longrightarrow> ParseInt (show_int i) = Some i"
  by (simp add: ParseInt_def)

lemma show_int_inject [simp]: "show_int i = show_int j \<longleftrightarrow> i = j"
  by (metis option.inject parse_dec_show_int)

lemma colon_show_int [simp]: "CHR '':'' \<notin> set (show_int i)"
proof
  assume "CHR '':'' \<in> set (show_int i)"
  then obtain n where "CHR '':'' \<in> set (show_nat n)"
    by (auto simp: show_int_def split: if_splits)
  then obtain d where "d < 10" and "CHR '':'' = digit d"
    using show_nat_chars by blast
  then show False using digit_facts [of d] by simp
qed

lemma show_int_nonempty [simp]: "show_int i \<noteq> []"
  by (simp add: show_int_def)

lemma colon_inject:
  assumes "CHR '':'' \<notin> set xs" and "CHR '':'' \<notin> set ys"
  shows "xs @ CHR '':'' # as = ys @ CHR '':'' # bs \<longleftrightarrow> xs = ys \<and> as = bs"
  using assms
proof (induction xs arbitrary: ys)
  case Nil
  then show ?case by (cases ys) auto
next
  case (Cons x xs)
  then show ?case by (cases ys) auto
qed

section \<open>Redis keys\<close>

text \<open>The \<open>fmt.Sprintf\<close> formats of every key the program reads or writes.\<close>

definition stock_key :: "int \<Rightarrow> string" where
  "stock_key activityID = ''stock:'' @ show_int activityID"

definition user_buy_key :: "int \<Rightarrow> int \<Rightarrow> string" where
  "user_buy_key activityID userID = ''user_buy:'' @ show_int activityID @ '':'' @ show_int userID"

definition queue_key :: "string \<Rightarrow> string" where
  "queue_key token = ''queue:'' @ token"

definition idem_key :: "int \<Rightarrow> int \<Rightarrow> string \<Rightarrow> string" where
  "idem_key activityID userID token =
     ''idem:'' @ show_int activityID @ '':'' @ show_int userID @ '':'' @ token"

definition ratelimit_key :: "string \<Rightarrow> string" where
  "ratelimit_key userID = ''ratelimit:user:'' @ userID"

lemmas key_defs = stock_key_def user_buy_key_def queue_key_def idem_key_def ratelimit_key_def

lemma keys_inject [key_simps]:
  "stock_key a = stock_key b \<longleftrightarrow> a = b"
  "user_buy_key a u = user_buy_key b v \<longleftrightarrow> a = b \<and> u = v"
  "queue_key s = queue_key t \<longleftrightarrow> s = t"
  "idem_key a u s = idem_key b v t \<longleftrightarrow> a = b \<and> u = v \<and> s = t"
  "ratelimit_key s = ratelimit_key t \<longleftrightarrow> s = t"
  by (auto simp: key_defs colon_inject)

lemma keys_disjoint [key_simps]:
  "stock_key a \<noteq> user_buy_key b v" "user_buy_key b v \<noteq> stock_key a"
  "stock_key a \<noteq> queue_key s" "queue_key s \<noteq> stock_key a"
  "stock_key a \<noteq> idem_key b v s" "idem_key b v s \<noteq> stock_key a"
  "stock_key a \<noteq> ratelimit_key s" "ratelimit_key s \<noteq> stock_key a"
  "user_buy_key b v \<noteq> queue_key s" "queue_key s \<noteq> user_buy_key b v"
  "user_buy_key b v \<noteq> idem_key a u s" "idem_key a u s \<noteq> user_buy_key b v"
  "user_buy_key b v \<noteq> ratelimit_key s" "ratelimit_key s \<noteq> user_buy_key b v"
  "queue_key t \<noteq> idem_key a u s" "idem_key a u s \<noteq> queue_key t"
  "queue_key t \<noteq> ratelimit_key s" "ratelimit_key s \<noteq> queue_key t"
  "idem_key a u t \<noteq> ratelimit_key s" "ratelimit_key s \<noteq> idem_key a u t"
  by (simp_all add: key_defs)

section \<open>Strings\<close>

text \<open>\<open>strings.Contains\<close>, \<open>strings.HasPrefix\<close> and \<open>strings.TrimPrefix\<close>.\<close>

fun HasPrefix :: "string \<Rightarrow> string \<Rightarrow> bool" where
  "HasPrefix s [] = True"
| "HasPrefix [] (p # ps) = False"
| "HasPrefix (c # cs) (p # ps) = (c = p \<and> HasPrefix cs ps)"

fun Contains :: "string \<Rightarrow> string \<Rightarrow> bool" where
  "Contains [] p = HasPrefix [] p"
| "Contains (c # cs) p = (HasPrefix (c # cs) p \<or> Contains cs p)"

definition TrimPrefix :: "string \<Rightarrow> string \<Rightarrow> string" where
  "TrimPrefix s p = (if HasPrefix s p then drop (length p) s else s)"

lemma HasPrefix_iff: "HasPrefix s p \<longleftrightarrow> prefix p s"
  by (induction s p rule: HasPrefix.induct) auto

lemma HasPrefix_append [simp]: "HasPrefix (p @ s) p"
  by (simp add: HasPrefix_iff)

lemma TrimPrefix_append [simp]: "TrimPrefix (p @ s) p = s"
  by (simp add: TrimPrefix_def)

lemma Contains_iff: "Contains s p \<longleftrightarrow> sublist p s"
  by (induction s p rule: Contains.induct)
     (auto simp: HasPrefix_iff sublist_Cons_right)

end
