(* ===== verification/Domain.thy ===== *)
theory Domain
  imports Prelude
begin

text \<open>
  \<open>internal/domain/seckill.go\<close>: the program's data. Structs are records, whose fields keep
  the source's names behind a prefix; instants are nanoseconds (\<open>time.Time\<close>); the status
  columns are Go \<open>int8\<close> values, so values beside the enumerated ones exist and are kept.
\<close>

record Activity =
  a_ID :: int
  a_ProductID :: int
  a_TotalStock :: int
  a_StartAt :: int
  a_EndAt :: int
  a_PerUserLimit :: int
  a_Status :: int

definition ActivityDraft :: int where "ActivityDraft = 0"
definition ActivityScheduled :: int where "ActivityScheduled = 1"
definition ActivityRunning :: int where "ActivityRunning = 2"
definition ActivityFinished :: int where "ActivityFinished = 3"
definition ActivityCanceled :: int where "ActivityCanceled = 4"

record Order =
  o_ID :: int
  o_UserID :: int
  o_ActivityID :: int
  o_ProductID :: int
  o_Status :: int
  o_IdempotencyToken :: string
  o_CreatedAt :: int

definition OrderQueued :: int where "OrderQueued = 0"
definition OrderPaid :: int where "OrderPaid = 1"
definition OrderCanceled :: int where "OrderCanceled = 2"
definition OrderRefunded :: int where "OrderRefunded = 3"

lemmas status_defs =
  ActivityDraft_def ActivityScheduled_def ActivityRunning_def ActivityFinished_def
  ActivityCanceled_def OrderQueued_def OrderPaid_def OrderCanceled_def OrderRefunded_def

record SeckillRequest =
  rq_ActivityID :: int
  rq_UserID :: int
  rq_IdempotencyToken :: string

datatype SeckillOutcome =
    OutcomeQueued | OutcomeSoldOut | OutcomeUserLimit | OutcomeDuplicate
  | OutcomeNotStarted | OutcomeEnded | OutcomeNotFound | OutcomeInternal | OutcomeNotWarmed

text \<open>The \<open>iota\<close> value of an outcome.\<close>

fun outcome_code :: "SeckillOutcome \<Rightarrow> nat" where
  "outcome_code OutcomeQueued = 0"
| "outcome_code OutcomeSoldOut = 1"
| "outcome_code OutcomeUserLimit = 2"
| "outcome_code OutcomeDuplicate = 3"
| "outcome_code OutcomeNotStarted = 4"
| "outcome_code OutcomeEnded = 5"
| "outcome_code OutcomeNotFound = 6"
| "outcome_code OutcomeInternal = 7"
| "outcome_code OutcomeNotWarmed = 8"

definition String :: "SeckillOutcome \<Rightarrow> string" where
  "String o' = (case o' of
      OutcomeQueued \<Rightarrow> ''queued''
    | OutcomeSoldOut \<Rightarrow> ''sold_out''
    | OutcomeUserLimit \<Rightarrow> ''user_limit''
    | OutcomeDuplicate \<Rightarrow> ''duplicate''
    | OutcomeNotStarted \<Rightarrow> ''not_started''
    | OutcomeEnded \<Rightarrow> ''ended''
    | OutcomeNotFound \<Rightarrow> ''not_found''
    | OutcomeNotWarmed \<Rightarrow> ''not_warmed''
    | _ \<Rightarrow> ''internal'')"

lemma outcome_code_inject: "outcome_code x = outcome_code y \<longleftrightarrow> x = y"
  by (cases x; cases y) simp_all

instantiation SeckillOutcome :: linorder
begin

definition less_eq_SeckillOutcome :: "SeckillOutcome \<Rightarrow> SeckillOutcome \<Rightarrow> bool" where
  "less_eq_SeckillOutcome x y \<longleftrightarrow> outcome_code x \<le> outcome_code y"

definition less_SeckillOutcome :: "SeckillOutcome \<Rightarrow> SeckillOutcome \<Rightarrow> bool" where
  "less_SeckillOutcome x y \<longleftrightarrow> outcome_code x < outcome_code y"

instance
  by standard (auto simp: less_eq_SeckillOutcome_def less_SeckillOutcome_def outcome_code_inject)

end

text \<open>
  The wire name of a seckill outcome determines the outcome: no two outcomes are
  reported to the client under one name.
\<close>

theorem String_inject: "String x = String y \<longleftrightarrow> x = y"
  by (cases x; cases y) (simp_all add: String_def)

end
