(* ===== verification/Collectors.thy ===== *)
theory Collectors
  imports Prelude
begin

text \<open>
  \<open>internal/infra/metrics/metrics.go\<close>: the Prometheus collectors of the program and what is
  registered of them.  The bounds of a histogram's buckets are in units of 0.1 ms.
\<close>

datatype instrument = Counter | Gauge | Histogram

record Collector =
  mc_Kind :: instrument
  mc_Name :: string
  mc_Buckets :: "int list"
  mc_Labels :: "string list"

definition HTTPDuration :: Collector where
  "HTTPDuration = \<lparr>mc_Kind = Histogram, mc_Name = ''http_request_duration_seconds'',
     mc_Buckets = [10, 50, 100, 250, 500, 1000, 2500, 5000, 10000, 25000, 50000],
     mc_Labels = [''route'', ''status'']\<rparr>"

definition SeckillRequest_total :: Collector where
  "SeckillRequest_total = \<lparr>mc_Kind = Counter, mc_Name = ''seckill_request_total'', mc_Buckets = [],
     mc_Labels = [''activity_id'', ''outcome'']\<rparr>"

definition StockRemain :: Collector where
  "StockRemain = \<lparr>mc_Kind = Gauge, mc_Name = ''seckill_stock_remain'', mc_Buckets = [],
     mc_Labels = [''activity_id'']\<rparr>"

definition LuaDuration :: Collector where
  "LuaDuration = \<lparr>mc_Kind = Histogram, mc_Name = ''seckill_lua_duration_seconds'',
     mc_Buckets = [1, 5, 10, 50, 100, 500, 1000], mc_Labels = []\<rparr>"

definition MySQLDuration :: Collector where
  "MySQLDuration = \<lparr>mc_Kind = Histogram, mc_Name = ''mysql_query_duration_seconds'',
     mc_Buckets = [10, 50, 100, 500, 1000, 5000, 10000, 50000], mc_Labels = [''shard'', ''op'']\<rparr>"

definition KafkaProduceDuration :: Collector where
  "KafkaProduceDuration = \<lparr>mc_Kind = Histogram, mc_Name = ''kafka_produce_duration_seconds'',
     mc_Buckets = [10, 50, 100, 500, 1000, 5000, 10000], mc_Labels = []\<rparr>"

definition DLQTotal :: Collector where
  "DLQTotal = \<lparr>mc_Kind = Counter, mc_Name = ''seckill_dlq_total'', mc_Buckets = [], mc_Labels = [''reason'']\<rparr>"

definition RateLimitTotal :: Collector where
  "RateLimitTotal = \<lparr>mc_Kind = Counter, mc_Name = ''seckill_ratelimit_total'', mc_Buckets = [],
     mc_Labels = [''scope'']\<rparr>"

definition IdempotentReplayTotal :: Collector where
  "IdempotentReplayTotal = \<lparr>mc_Kind = Counter, mc_Name = ''seckill_idempotent_replay_total'',
     mc_Buckets = [], mc_Labels = []\<rparr>"

text \<open>What \<open>init\<close> hands to \<open>MustRegister\<close>, in order.\<close>

definition registered :: "Collector list" where
  "registered = [HTTPDuration, SeckillRequest_total, StockRemain, LuaDuration, MySQLDuration,
     KafkaProduceDuration, DLQTotal, RateLimitTotal, IdempotentReplayTotal]"

lemmas collector_defs = HTTPDuration_def SeckillRequest_total_def StockRemain_def LuaDuration_def
  MySQLDuration_def KafkaProduceDuration_def DLQTotal_def RateLimitTotal_def IdempotentReplayTotal_def

text \<open>
  \<open>MustRegister\<close> panics when two collectors have one name, \<open>NewHistogram\<close> when the bounds do not
  increase, \<open>WithLabelValues\<close> when it is not given one value for each label.
\<close>

definition registrable :: "Collector list \<Rightarrow> bool" where
  "registrable cs \<longleftrightarrow> distinct (map mc_Name cs) \<and> (\<forall>c\<in>set cs. sorted_wrt (<) (mc_Buckets c))"

definition idle :: "Collector list" where
  "idle = [SeckillRequest_total, StockRemain, LuaDuration, MySQLDuration, KafkaProduceDuration]"

definition counted :: "Collector \<Rightarrow> string list \<Rightarrow> bool" where
  "counted m values \<longleftrightarrow> m \<in> set registered \<and> m \<notin> set idle \<and> length values = length (mc_Labels m)"

lemma counted_simps [simp]:
  "counted HTTPDuration [route, status]" "counted DLQTotal [reason]" "counted RateLimitTotal [scope]"
  "counted IdempotentReplayTotal []"
  by (simp_all add: counted_def registered_def idle_def collector_defs)

lemma registered_ok: "registrable registered"
  by (simp add: registrable_def registered_def collector_defs)

end
