(* ===== verification/Runtime.thy ===== *)
theory Runtime
  imports Domain Collectors
begin

text \<open>
  What the program is written against: Go's error values, the commands it sends to Redis,
  MySQL, Kafka and the process environment, and \<^emph>\<open>programs\<close>.  A handler is modelled as the
  tree of the calls it makes: \<open>Call c k\<close> issues the call \<open>c\<close> and goes on with \<open>k r\<close>
  on the reply \<open>r\<close>; \<open>Panic\<close> is a Go panic, which unwinds to the nearest \<open>recover\<close>.  Nothing here says how a service answers: a program is run against a
  service parameter (\<open>run\<close>), or described for all answers at once (\<open>performs\<close>), and
  many programs can be interleaved call by call.
\<close>

named_theorems prog_simps \<open>unfolding of the typed client calls\<close>

section \<open>Errors\<close>

text \<open>
  Error values: the sentinels the code compares with \<open>errors.Is\<close>, any other error by its
  text, and \<open>fmt.Errorf\<close> with \<open>%w\<close>.
\<close>

datatype goerr =
    ErrActivityNotFound | ErrOrderNotFound | ErrOrderDuplicate
  | ErrStockNotEnough | ErrStockNotWarmed | ErrUserLimitExceeded
  | ErrNoRows | RedisNil
  | GoErr string
  | Wrap string goerr

fun err_text :: "goerr \<Rightarrow> string" where
  "err_text ErrActivityNotFound = ''activity not found''"
| "err_text ErrOrderNotFound = ''order not found''"
| "err_text ErrOrderDuplicate = ''duplicate order''"
| "err_text ErrStockNotEnough = ''stock not enough''"
| "err_text ErrStockNotWarmed = ''stock not warmed''"
| "err_text ErrUserLimitExceeded = ''user limit exceeded''"
| "err_text ErrNoRows = ''sql: no rows in result set''"
| "err_text RedisNil = ''redis: nil''"
| "err_text (GoErr s) = s"
| "err_text (Wrap s e) = s @ '': '' @ err_text e"

fun errors_Is :: "goerr \<Rightarrow> goerr \<Rightarrow> bool" where
  "errors_Is (Wrap s e) t = (Wrap s e = t \<or> errors_Is e t)"
| "errors_Is e t = (e = t)"

definition is_sentinel :: "goerr \<Rightarrow> bool" where
  "is_sentinel t \<longleftrightarrow> (case t of GoErr _ \<Rightarrow> False | Wrap _ _ \<Rightarrow> False | _ \<Rightarrow> True)"

lemma errors_Is_refl [simp]: "errors_Is e e"
  by (cases e) simp_all

lemma errors_Is_GoErr [simp]: "errors_Is (GoErr s) t \<longleftrightarrow> t = GoErr s"
  by auto

section \<open>Commands\<close>

text \<open>
  A Lua script as the server runs it: it issues commands through \<open>redis.call\<close> and returns
  an integer or raises an error.
\<close>

datatype lcmd = LGet string | LDecrBy string int | LIncrBy string int | LExpire string int
datatype lrep = LFalse | LBulk string | LInt int
datatype lua = LReturn int | LError | LCall lcmd "lrep \<Rightarrow> lua"

datatype rcmd =
    GET string
  | SET string string int
  | SETNX string string int
  | INCR string
  | EXPIRE string int
  | EVAL "string list \<Rightarrow> string list \<Rightarrow> lua" "string list" "string list"

text \<open>
  The SQL statements of the source, one constructor per constant query text, and the database
  a statement is sent to (\<open>flashdeal\<close>, or the shard of some index).
\<close>

datatype dbid = MainDB | ShardDB nat

datatype stmt =
    InsertActivity Activity
  | SelectActivity int
  | UpdateDeduct int int int
  | SelectTotalStock int
  | InsertOrder Order
  | SelectOrder int int
  | CountOrders int

text \<open>
  JSON documents as \<open>encoding/json\<close> sees them after scanning; \<open>JTime s t\<close> is a string
  literal \<open>s\<close> that \<open>time.Time\<close> reads as the instant \<open>t\<close>, and \<open>JFloat\<close> a number that is no integer literal.
  A message body is such a document or bytes that are not JSON.
\<close>

datatype json =
    JNull | JBool bool | JNum int | JFloat string | JStr string | JTime string int
  | JArr "json list" | JObj "(string \<times> json) list"

datatype payload = Valid json | Malformed string

text \<open>
  A fetched Kafka message: its offset in the partition and its value.  A written one has a topic,
  a key, a value, a time and headers; \<open>InjectTrace\<close> asks the propagator of the trace context for
  the fields it sets.
\<close>

type_synonym header = "string \<times> string"

datatype kmsg = KMsg (msg_offset: nat) (msg_value: payload)

datatype call =
    Redis rcmd
  | Sql dbid stmt
  | KWrite string string payload int "header list"
  | InjectTrace
  | KFetch string
  | KCommit kmsg
  | KClose
  | Now
  | AddCounter
  | NewUUIDv7
  | NewUUID
  | BreakerAsk
  | BreakerTell bool
  | LimiterAllow
  | CtxDone
  | Sleep int
  | CountMetric Collector "string list"

datatype reply =
    ROk
  | RErr goerr
  | RStr string
  | RInt int
  | RBool bool
  | RActivity Activity
  | ROrder Order
  | RMsg kmsg
  | RFields "header list"

section \<open>Programs\<close>

datatype 'a prog = Ret 'a | Panic | Call call "reply \<Rightarrow> 'a prog"

primrec bindp :: "'a prog \<Rightarrow> ('a \<Rightarrow> 'b prog) \<Rightarrow> 'b prog" where
  "bindp (Ret a) f = f a"
| "bindp Panic f = Panic"
| "bindp (Call c k) f = Call c (\<lambda>r. bindp (k r) f)"

text \<open>\<open>defer recover\<close>: a panic of \<open>p\<close> is replaced by \<open>h\<close>.\<close>

primrec recover :: "'a prog \<Rightarrow> 'a prog \<Rightarrow> 'a prog" where
  "recover h (Ret a) = Ret a"
| "recover h Panic = h"
| "recover h (Call c k) = Call c (\<lambda>r. recover h (k r))"

lemma bindp_Ret [simp]: "bindp p Ret = p"
  by (induction p) auto

lemma bindp_assoc: "bindp (bindp p f) g = bindp p (\<lambda>a. bindp (f a) g)"
  by (induction p) auto

text \<open>
  Running a program against a service: \<open>S c w\<close> is the reply to the call \<open>c\<close> in the world
  \<open>w\<close> and the world after it.  The result is \<open>None\<close> when the program panics.
\<close>

primrec run :: "(call \<Rightarrow> 'w \<Rightarrow> reply \<times> 'w) \<Rightarrow> 'a prog \<Rightarrow> 'w \<Rightarrow> 'a option \<times> 'w" where
  "run S (Ret a) = (\<lambda>w. (Some a, w))"
| "run S Panic = (\<lambda>w. (None, w))"
| "run S (Call c k) = (\<lambda>w. case S c w of (r, w') \<Rightarrow> run S (k r) w')"

lemma run_bindp: "run S (bindp p f) w =
    (case run S p w of (None, w') \<Rightarrow> (None, w') | (Some a, w') \<Rightarrow> run S (f a) w')"
  by (induction p arbitrary: w) (auto split: prod.splits)

text \<open>
  \<open>performs p es a\<close>: with replies as in the list \<open>es\<close> of calls and replies, the program
  makes exactly those calls in that order and returns \<open>a\<close> (\<open>None\<close>: it panics).
\<close>

type_synonym event = "call \<times> reply"

inductive performs :: "'a prog \<Rightarrow> event list \<Rightarrow> 'a option \<Rightarrow> bool" where
  ret: "performs (Ret a) [] (Some a)"
| panic: "performs Panic [] None"
| call: "performs (k r) es a \<Longrightarrow> performs (Call c k) ((c, r) # es) a"

inductive_cases performs_RetE [elim!]: "performs (Ret a) es b"
inductive_cases performs_PanicE [elim!]: "performs Panic es b"
inductive_cases performs_CallE [elim!]: "performs (Call c k) es b"

inductive_simps performs_Ret [simp]: "performs (Ret a) es b"
inductive_simps performs_Panic [simp]: "performs Panic es b"
inductive_simps performs_Call: "performs (Call c k) es b"

lemma performs_bindp_cases:
  assumes "performs (bindp p f) es b"
  shows "(\<exists>es1 es2 a. es = es1 @ es2 \<and> performs p es1 (Some a) \<and> performs (f a) es2 b) \<or>
     performs p es None \<and> b = None"
  using assms
proof (induction p arbitrary: es)
  case (Call c k)
  then obtain r es' where es: "es = (c, r) # es'" and p: "performs (bindp (k r) f) es' b" by auto
  from Call.IH [OF rangeI p] show ?case
  proof (elim disjE exE conjE)
    fix es1 es2 a
    assume a: "es' = es1 @ es2" "performs (k r) es1 (Some a)" "performs (f a) es2 b"
    from a(2) have "performs (Call c k) ((c, r) # es1) (Some a)" by (rule performs.call)
    moreover have "es = ((c, r) # es1) @ es2" using es a(1) by simp
    ultimately show ?thesis using a(3) by (intro disjI1 exI conjI)
  next
    assume "performs (k r) es' None" "b = None"
    then show ?thesis using es performs.call [of k r es' None c] by simp
  qed
qed auto

lemma performs_bindpE:
  assumes "performs (bindp p f) es b"
  obtains (returned) es1 es2 a where "es = es1 @ es2" "performs p es1 (Some a)" "performs (f a) es2 b"
    | (panicked) "performs p es None" "b = None"
  using performs_bindp_cases [OF assms] by blast

text \<open>A run is one of the behaviours \<open>performs\<close> describes.\<close>

lemma run_performs: "run S p w = (a, w') \<Longrightarrow> \<exists>es. performs p es a"
proof (induction p arbitrary: w)
  case (Call c k)
  obtain r w1 where "S c w = (r, w1)" by (cases "S c w")
  with Call show ?case by (fastforce intro: performs.call)
qed auto

text \<open>
  Invariance over the calls of a program: \<open>makes P p\<close> says that, whatever the replies,
  every call of \<open>p\<close> satisfies \<open>P\<close>.
\<close>

primrec makes :: "(call \<Rightarrow> bool) \<Rightarrow> 'a prog \<Rightarrow> bool" where
  "makes P (Ret a) = True"
| "makes P Panic = True"
| "makes P (Call c k) = (P c \<and> (\<forall>r. makes P (k r)))"

lemma makes_bindp: "makes P p \<Longrightarrow> (\<And>a. makes P (f a)) \<Longrightarrow> makes P (bindp p f)"
  by (induction p) auto

lemma makes_recover: "makes P p \<Longrightarrow> makes P h \<Longrightarrow> makes P (recover h p)"
  by (induction p) auto

lemma makes_mono: "makes P p \<Longrightarrow> (\<And>c. P c \<Longrightarrow> Q c) \<Longrightarrow> makes Q p"
  by (induction p) auto

lemma performs_makes: "performs p es a \<Longrightarrow> makes P p \<Longrightarrow> (c, r) \<in> set es \<Longrightarrow> P c"
  by (induction rule: performs.induct) auto

text \<open>A world predicate that every allowed call keeps survives a whole run.\<close>

lemma run_invariant:
  assumes "makes P p" and "I w"
    and "\<And>c w r w'. P c \<Longrightarrow> I w \<Longrightarrow> S c w = (r, w') \<Longrightarrow> I w'"
  shows "I (snd (run S p w))"
  using assms(1,2)
proof (induction p arbitrary: w)
  case (Call c k)
  obtain r w1 where r: "S c w = (r, w1)" by (cases "S c w")
  with Call.prems assms(3) have "I w1" by auto
  with Call r show ?case by auto
qed auto

section \<open>Typed client calls\<close>

text \<open>
  The client libraries turn a reply into a Go value or an error; a reply of another type is
  the client's protocol error.  The continuation receives the result.
\<close>

definition protocol_error :: goerr where
  "protocol_error = GoErr ''unexpected reply type''"

definition as_unit :: "reply \<Rightarrow> goerr option" where
  "as_unit r = (case r of ROk \<Rightarrow> None | RErr e \<Rightarrow> Some e | _ \<Rightarrow> Some protocol_error)"

definition as_str :: "reply \<Rightarrow> goerr + string" where
  "as_str r = (case r of RStr s \<Rightarrow> Inr s | RErr e \<Rightarrow> Inl e | _ \<Rightarrow> Inl protocol_error)"

definition as_int :: "reply \<Rightarrow> goerr + int" where
  "as_int r = (case r of RInt i \<Rightarrow> Inr i | RErr e \<Rightarrow> Inl e | _ \<Rightarrow> Inl protocol_error)"

definition as_bool :: "reply \<Rightarrow> goerr + bool" where
  "as_bool r = (case r of RBool b \<Rightarrow> Inr b | RErr e \<Rightarrow> Inl e | _ \<Rightarrow> Inl protocol_error)"

definition as_activity :: "reply \<Rightarrow> goerr + Activity" where
  "as_activity r = (case r of RActivity a \<Rightarrow> Inr a | RErr e \<Rightarrow> Inl e | _ \<Rightarrow> Inl protocol_error)"

definition as_order :: "reply \<Rightarrow> goerr + Order" where
  "as_order r = (case r of ROrder x \<Rightarrow> Inr x | RErr e \<Rightarrow> Inl e | _ \<Rightarrow> Inl protocol_error)"

definition as_msg :: "reply \<Rightarrow> goerr + kmsg" where
  "as_msg r = (case r of RMsg m \<Rightarrow> Inr m | RErr e \<Rightarrow> Inl e | _ \<Rightarrow> Inl protocol_error)"

text \<open>Calls that cannot fail (the clock, an atomic counter): the value of the reply.\<close>

definition val_int :: "reply \<Rightarrow> int" where
  "val_int r = (case r of RInt i \<Rightarrow> i | _ \<Rightarrow> 0)"

definition val_bool :: "reply \<Rightarrow> bool" where
  "val_bool r = (case r of RBool b \<Rightarrow> b | _ \<Rightarrow> False)"

definition val_fields :: "reply \<Rightarrow> header list" where
  "val_fields r = (case r of RFields kvs \<Rightarrow> kvs | _ \<Rightarrow> [])"

lemma val_fields_simp [simp]: "val_fields (RFields kvs) = kvs"
  by (simp add: val_fields_def)

lemmas as_defs [prog_simps] =
  as_unit_def as_str_def as_int_def as_bool_def as_activity_def as_order_def as_msg_def
  val_int_def val_bool_def protocol_error_def

lemma as_unit_simps [simp]: "as_unit ROk = None" "as_unit (RErr e) = Some e"
  by (simp_all add: as_unit_def)

lemma as_str_simps [simp]: "as_str (RStr s) = Inr s" "as_str (RErr e) = Inl e"
  by (simp_all add: as_str_def)

lemma as_int_simps [simp]: "as_int (RInt i) = Inr i" "as_int (RErr e) = Inl e"
  by (simp_all add: as_int_def)

lemma as_bool_simps [simp]: "as_bool (RBool b) = Inr b" "as_bool (RErr e) = Inl e"
  by (simp_all add: as_bool_def)

lemma as_activity_simps [simp]: "as_activity (RActivity a) = Inr a" "as_activity (RErr e) = Inl e"
  by (simp_all add: as_activity_def)

lemma as_order_simps [simp]: "as_order (ROrder x) = Inr x" "as_order (RErr e) = Inl e"
  by (simp_all add: as_order_def)

lemma as_msg_simps [simp]: "as_msg (RMsg m) = Inr m" "as_msg (RErr e) = Inl e"
  by (simp_all add: as_msg_def)

lemma val_simps [simp]: "val_int (RInt i) = i" "val_bool (RBool b) = b"
  by (simp_all add: val_int_def val_bool_def)

lemma as_int_InrD: "as_int r = Inr i \<Longrightarrow> r = RInt i"
  by (auto simp: as_int_def split: reply.splits)

end
