(* ===== verification/Reservation.thy ===== *)
theory Reservation
  imports Runtime
begin

text \<open>
  Counting argument for concurrent programs.  A program may \<^emph>\<open>obtain\<close> units of some resource
  (a reply that grants one) and must \<^emph>\<open>spend\<close> one for each publication it makes.  \<open>funded n p\<close>
  says that \<open>p\<close>, starting with \<open>n\<close> units in hand, never makes a forbidden call and never
  spends a unit it does not hold, whatever the replies.  If the service never hands out more
  than there is, then no interleaving of funded programs publishes more than there was.
\<close>

section \<open>Funded programs\<close>

text \<open>
  The rules of a resource: which replies are possible at all, which replies grant a unit, which
  calls spend one, which calls must not be made.
\<close>

record rules =
  possible :: "call \<Rightarrow> reply \<Rightarrow> bool"
  grants :: "call \<Rightarrow> reply \<Rightarrow> bool"
  spends :: "call \<Rightarrow> bool"
  forbidden :: "call \<Rightarrow> bool"

primrec funded :: "rules \<Rightarrow> nat \<Rightarrow> 'a prog \<Rightarrow> (nat \<Rightarrow> 'a \<Rightarrow> bool) \<Rightarrow> bool" where
  "funded R n (Ret a) Q = Q n a"
| "funded R n Panic Q = True"
| "funded R n (Call c k) Q =
     (\<not> forbidden R c \<and> (spends R c \<longrightarrow> 0 < n) \<and>
      (\<forall>r. possible R c r \<longrightarrow>
        funded R ((if spends R c then n - 1 else n) + (if grants R c r then 1 else 0)) (k r) Q))"

lemma funded_bindp [simp]:
  "funded R n (bindp p f) Q = funded R n p (\<lambda>m a. funded R m (f a) Q)"
  by (induction p arbitrary: n) auto

lemma funded_mono:
  assumes "funded R n p Q" and "n \<le> m" and "\<And>n m a. Q n a \<Longrightarrow> n \<le> m \<Longrightarrow> Q' m a"
  shows "funded R m p Q'"
  using assms(1,2)
proof (induction p arbitrary: n m)
  case (Ret a)
  then show ?case using assms(3) by auto
next
  case Panic
  then show ?case by simp
next
  case (Call c k)
  show ?case
    unfolding funded.simps
  proof (intro conjI allI impI)
    show "\<not> forbidden R c" and "spends R c \<Longrightarrow> 0 < m" using Call.prems by auto
    fix r
    assume r: "possible R c r"
    let ?n = "(if spends R c then n - 1 else n) + (if grants R c r then 1 else 0)"
    let ?m = "(if spends R c then m - 1 else m) + (if grants R c r then 1 else 0)"
    have "funded R ?n (k r) Q" using Call.prems r by simp
    moreover have "?n \<le> ?m" using Call.prems by auto
    ultimately show "funded R ?m (k r) Q'" by (rule Call.IH [OF rangeI])
  qed
qed

lemma funded_weaken: "funded R n p Q \<Longrightarrow> (\<And>m a. Q m a \<Longrightarrow> Q' m a) \<Longrightarrow> funded R n p Q'"
  by (induction p arbitrary: n) auto

lemma funded_recover:
  assumes "funded R n p Q" and "\<And>m. funded R m h Q"
  shows "funded R n (recover h p) Q"
  using assms(1) by (induction p arbitrary: n) (auto simp: assms(2))

text \<open>A program all of whose calls neither grant, spend nor are forbidden keeps what it holds.\<close>

definition neutral :: "rules \<Rightarrow> call \<Rightarrow> bool" where
  "neutral R c \<longleftrightarrow> \<not> forbidden R c \<and> \<not> spends R c \<and> (\<forall>r. \<not> grants R c r)"

lemma funded_neutral: "makes (neutral R) p \<Longrightarrow> (\<And>a. Q n a) \<Longrightarrow> funded R n p Q"
  by (induction p) (auto simp: neutral_def)

section \<open>Interleaved execution\<close>

text \<open>
  A system runs a pool of programs against one world.  In one step some program makes its next
  call, a new program starts, or the environment changes the world.
\<close>

inductive sys_step ::
  "(call \<Rightarrow> 'w \<Rightarrow> reply \<times> 'w) \<Rightarrow> ('w \<Rightarrow> unit prog set) \<Rightarrow> ('w \<Rightarrow> 'w \<Rightarrow> bool) \<Rightarrow>
   unit prog list \<times> 'w \<Rightarrow> unit prog list \<times> 'w \<Rightarrow> bool"
  for S spawn env where
  exec: "i < length ps \<Longrightarrow> ps ! i = Call c k \<Longrightarrow> S c w = (r, w') \<Longrightarrow>
     sys_step S spawn env (ps, w) (ps[i := k r], w')"
| start: "p \<in> spawn w \<Longrightarrow> sys_step S spawn env (ps, w) (ps @ [p], w)"
| environment: "env w w' \<Longrightarrow> sys_step S spawn env (ps, w) (ps, w')"

inductive_simps sys_step_iff: "sys_step S spawn env (ps, w) (ps', w')"

inductive reachable ::
  "(call \<Rightarrow> 'w \<Rightarrow> reply \<times> 'w) \<Rightarrow> ('w \<Rightarrow> unit prog set) \<Rightarrow> ('w \<Rightarrow> 'w \<Rightarrow> bool) \<Rightarrow> 'w \<Rightarrow>
   unit prog list \<times> 'w \<Rightarrow> bool"
  for S spawn env w0 where
  initial: "reachable S spawn env w0 ([], w0)"
| step: "reachable S spawn env w0 s \<Longrightarrow> sys_step S spawn env s t \<Longrightarrow> reachable S spawn env w0 t"

lemma reachable_invariant:
  assumes "reachable S spawn env w0 s" and "I ([], w0)"
    and "\<And>s t. I s \<Longrightarrow> sys_step S spawn env s t \<Longrightarrow> I t"
  shows "I s"
  using assms by (induction rule: reachable.induct) blast+

text \<open>Running one program to its end, with nothing in between, is one of the schedules.\<close>

definition ended :: "unit prog \<Rightarrow> bool" where
  "ended p \<longleftrightarrow> p = Ret () \<or> p = Panic"

definition end_of :: "'a option \<Rightarrow> 'a prog" where
  "end_of res = (case res of None \<Rightarrow> Panic | Some a \<Rightarrow> Ret a)"

lemma end_of_simps [simp]: "end_of None = Panic" "end_of (Some a) = Ret a" "ended (end_of res)"
  by (auto simp: end_of_def ended_def split: option.splits)

lemma reachable_run_at:
  assumes "reachable S spawn env w0 (ps, w)" and "i < length ps" and "ps ! i = p"
    and "run S p w = (res, w')"
  shows "reachable S spawn env w0 (ps[i := end_of res], w')"
  using assms
proof (induction p arbitrary: ps w)
  case (Call c k)
  obtain r w1 where S: "S c w = (r, w1)" by (cases "S c w")
  have "sys_step S spawn env (ps, w) (ps[i := k r], w1)"
    using Call.prems(2,3) S by (rule sys_step.exec)
  with Call.prems(1) have "reachable S spawn env w0 (ps[i := k r], w1)" by (rule reachable.step)
  from Call.IH [OF rangeI this] Call.prems S show ?case by simp
qed (auto simp: list_update_same_conv [THEN iffD2])

lemma reachable_run_ends:
  assumes "reachable S spawn env w0 (ps, w)" and "p \<in> spawn w" and "run S p w = (res, w')"
  shows "reachable S spawn env w0 (ps @ [end_of res], w')"
proof -
  have "sys_step S spawn env (ps, w) (ps @ [p], w)" using assms(2) by (rule sys_step.start)
  with assms(1) have "reachable S spawn env w0 (ps @ [p], w)" by (rule reachable.step)
  from reachable_run_at [OF this, of "length ps" p] assms(3) show ?thesis by simp
qed

lemma reachable_run:
  assumes "reachable S spawn env w0 (ps, w)" and "p \<in> spawn w" and "run S p w = (res, w')"
  shows "\<exists>ps'. reachable S spawn env w0 (ps', w')"
  using reachable_run_ends [OF assms] by blast

text \<open>A property of all calls of all programs is kept by every step.\<close>

lemma sys_step_makes:
  assumes "sys_step S spawn env (ps, w) (ps', w')"
    and "\<forall>p\<in>set ps. makes P p" and "\<forall>p\<in>spawn w. makes P p"
  shows "\<forall>p\<in>set ps'. makes P p"
proof -
  have "makes P (k r)" if "i < length ps" "ps ! i = Call c k" for i c k r
    using that assms(2) nth_mem makes.simps(3) by metis
  moreover have "p \<in> set (ps[i := q]) \<Longrightarrow> p = q \<or> p \<in> set ps" for i p q
    using set_update_subset_insert by fastforce
  ultimately show ?thesis
    using assms unfolding sys_step_iff by fastforce
qed

section \<open>The counting contract\<close>

text \<open>
  What a service promises, in worlds that satisfy \<open>inv\<close>: replies are possible ones, \<open>inv\<close> is
  kept, and what is left plus what was published, plus the unit a reply grants, never exceeds
  what was there before plus the unit the call spends.
\<close>

locale tickets =
  fixes S :: "call \<Rightarrow> 'w \<Rightarrow> reply \<times> 'w"
    and R :: rules
    and inv :: "'w \<Rightarrow> bool"
    and left :: "'w \<Rightarrow> nat"
    and used :: "'w \<Rightarrow> nat"
  assumes conserved: "S c w = (r, w') \<Longrightarrow> \<not> forbidden R c \<Longrightarrow> inv w \<Longrightarrow>
      inv w' \<and> possible R c r \<and>
      left w' + used w' + (if grants R c r then 1 else 0)
        \<le> left w + used w + (if spends R c then 1 else 0)"
begin

definition solvent :: "nat \<Rightarrow> unit prog list \<times> 'w \<Rightarrow> bool" where
  "solvent N s = (case s of (ps, w) \<Rightarrow> inv w \<and> (\<exists>cs.
     list_all2 (\<lambda>n p. funded R n p (\<lambda>_ _. True)) cs ps \<and> left w + used w + sum_list cs \<le> N))"

lemma solvent_exec:
  assumes "solvent N (ps, w)" and i: "i < length ps" and c: "ps ! i = Call c k"
    and S: "S c w = (r, w')"
  shows "solvent N (ps[i := k r], w')"
proof -
  obtain cs where inv: "inv w" and cs: "list_all2 (\<lambda>n p. funded R n p (\<lambda>_ _. True)) cs ps"
    and le: "left w + used w + sum_list cs \<le> N"
    using assms(1) by (auto simp: solvent_def)
  have len: "i < length cs" using cs i by (simp add: list_all2_lengthD)
  have f: "funded R (cs ! i) (Call c k) (\<lambda>_ _. True)"
    using cs i c len by (metis list_all2_nthD)
  have "\<not> forbidden R c" using f by simp
  note law = conserved [OF S this inv]
  let ?n = "(if spends R c then cs ! i - 1 else cs ! i) + (if grants R c r then 1 else 0)"
  have "list_all2 (\<lambda>n p. funded R n p (\<lambda>_ _. True)) (cs[i := ?n]) (ps[i := k r])"
    using cs f law by (intro list_all2_update_cong) auto
  moreover have "sum_list (cs[i := ?n]) + cs ! i = sum_list cs + ?n"
  proof -
    have "cs ! i \<le> sum_list cs" using len by (simp add: member_le_sum_list)
    moreover have "sum_list (cs[i := m]) = sum_list cs + m - cs ! i" for m
      using len by (rule sum_list_update)
    ultimately show ?thesis by simp
  qed
  moreover have "spends R c \<longrightarrow> 0 < cs ! i" using f by simp
  ultimately show ?thesis
    using le law by (auto simp: solvent_def split: if_splits intro!: exI [of _ "cs[i := ?n]"])
qed

text \<open>No interleaving publishes more than there was.\<close>

lemma never_exceeds:
  assumes "reachable S spawn env w0 (ps, w)" and "inv w0"
    and spawn: "\<And>w p. p \<in> spawn w \<Longrightarrow> funded R 0 p (\<lambda>_ _. True)"
    and env: "\<And>w w'. env w w' \<Longrightarrow> inv w \<Longrightarrow> inv w' \<and> left w' + used w' \<le> left w + used w"
  shows "inv w \<and> left w + used w \<le> left w0 + used w0"
proof -
  have "solvent (left w0 + used w0) (ps, w)"
  proof (rule reachable_invariant [OF assms(1)])
    show "solvent (left w0 + used w0) ([], w0)" using assms(2) by (auto simp: solvent_def)
  next
    fix s t
    assume I: "solvent (left w0 + used w0) s" and step: "sys_step S spawn env s t"
    from step show "solvent (left w0 + used w0) t"
    proof (cases rule: sys_step.cases)
      case (exec i ps c k w r w')
      then show ?thesis using I solvent_exec by blast
    next
      case (start p w ps)
      then obtain cs where "inv w"
        "list_all2 (\<lambda>n p. funded R n p (\<lambda>_ _. True)) cs ps"
        "left w + used w + sum_list cs \<le> left w0 + used w0"
        using I by (auto simp: solvent_def)
      moreover have "list_all2 (\<lambda>n p. funded R n p (\<lambda>_ _. True)) [0] [p]"
        using spawn start by simp
      ultimately show ?thesis
        unfolding start solvent_def
        by (auto intro!: exI [of _ "cs @ [0]"] list_all2_appendI)
    next
      case (environment w w' ps)
      then show ?thesis using I env [of w w'] unfolding solvent_def by fastforce
    qed
  qed
  then show ?thesis by (auto simp: solvent_def)
qed

end

end
