(* ===== verification/Services.thy ===== *)
theory Services
  imports Runtime
begin

text \<open>
  The services the program relies on.  Redis, MySQL and Kafka are not code of the repository:
  a service is a parameter \<open>S\<close> of the model (what a call answers, in a world of any type),
  and what the code relies on is stated as the laws of the locale \<open>services\<close> over three
  observations of the world: the Redis keyspace, the tables of each database and the log of
  each topic.  The laws state documented behaviour: a Redis command and a Lua script are
  atomic; a statement is atomic and obeys the keys of the schema in \<open>migrations/\<close>; a
  written Kafka message is in the log at least once; and every remote call may fail, before or
  after its effect.  \<open>redis_services\<close>, \<open>working_services\<close> and \<open>reliable_services\<close> add that more and more of
  these calls do not fail.  An in-memory service satisfies them all and serves the witnesses; other
  services are built on top of it.
\<close>

section \<open>Redis\<close>

text \<open>A keyspace maps a key to its string value and the time to live it was last given, if any.\<close>

type_synonym keyspace = "string \<rightharpoonup> string \<times> int option"

definition not_integer :: goerr where
  "not_integer = GoErr ''ERR value is not an integer or out of range''"

definition incr_by :: "string \<Rightarrow> int \<Rightarrow> keyspace \<Rightarrow> (goerr + int) \<times> keyspace" where
  "incr_by k d ks =
     (case ks k of
        None \<Rightarrow> if in64 d then (Inr d, ks(k \<mapsto> (show_int d, None))) else (Inl not_integer, ks)
      | Some (v, ttl) \<Rightarrow>
          (case ParseInt v of
             None \<Rightarrow> (Inl not_integer, ks)
           | Some i \<Rightarrow> if in64 (i + d) then (Inr (i + d), ks(k \<mapsto> (show_int (i + d), ttl)))
                       else (Inl not_integer, ks)))"

definition set_ttl :: "string \<Rightarrow> int \<Rightarrow> keyspace \<Rightarrow> bool \<times> keyspace" where
  "set_ttl k d ks = (case ks k of None \<Rightarrow> (False, ks) | Some (v, _) \<Rightarrow> (True, ks(k \<mapsto> (v, Some d))))"

fun lua_sem :: "lcmd \<Rightarrow> keyspace \<Rightarrow> (goerr + lrep) \<times> keyspace" where
  "lua_sem (LGet k) ks = (Inr (case ks k of None \<Rightarrow> LFalse | Some (v, _) \<Rightarrow> LBulk v), ks)"
| "lua_sem (LDecrBy k d) ks =
     (case incr_by k (- d) ks of (Inl e, ks') \<Rightarrow> (Inl e, ks') | (Inr i, ks') \<Rightarrow> (Inr (LInt i), ks'))"
| "lua_sem (LIncrBy k d) ks =
     (case incr_by k d ks of (Inl e, ks') \<Rightarrow> (Inl e, ks') | (Inr i, ks') \<Rightarrow> (Inr (LInt i), ks'))"
| "lua_sem (LExpire k s) ks =
     (case set_ttl k (s * 1000000000) ks of (b, ks') \<Rightarrow> (Inr (LInt (if b then 1 else 0)), ks'))"

text \<open>A script runs to its end with no other command in between; writes before an error stay.\<close>

primrec run_lua :: "lua \<Rightarrow> keyspace \<Rightarrow> reply \<times> keyspace" where
  "run_lua (LReturn n) = (\<lambda>ks. (RInt n, ks))"
| "run_lua LError = (\<lambda>ks. (RErr (GoErr ''ERR Error running script''), ks))"
| "run_lua (LCall c k) = (\<lambda>ks. case lua_sem c ks of
       (Inl e, ks') \<Rightarrow> (RErr e, ks')
     | (Inr r, ks') \<Rightarrow> run_lua (k r) ks')"

fun redis_sem :: "rcmd \<Rightarrow> keyspace \<Rightarrow> reply \<times> keyspace" where
  "redis_sem (GET k) ks = (case ks k of None \<Rightarrow> RErr RedisNil | Some (v, _) \<Rightarrow> RStr v, ks)"
| "redis_sem (SET k v ttl) ks = (ROk, ks(k \<mapsto> (v, if 0 < ttl then Some ttl else None)))"
| "redis_sem (SETNX k v ttl) ks =
     (case ks k of
        None \<Rightarrow> (RBool True, ks(k \<mapsto> (v, if 0 < ttl then Some ttl else None)))
      | Some _ \<Rightarrow> (RBool False, ks))"
| "redis_sem (INCR k) ks =
     (case incr_by k 1 ks of (Inl e, ks') \<Rightarrow> (RErr e, ks') | (Inr i, ks') \<Rightarrow> (RInt i, ks'))"
| "redis_sem (EXPIRE k d) ks = (case set_ttl k d ks of (b, ks') \<Rightarrow> (RBool b, ks'))"
| "redis_sem (EVAL script keys argv) ks = run_lua (script keys argv) ks"

text \<open>
  What a client may see of a command: its reply and effect, or a failure of the connection
  with the command executed or not.
\<close>

definition redis_law :: "rcmd \<Rightarrow> keyspace \<Rightarrow> reply \<Rightarrow> keyspace \<Rightarrow> bool" where
  "redis_law c ks r ks' \<longleftrightarrow>
     (r, ks') = redis_sem c ks \<or>
     (\<exists>m. r = RErr (GoErr m)) \<and> (ks' = ks \<or> ks' = snd (redis_sem c ks))"

section \<open>MySQL\<close>

text \<open>
  A database holds the table \<open>activities\<close> (by primary key) and the table \<open>orders_0\<close>.
  Two things of the schema are parameters: \<open>coll\<close>, the collation under which
  \<open>idempotency_token\<close> values are compared in the unique key \<open>uk_idem\<close>, and \<open>dt\<close>,
  what a \<open>DATETIME\<close> column keeps of an instant.
\<close>

record tables =
  activities :: "int \<rightharpoonup> Activity"
  orders_0 :: "Order list"

definition stored_activity :: "(int \<Rightarrow> int) \<Rightarrow> Activity \<Rightarrow> Activity" where
  "stored_activity dt a = a\<lparr>a_StartAt := dt (a_StartAt a), a_EndAt := dt (a_EndAt a)\<rparr>"

definition stored_order :: "(int \<Rightarrow> int) \<Rightarrow> Order \<Rightarrow> Order" where
  "stored_order dt x = x\<lparr>o_CreatedAt := dt (o_CreatedAt x)\<rparr>"

text \<open>The keys of \<open>orders_0\<close>: \<open>PRIMARY KEY (id)\<close> and \<open>UNIQUE KEY uk_idem\<close>.\<close>

definition uk_idem :: "(string \<Rightarrow> string) \<Rightarrow> Order \<Rightarrow> int \<times> int \<times> string" where
  "uk_idem coll x = (o_ActivityID x, o_UserID x, coll (o_IdempotencyToken x))"

definition order_conflict :: "(string \<Rightarrow> string) \<Rightarrow> Order \<Rightarrow> Order list \<Rightarrow> bool" where
  "order_conflict coll x rows \<longleftrightarrow>
     (\<exists>y\<in>set rows. o_ID y = o_ID x \<or> uk_idem coll y = uk_idem coll x)"

text \<open>The statements' effect; \<open>None\<close> is a duplicate-key error.\<close>

fun sql_sem :: "(string \<Rightarrow> string) \<Rightarrow> (int \<Rightarrow> int) \<Rightarrow> stmt \<Rightarrow> tables \<Rightarrow> (reply \<times> tables) option" where
  "sql_sem coll dt (InsertActivity a) t =
     (if activities t (a_ID a) \<noteq> None then None
      else Some (ROk, t\<lparr>activities := (activities t)(a_ID a \<mapsto> stored_activity dt a)\<rparr>))"
| "sql_sem coll dt (SelectActivity i) t =
     Some (case activities t i of None \<Rightarrow> RErr ErrNoRows | Some a \<Rightarrow> RActivity a, t)"
| "sql_sem coll dt (UpdateDeduct n i m) t =
     Some (case activities t i of
         None \<Rightarrow> (RInt 0, t)
       | Some a \<Rightarrow>
           if m \<le> a_TotalStock a \<and> n \<noteq> 0
           then (RInt 1, t\<lparr>activities := (activities t)(i \<mapsto> a\<lparr>a_TotalStock := a_TotalStock a - n\<rparr>)\<rparr>)
           else (RInt 0, t))"
| "sql_sem coll dt (SelectTotalStock i) t =
     Some (case activities t i of None \<Rightarrow> RErr ErrNoRows | Some a \<Rightarrow> RInt (a_TotalStock a), t)"
| "sql_sem coll dt (InsertOrder x) t =
     (if order_conflict coll x (orders_0 t) then None
      else Some (ROk, t\<lparr>orders_0 := orders_0 t @ [stored_order dt x]\<rparr>))"
| "sql_sem coll dt (SelectOrder u i) t =
     Some (case filter (\<lambda>x. o_UserID x = u \<and> o_ID x = i) (orders_0 t) of
         [] \<Rightarrow> RErr ErrNoRows | x # _ \<Rightarrow> ROrder x, t)"
| "sql_sem coll dt (CountOrders i) t =
     Some (RInt (int (length (filter (\<lambda>x. o_ActivityID x = i) (orders_0 t)))), t)"

text \<open>The texts of MySQL's error 1062.\<close>

definition duplicate_text :: "string \<Rightarrow> bool" where
  "duplicate_text m \<longleftrightarrow> Contains m ''Error 1062'' \<or> Contains m ''Duplicate entry''"

definition sql_law ::
  "(string \<Rightarrow> string) \<Rightarrow> (int \<Rightarrow> int) \<Rightarrow> stmt \<Rightarrow> tables \<Rightarrow> reply \<Rightarrow> tables \<Rightarrow> bool" where
  "sql_law coll dt s t r t' \<longleftrightarrow>
     (case sql_sem coll dt s t of
        None \<Rightarrow> t' = t \<and> (\<exists>m. r = RErr (GoErr m))
      | Some (r0, t0) \<Rightarrow>
          r = r0 \<and> t' = t0 \<or>
          (\<exists>m. r = RErr (GoErr m) \<and> \<not> duplicate_text m) \<and> (t' = t \<or> t' = t0))"

section \<open>The interface\<close>

text \<open>Calls with no effect on the three observations.\<close>

fun local_call :: "call \<Rightarrow> bool" where
  "local_call (Redis _) = False"
| "local_call (Sql _ _) = False"
| "local_call (KWrite _ _ _ _ _) = False"
| "local_call _ = True"

locale services =
  fixes S :: "call \<Rightarrow> 'w \<Rightarrow> reply \<times> 'w"
    and ks :: "'w \<Rightarrow> keyspace"
    and tbl :: "'w \<Rightarrow> dbid \<Rightarrow> tables"
    and log :: "'w \<Rightarrow> string \<Rightarrow> payload list"
    and coll :: "string \<Rightarrow> string"
    and dt :: "int \<Rightarrow> int"
  assumes redis_call: "S (Redis rc) w = (r, w') \<Longrightarrow>
      redis_law rc (ks w) r (ks w') \<and> tbl w' = tbl w \<and> log w' = log w"
    and sql_call: "S (Sql d s) w = (r, w') \<Longrightarrow>
      (\<exists>t'. sql_law coll dt s (tbl w d) r t' \<and> tbl w' = (tbl w)(d := t')) \<and>
      ks w' = ks w \<and> log w' = log w"
    and kafka_write: "S (KWrite topic key v t hs) w = (r, w') \<Longrightarrow>
      (\<exists>n. log w' = (log w)(topic := log w topic @ replicate n v) \<and> (r = ROk \<longrightarrow> 0 < n)) \<and>
      (r = ROk \<or> (\<exists>m. r = RErr (GoErr m))) \<and> ks w' = ks w \<and> tbl w' = tbl w"
    and local_frame: "S c w = (r, w') \<Longrightarrow> local_call c \<Longrightarrow>
      ks w' = ks w \<and> tbl w' = tbl w \<and> log w' = log w"
    and fetched: "S (KFetch topic) w = (RMsg m, w') \<Longrightarrow> msg_value m \<in> set (log w topic)"
    and now_int: "S Now w = (r, w') \<Longrightarrow> \<exists>i. r = RInt i \<and> in64 i"
    and counter_int: "S AddCounter w = (r, w') \<Longrightarrow> \<exists>i. r = RInt i"
begin

lemma other_frame:
  assumes "S c w = (r, w')"
  shows "\<not> (\<exists>x. c = Redis x) \<Longrightarrow> ks w' = ks w"
    and "\<not> (\<exists>d s. c = Sql d s) \<Longrightarrow> tbl w' = tbl w"
    and "\<not> (\<exists>a b v t hs. c = KWrite a b v t hs) \<Longrightarrow> log w' = log w"
  using assms redis_call sql_call kafka_write local_frame by (cases c; force)+

end

text \<open>
  Services whose Redis does not fail, services none of which fails, and those whose breaker,
  too, lets every request through.
\<close>

locale redis_services = services +
  assumes redis_ok: "S (Redis rc) w = (r, w') \<Longrightarrow> (r, ks w') = redis_sem rc (ks w)"

locale working_services = redis_services +
  assumes sql_ok: "S (Sql d s) w = (r, w') \<Longrightarrow>
      (case sql_sem coll dt s (tbl w d) of
         None \<Rightarrow> \<exists>m. r = RErr (GoErr m) \<and> duplicate_text m
       | Some (r0, t0) \<Rightarrow> r = r0 \<and> tbl w' = (tbl w)(d := t0))"
    and kafka_ok: "S (KWrite topic key v t hs) w = (r, w') \<Longrightarrow>
      r = ROk \<and> log w' = (log w)(topic := log w topic @ [v])"
    and uuid_ok: "S NewUUIDv7 w = (r, w') \<Longrightarrow> \<exists>s. r = RStr s"
    and limiter_ok: "S LimiterAllow w = (r, w') \<Longrightarrow> r = RBool True"
begin

lemma sql_duplicate:
  assumes "S (Sql d s) w = (r, w')" and "sql_sem coll dt s (tbl w d) = None"
  shows "tbl w' = tbl w"
  using sql_call [OF assms(1)] assms(2) by (auto simp: sql_law_def)

end

locale reliable_services = working_services +
  assumes breaker_ok: "S BreakerAsk w = (r, w') \<Longrightarrow> r = ROk"

lemma reliable_parts:
  assumes "reliable_services S ks tbl logs coll dt"
  shows "redis_services S ks tbl logs coll dt" and "services S ks tbl logs coll dt"
  using reliable_services.axioms(1) [OF assms] working_services.axioms(1) redis_services.axioms(1) by blast+

section \<open>An in-memory service\<close>

record mem =
  mem_ks :: keyspace
  mem_tbl :: "dbid \<Rightarrow> tables"
  mem_log :: "string \<Rightarrow> payload list"
  mem_clock :: int
  mem_counter :: int
  mem_uuid :: nat

definition mem_sql :: "dbid \<Rightarrow> stmt \<Rightarrow> mem \<Rightarrow> reply \<times> mem" where
  "mem_sql d s w =
     (case sql_sem (\<lambda>x. x) (\<lambda>t. t) s (mem_tbl w d) of
        None \<Rightarrow> (RErr (GoErr ''Error 1062''), w)
      | Some (r, t') \<Rightarrow> (r, w\<lparr>mem_tbl := (mem_tbl w)(d := t')\<rparr>))"

fun mem_call :: "call \<Rightarrow> mem \<Rightarrow> reply \<times> mem" where
  "mem_call (Redis c) w = (case redis_sem c (mem_ks w) of (r, k) \<Rightarrow> (r, w\<lparr>mem_ks := k\<rparr>))"
| "mem_call (Sql d s) w = mem_sql d s w"
| "mem_call (KWrite topic key v t hs) w =
     (ROk, w\<lparr>mem_log := (mem_log w)(topic := mem_log w topic @ [v])\<rparr>)"
| "mem_call (KFetch topic) w =
     (case mem_log w topic of [] \<Rightarrow> (RErr (GoErr ''context canceled''), w) | v # _ \<Rightarrow> (RMsg (KMsg 0 v), w))"
| "mem_call Now w = (RInt (wrap64 (mem_clock w)), w\<lparr>mem_clock := mem_clock w + 1\<rparr>)"
| "mem_call AddCounter w = (RInt (mem_counter w + 1), w\<lparr>mem_counter := mem_counter w + 1\<rparr>)"
| "mem_call NewUUIDv7 w = (RStr (''uuid-'' @ show_nat (mem_uuid w)), w\<lparr>mem_uuid := Suc (mem_uuid w)\<rparr>)"
| "mem_call NewUUID w = (RStr (''uuid-'' @ show_nat (mem_uuid w)), w\<lparr>mem_uuid := Suc (mem_uuid w)\<rparr>)"
| "mem_call LimiterAllow w = (RBool True, w)"
| "mem_call CtxDone w = (RBool False, w)"
| "mem_call InjectTrace w = (RFields [(''traceparent'', ''00-1-1-01'')], w)"
| "mem_call _ w = (ROk, w)"

definition empty_tables :: tables where
  "empty_tables = \<lparr>activities = Map.empty, orders_0 = []\<rparr>"

definition mem0 :: mem where
  "mem0 = \<lparr>mem_ks = Map.empty, mem_tbl = (\<lambda>_. empty_tables), mem_log = (\<lambda>_. []),
           mem_clock = 0, mem_counter = 0, mem_uuid = 0\<rparr>"

lemma duplicate_text_1062: "duplicate_text ''Error 1062''"
  by (simp add: duplicate_text_def)

interpretation memory: reliable_services mem_call mem_ks mem_tbl mem_log "\<lambda>x. x" "\<lambda>t. t"
proof unfold_locales
  fix c r w and w' :: mem
  assume "mem_call (Redis c) w = (r, w')"
  then show "redis_law c (mem_ks w) r (mem_ks w') \<and> mem_tbl w' = mem_tbl w \<and> mem_log w' = mem_log w"
    and "(r, mem_ks w') = redis_sem c (mem_ks w)"
    by (auto simp: redis_law_def split: prod.splits)
next
  fix d s r w and w' :: mem
  assume "mem_call (Sql d s) w = (r, w')"
  then show "(\<exists>t'. sql_law (\<lambda>x. x) (\<lambda>t. t) s (mem_tbl w d) r t' \<and> mem_tbl w' = (mem_tbl w)(d := t')) \<and>
      mem_ks w' = mem_ks w \<and> mem_log w' = mem_log w"
    and "case sql_sem (\<lambda>x. x) (\<lambda>t. t) s (mem_tbl w d) of
         None \<Rightarrow> \<exists>m. r = RErr (GoErr m) \<and> duplicate_text m
       | Some (r0, t0) \<Rightarrow> r = r0 \<and> mem_tbl w' = (mem_tbl w)(d := t0)"
    by (auto simp: mem_sql_def sql_law_def duplicate_text_1062 split: option.splits prod.splits)
next
  fix topic key v t hs r w and w' :: mem
  assume k: "mem_call (KWrite topic key v t hs) w = (r, w')"
  then show "r = ROk \<and> mem_log w' = (mem_log w)(topic := mem_log w topic @ [v])"
    by auto
  with k show "(\<exists>n. mem_log w' = (mem_log w)(topic := mem_log w topic @ replicate n v) \<and>
       (r = ROk \<longrightarrow> 0 < n)) \<and> (r = ROk \<or> (\<exists>m. r = RErr (GoErr m))) \<and>
      mem_ks w' = mem_ks w \<and> mem_tbl w' = mem_tbl w"
    by (auto intro: exI [of _ 1])
next
  fix c r w and w' :: mem
  assume "mem_call c w = (r, w')" and "local_call c"
  then show "mem_ks w' = mem_ks w \<and> mem_tbl w' = mem_tbl w \<and> mem_log w' = mem_log w"
    by (cases c) (auto split: list.splits)
qed (auto split: list.splits)

section \<open>Services on top of services\<close>

text \<open>
  A service built on top of another: it answers some local calls itself and passes the rest on.
\<close>

definition passes_on ::
  "(call \<Rightarrow> 'w \<Rightarrow> reply \<times> 'w) \<Rightarrow> ('w \<Rightarrow> 'v) \<Rightarrow> (call \<Rightarrow> 'v \<Rightarrow> reply \<times> 'v) \<Rightarrow> (call \<Rightarrow> bool) \<Rightarrow> bool" where
  "passes_on T f S own \<longleftrightarrow>
     (\<forall>c x. if own c then local_call c \<and> c \<notin> {Now, AddCounter, NewUUIDv7, LimiterAllow} \<and> f (snd (T c x)) = f x
            else S c (f x) = (fst (T c x), f (snd (T c x))))"

lemma passes_on_other: "passes_on T f S own \<Longrightarrow> T c x = (r, x') \<Longrightarrow> \<not> own c \<Longrightarrow> S c (f x) = (r, f x')"
  by (auto simp: passes_on_def dest!: spec [of _ c] spec [of _ x])

lemma passes_on_own: "passes_on T f S own \<Longrightarrow> T c x = (r, x') \<Longrightarrow> own c \<Longrightarrow> f x' = f x"
  by (auto simp: passes_on_def dest!: spec [of _ c] spec [of _ x])

lemma passes_on_local: "passes_on T f S own \<Longrightarrow> own c \<Longrightarrow> local_call c \<and> c \<notin> {Now, AddCounter, NewUUIDv7, LimiterAllow}"
  unfolding passes_on_def by (drule spec [of _ c]) simp

lemma working_passed_on:
  assumes "working_services S ks tbl logs coll dt" and T: "passes_on T f S own"
    and fetch: "\<And>topic x m x'. own (KFetch topic) \<Longrightarrow> T (KFetch topic) x = (RMsg m, x') \<Longrightarrow> msg_value m \<in> set (logs (f x) topic)"
  shows "working_services T (\<lambda>x. ks (f x)) (\<lambda>x. tbl (f x)) (\<lambda>x. logs (f x)) coll dt"
proof -
  have parts: "redis_services S ks tbl logs coll dt" "services S ks tbl logs coll dt"
    using working_services.axioms(1) [OF assms(1)] redis_services.axioms(1) by blast+
  have down: "S c (f x) = (r, f x')" if "T c x = (r, x')" "\<not> local_call c" for c x r x'
    by (rule passes_on_other [OF T that(1)]) (use passes_on_local [OF T] that(2) in blast)
  have named: "S c (f x) = (r, f x')" if "T c x = (r, x')" "c \<in> {Now, AddCounter, NewUUIDv7, LimiterAllow}" for c x r x'
    by (rule passes_on_other [OF T that(1)]) (use passes_on_local [OF T] that(2) in blast)
  show ?thesis
  proof (unfold_locales, goal_cases)
    case (1 rc x r x')
    show ?case using services.redis_call [OF parts(2) down [OF 1]] by simp
  next
    case (2 d s x r x')
    show ?case using services.sql_call [OF parts(2) down [OF 2]] by simp
  next
    case (3 topic key v t hs x r x')
    show ?case using services.kafka_write [OF parts(2) down [OF 3]] by simp
  next
    case (4 c x r x')
    then show ?case
      using services.local_frame [OF parts(2) passes_on_other [OF T 4(1)]] passes_on_own [OF T 4(1)] by (cases "own c") auto
  next
    case (5 topic x m x')
    then show ?case
      using services.fetched [OF parts(2) passes_on_other [OF T 5]] fetch by (cases "own (KFetch topic)") auto
  next
    case (6 x r x')
    show ?case by (rule services.now_int [OF parts(2) named [OF 6]]) simp
  next
    case (7 x r x')
    show ?case by (rule services.counter_int [OF parts(2) named [OF 7]]) simp
  next
    case (8 rc x r x')
    show ?case by (rule redis_services.redis_ok [OF parts(1) down [OF 8]]) simp
  next
    case (9 d s x r x')
    show ?case by (rule working_services.sql_ok [OF assms(1) down [OF 9]]) simp
  next
    case (10 topic key v t hs x r x')
    show ?case by (rule working_services.kafka_ok [OF assms(1) down [OF 10]]) simp
  next
    case (11 x r x')
    show ?case by (rule working_services.uuid_ok [OF assms(1) named [OF 11]]) simp
  next
    case (12 x r x')
    show ?case by (rule working_services.limiter_ok [OF assms(1) named [OF 12]]) simp
  qed
qed

end
