(* ===== verification/Stock_Repo.thy ===== *)
theory Stock_Repo
  imports Services
begin

text \<open>
  \<open>internal/repo/stock_redis_repo.go\<close> with \<open>stock_deduct.lua\<close>, and
  \<open>internal/repo/stock_repo.go\<close>: the two implementations of the port \<open>StockRepo\<close>, the
  exact behaviour of the script, and the contract both implementations satisfy.
\<close>

section \<open>The Lua script\<close>

text \<open>
  Lua numbers are IEEE doubles: an integer beyond \<open>2 ^ 53\<close> in absolute value is rounded to 53
  significant bits, half to even.  \<open>tonumber\<close> is modelled on decimal integers, the only
  numbers the program stores; on any other string it is \<open>nil\<close>.
\<close>

fun bit_length :: "nat \<Rightarrow> nat" where
  "bit_length n = (if n = 0 then 0 else Suc (bit_length (n div 2)))"

declare bit_length.simps [simp del]

definition round_double :: "int \<Rightarrow> int" where
  "round_double i =
     (if \<bar>i\<bar> \<le> 2 ^ 53 then i
      else let e = bit_length (nat \<bar>i\<bar>) - 53;
               q = \<bar>i\<bar> div 2 ^ e;
               r = \<bar>i\<bar> mod 2 ^ e;
               up = (2 * r > 2 ^ e \<or> 2 * r = 2 ^ e \<and> odd q)
           in sgn i * (2 ^ e * (if up then q + 1 else q)))"

definition tonumber :: "string \<Rightarrow> int option" where
  "tonumber s = map_option round_double (parse_dec s)"

text \<open>Comparing or adding \<open>nil\<close> raises an error, which ends the script.\<close>

definition stock_deduct :: "string list \<Rightarrow> string list \<Rightarrow> lua" where
  "stock_deduct KEYS ARGV =
     (let stock_key = KEYS ! 0;
          userbuy_key = KEYS ! 1;
          deduct = tonumber (ARGV ! 0);
          user_limit = tonumber (ARGV ! 1)
      in LCall (LGet stock_key) (\<lambda>raw_stock.
        case raw_stock of
          LBulk s \<Rightarrow>
            (case (tonumber s, deduct) of
               (Some stock, Some deduct) \<Rightarrow>
                 if stock < deduct then LReturn (- 1)
                 else LCall (LGet userbuy_key) (\<lambda>raw.
                   case (tonumber (case raw of LBulk v \<Rightarrow> v | _ \<Rightarrow> ''0''), user_limit) of
                     (Some user_bought, Some user_limit) \<Rightarrow>
                       if round_double (user_bought + deduct) > user_limit then LReturn (- 2)
                       else LCall (LDecrBy stock_key deduct) (\<lambda>new_stock.
                            LCall (LIncrBy userbuy_key deduct) (\<lambda>_.
                            LCall (LExpire userbuy_key 86400) (\<lambda>_.
                              case new_stock of LInt n \<Rightarrow> LReturn (round_double n) | _ \<Rightarrow> LError)))
                   | _ \<Rightarrow> LError)
             | _ \<Rightarrow> LError)
        | _ \<Rightarrow> LReturn (- 3)))"

definition day :: int where "day = 86400 * 1000000000"

lemma round_double_id [simp]: "\<bar>i\<bar> \<le> 2 ^ 53 \<Longrightarrow> round_double i = i"
  by (simp add: round_double_def)

lemma round_double_pos:
  assumes "0 < round_double i"
  shows "0 < i"
proof (rule ccontr)
  assume "\<not> 0 < i"
  then have "sgn i * (2 ^ e * (if up then q + 1 else q)) \<le> 0" if "0 \<le> q" for e up and q :: int
    using that by (cases "i = 0") (auto simp: sgn_if)
  then have "round_double i \<le> 0"
    using \<open>\<not> 0 < i\<close> by (auto simp: round_double_def Let_def pos_imp_zdiv_nonneg_iff)
  with assms show False by simp
qed

lemma ParseInt_parse_dec: "ParseInt v = Some i \<Longrightarrow> parse_dec v = Some i"
  by (auto simp: ParseInt_def split: option.splits if_splits)

section \<open>The Redis implementation\<close>

definition deduct_call :: "int \<Rightarrow> int \<Rightarrow> int \<Rightarrow> int \<Rightarrow> call" where
  "deduct_call activityID userID n perUserLimit =
     Redis (EVAL stock_deduct [stock_key activityID, user_buy_key activityID userID]
                 [show_int n, show_int perUserLimit])"

definition stockRedisRepo_DeductForUser ::
  "int \<Rightarrow> int \<Rightarrow> int \<Rightarrow> int \<Rightarrow> (goerr + int) prog" where
  "stockRedisRepo_DeductForUser activityID userID n perUserLimit =
     Call (deduct_call activityID userID n perUserLimit) (\<lambda>r.
       case as_int r of
         Inl err \<Rightarrow> Ret (Inl err)
       | Inr v \<Rightarrow>
           if v = - 1 then Ret (Inl ErrStockNotEnough)
           else if v = - 2 then Ret (Inl ErrUserLimitExceeded)
           else if v = - 3 then Ret (Inl ErrStockNotWarmed)
           else if v < 0 then Ret (Inl (GoErr ''unknown lua return''))
           else Ret (Inr v))"

section \<open>The SQL implementation\<close>

definition stockRepoSQL_DeductForUser ::
  "int \<Rightarrow> int \<Rightarrow> int \<Rightarrow> int \<Rightarrow> (goerr + int) prog" where
  "stockRepoSQL_DeductForUser activityID userID n perUserLimit =
     Call (Sql MainDB (UpdateDeduct n activityID n)) (\<lambda>r.
       case as_int r of
         Inl err \<Rightarrow> Ret (Inl err)
       | Inr aff \<Rightarrow>
           if aff = 0 then Ret (Inl ErrStockNotEnough)
           else Call (Sql MainDB (SelectTotalStock activityID)) (\<lambda>r.
             case as_int r of
               Inl err \<Rightarrow> Ret (Inl err)
             | Inr remaining \<Rightarrow> Ret (Inr remaining)))"

text \<open>The port has one method; a repository is what stands behind it.\<close>

type_synonym StockRepo = "int \<Rightarrow> int \<Rightarrow> int \<Rightarrow> int \<Rightarrow> (goerr + int) prog"

definition NewStockRepo :: StockRepo where
  "NewStockRepo = stockRepoSQL_DeductForUser"

definition NewStockRedisRepo :: StockRepo where
  "NewStockRedisRepo = stockRedisRepo_DeductForUser"

declare NewStockRepo_def [simp] NewStockRedisRepo_def [simp]

section \<open>What the script does to the keyspace\<close>

text \<open>The stock and the purchase count a keyspace records.\<close>

definition stock_left :: "keyspace \<Rightarrow> int \<Rightarrow> int option" where
  "stock_left ks a = (case ks (stock_key a) of None \<Rightarrow> None | Some (v, _) \<Rightarrow> ParseInt v)"

definition bought :: "keyspace \<Rightarrow> int \<Rightarrow> int \<Rightarrow> int" where
  "bought ks a u = (case ks (user_buy_key a u) of None \<Rightarrow> 0
     | Some (v, _) \<Rightarrow> (case ParseInt v of None \<Rightarrow> 0 | Some b \<Rightarrow> b))"

text \<open>
  Counters as the program writes them: decimal integers small enough that double arithmetic
  on them is exact.
\<close>

definition small :: "int \<Rightarrow> bool" where "small i \<longleftrightarrow> \<bar>i\<bar> \<le> 2 ^ 52"

definition counter_ok :: "(string \<times> int option) option \<Rightarrow> bool" where
  "counter_ok x = (case x of None \<Rightarrow> True
     | Some (v, _) \<Rightarrow> (case ParseInt v of None \<Rightarrow> False | Some i \<Rightarrow> small i))"

definition counters_ok :: "keyspace \<Rightarrow> bool" where
  "counters_ok ks \<longleftrightarrow> (\<forall>a. counter_ok (ks (stock_key a)) \<and> (\<forall>u. counter_ok (ks (user_buy_key a u))))"

datatype deduct_result = Deducted int | NotEnough | LimitExceeded | NotWarmed

text \<open>The abstract operation: stock if warmed, and the user's purchases.\<close>

fun deduct_spec :: "int \<Rightarrow> int \<Rightarrow> int option \<times> int \<Rightarrow> deduct_result \<times> (int option \<times> int)" where
  "deduct_spec n limit (None, b) = (NotWarmed, (None, b))"
| "deduct_spec n limit (Some s, b) =
     (if s < n then (NotEnough, (Some s, b))
      else if b + n > limit then (LimitExceeded, (Some s, b))
      else (Deducted (s - n), (Some (s - n), b + n)))"

fun result_code :: "deduct_result \<Rightarrow> int" where
  "result_code (Deducted s) = s"
| "result_code NotEnough = - 1"
| "result_code LimitExceeded = - 2"
| "result_code NotWarmed = - 3"

fun result_of :: "deduct_result \<Rightarrow> goerr + int" where
  "result_of (Deducted s) = Inr s"
| "result_of NotEnough = Inl ErrStockNotEnough"
| "result_of LimitExceeded = Inl ErrUserLimitExceeded"
| "result_of NotWarmed = Inl ErrStockNotWarmed"

text \<open>The keyspace after a successful deduction, written out.\<close>

definition deducted :: "keyspace \<Rightarrow> int \<Rightarrow> int \<Rightarrow> int \<Rightarrow> keyspace" where
  "deducted ks a u n =
     ks(stock_key a \<mapsto> (show_int (the (stock_left ks a) - n),
                        (case ks (stock_key a) of Some (_, ttl) \<Rightarrow> ttl | None \<Rightarrow> None)),
        user_buy_key a u \<mapsto> (show_int (bought ks a u + n), Some day))"

lemma small_in64: "small i \<Longrightarrow> in64 i"
  by (auto simp: small_def in64_def)

lemma small_round: "small i \<Longrightarrow> round_double i = i"
  by (rule round_double_id) (simp add: small_def)

lemma tonumber_show_small: "small i \<Longrightarrow> tonumber (show_int i) = Some i"
  by (simp add: tonumber_def small_round)

lemma tonumber_counter: "ParseInt v = Some i \<Longrightarrow> small i \<Longrightarrow> tonumber v = Some i"
  by (simp add: tonumber_def ParseInt_parse_dec small_round)

lemma tonumber_zero: "tonumber ''0'' = Some 0"
  by (simp add: tonumber_def parse_dec_def digit_val_def)

lemma stock_key_cases:
  assumes "counters_ok ks"
  obtains (missing) "ks (stock_key a) = None" "stock_left ks a = None"
  | (warmed) v ttl s where "ks (stock_key a) = Some (v, ttl)" "ParseInt v = Some s" "small s"
      "stock_left ks a = Some s"
proof (cases "ks (stock_key a)")
  case None
  then show ?thesis by (intro missing) (simp_all add: stock_left_def)
next
  case (Some x)
  obtain v ttl where x: "x = (v, ttl)" by (cases x)
  from assms have "counter_ok (ks (stock_key a))" by (simp add: counters_ok_def)
  then obtain s where "ParseInt v = Some s" "small s"
    by (auto simp: counter_ok_def Some x split: option.splits)
  then show ?thesis using Some x by (intro warmed) (auto simp: stock_left_def)
qed

lemma user_key_cases:
  assumes "counters_ok ks"
  obtains (missing) "ks (user_buy_key a u) = None" "bought ks a u = 0"
  | (present) v ttl b where "ks (user_buy_key a u) = Some (v, ttl)" "ParseInt v = Some b" "small b"
      "bought ks a u = b"
proof (cases "ks (user_buy_key a u)")
  case None
  then show ?thesis by (intro missing) (simp_all add: bought_def)
next
  case (Some x)
  obtain v ttl where x: "x = (v, ttl)" by (cases x)
  from assms have "counter_ok (ks (user_buy_key a u))" by (simp add: counters_ok_def)
  then obtain b where "ParseInt v = Some b" "small b"
    by (auto simp: counter_ok_def Some x split: option.splits)
  then show ?thesis using Some x by (intro present) (auto simp: bought_def)
qed

lemma bought_small: "counters_ok ks \<Longrightarrow> small (bought ks a u)"
  by (rule user_key_cases [of ks a u]) (simp_all add: small_def)

text \<open>The last three commands of the script, once the checks have passed.\<close>

lemma script_commit:
  assumes ok: "counters_ok ks" and s: "stock_left ks a = Some s"
    and n: "small n" and sn: "small (s - n)" and bn: "small (bought ks a u + n)"
  shows "run_lua (LCall (LDecrBy (stock_key a) n) (\<lambda>new_stock.
            LCall (LIncrBy (user_buy_key a u) n) (\<lambda>_.
            LCall (LExpire (user_buy_key a u) 86400) (\<lambda>_.
              case new_stock of LInt n \<Rightarrow> LReturn (round_double n) | _ \<Rightarrow> LError)))) ks
         = (RInt (s - n), deducted ks a u n)"
proof -
  obtain v ttl where v: "ks (stock_key a) = Some (v, ttl)" "ParseInt v = Some s"
    by (rule stock_key_cases [OF ok, of a]) (use s in auto)
  have dec: "incr_by (stock_key a) (- n) ks =
      (Inr (s - n), ks(stock_key a \<mapsto> (show_int (s - n), ttl)))"
    using v small_in64 [OF sn] by (simp add: incr_by_def)
  show ?thesis
  proof (rule user_key_cases [OF ok, of a u])
    assume "ks (user_buy_key a u) = None" "bought ks a u = 0"
    then show ?thesis
      using dec v bn s by (simp add: incr_by_def set_ttl_def key_simps small_in64 small_round sn
          deducted_def day_def)
  next
    fix v' ttl' b
    assume "ks (user_buy_key a u) = Some (v', ttl')" "ParseInt v' = Some b" "small b" "bought ks a u = b"
    then show ?thesis
      using dec v bn s by (simp add: incr_by_def set_ttl_def key_simps small_in64 small_round sn
          deducted_def day_def)
  qed
qed

lemma run_stock_deduct:
  assumes ok: "counters_ok ks" and n: "small n" "0 < n" and lim: "small limit"
  shows "run_lua (stock_deduct [stock_key a, user_buy_key a u] [show_int n, show_int limit]) ks =
    (case deduct_spec n limit (stock_left ks a, bought ks a u) of
       (res, _) \<Rightarrow> (RInt (result_code res),
                    case res of Deducted _ \<Rightarrow> deducted ks a u n | _ \<Rightarrow> ks))"
proof (rule stock_key_cases [OF ok, of a])
  assume "ks (stock_key a) = None" "stock_left ks a = None"
  then show ?thesis by (simp add: stock_deduct_def Let_def)
next
  fix v ttl s
  assume v: "ks (stock_key a) = Some (v, ttl)" "ParseInt v = Some s" "small s" "stock_left ks a = Some s"
  let ?b = "bought ks a u"
  have read: "tonumber (case (case ks (user_buy_key a u) of None \<Rightarrow> LFalse | Some (v, _) \<Rightarrow> LBulk v)
      of LBulk v \<Rightarrow> v | _ \<Rightarrow> ''0'') = Some ?b"
    by (rule user_key_cases [OF ok, of a u]) (simp_all add: tonumber_zero tonumber_counter)
  have sum: "round_double (?b + n) = ?b + n"
    using n bought_small [OF ok, of a u] by (intro round_double_id) (auto simp: small_def)
  show ?thesis
  proof (cases "s < n \<or> ?b + n > limit")
    case True
    then show ?thesis
      using v n lim read sum
      by (auto simp: stock_deduct_def Let_def tonumber_counter tonumber_show_small)
  next
    case False
    then have "small (s - n)" "small (?b + n)"
      using v n lim bought_small [OF ok, of a u] by (auto simp: small_def)
    from script_commit [OF ok v(4) n(1) this] False show ?thesis
      using v n lim read sum
      by (simp add: stock_deduct_def Let_def tonumber_counter tonumber_show_small)
  qed
qed

lemma counter_ok_show: "small i \<Longrightarrow> counter_ok (Some (show_int i, ttl))"
  by (simp add: counter_ok_def ParseInt_show_int small_in64)

lemma deducted_at:
  "deducted ks a u n (stock_key b) = (if b = a
     then Some (show_int (the (stock_left ks a) - n),
                case ks (stock_key a) of Some (_, ttl) \<Rightarrow> ttl | None \<Rightarrow> None)
     else ks (stock_key b))"
  "deducted ks a u n (user_buy_key b v) = (if b = a \<and> v = u
     then Some (show_int (bought ks a u + n), Some day) else ks (user_buy_key b v))"
  "k \<noteq> stock_key a \<Longrightarrow> k \<noteq> user_buy_key a u \<Longrightarrow> deducted ks a u n k = ks k"
  by (simp_all add: deducted_def key_simps)

lemma deducted_counters_ok:
  assumes "counters_ok ks" and "stock_left ks a = Some s" and "small (s - n)"
    and "small (bought ks a u + n)"
  shows "counters_ok (deducted ks a u n)"
  using assms by (simp add: counters_ok_def deducted_at counter_ok_show)

lemma stock_left_deducted:
  assumes "stock_left ks a = Some s" and "small (s - n)"
  shows "stock_left (deducted ks a u n) = (stock_left ks)(a \<mapsto> s - n)"
proof
  fix b
  have "stock_left (deducted ks a u n) b =
      (if b = a then ParseInt (show_int (the (stock_left ks a) - n)) else stock_left ks b)"
    by (subst stock_left_def) (simp add: deducted_at stock_left_def)
  then show "stock_left (deducted ks a u n) b = ((stock_left ks)(a \<mapsto> s - n)) b"
    using assms by (simp add: ParseInt_show_int small_in64)
qed

lemma bought_deducted:
  assumes "small (bought ks a u + n)"
  shows "bought (deducted ks a u n) b v = (if b = a \<and> v = u then bought ks a u + n else bought ks b v)"
  by (subst bought_def) (simp add: deducted_at ParseInt_show_int small_in64 [OF assms] bought_def [of ks b v])

section \<open>The port\<close>

text \<open>The three ways a \<open>StockRepo\<close> says no.\<close>

definition refusal :: "goerr \<Rightarrow> bool" where
  "refusal e \<longleftrightarrow> e = ErrStockNotEnough \<or> e = ErrUserLimitExceeded \<or> e = ErrStockNotWarmed"

text \<open>
  The contract of \<open>StockRepo\<close>: a returned remaining stock means that exactly \<open>n\<close> units were
  there and were taken; a refusal means nothing was taken; any other error leaves the stock as
  it was or with \<open>n\<close> units taken (the reply was lost).
\<close>

locale stock_repo =
  fixes S :: "call \<Rightarrow> 'w \<Rightarrow> reply \<times> 'w"
    and deduct :: "int \<Rightarrow> int \<Rightarrow> int \<Rightarrow> int \<Rightarrow> (goerr + int) prog"
    and left :: "'w \<Rightarrow> int \<Rightarrow> int option"
    and wf :: "'w \<Rightarrow> bool"
  assumes deducts: "run S (deduct a u n limit) w = (Some res, w') \<Longrightarrow>
      wf w \<Longrightarrow> small n \<Longrightarrow> 0 < n \<Longrightarrow> small limit \<Longrightarrow>
      (case res of
         Inr rem \<Rightarrow> \<exists>s. left w a = Some s \<and> n \<le> s \<and> rem = s - n \<and> left w' = (left w)(a \<mapsto> s - n)
       | Inl e \<Rightarrow> left w' = left w \<or>
           \<not> refusal e \<and> (\<exists>s. left w a = Some s \<and> n \<le> s \<and> left w' = (left w)(a \<mapsto> s - n)))"
    and deduct_wf: "run S (deduct a u n limit) w = (Some res, w') \<Longrightarrow>
      wf w \<Longrightarrow> small n \<Longrightarrow> 0 < n \<Longrightarrow> small limit \<Longrightarrow> wf w'"
    and deduct_returns: "\<exists>res w'. run S (deduct a u n limit) w = (Some res, w')"

text \<open>A sequence of purchase attempts, each of one unit, counting the successful ones.\<close>

fun attempts ::
  "(call \<Rightarrow> 'w \<Rightarrow> reply \<times> 'w) \<Rightarrow> (int \<Rightarrow> int \<Rightarrow> int \<Rightarrow> int \<Rightarrow> (goerr + int) prog) \<Rightarrow>
   int \<Rightarrow> int \<Rightarrow> int list \<Rightarrow> 'w \<Rightarrow> nat \<times> 'w" where
  "attempts S deduct a limit [] w = (0, w)"
| "attempts S deduct a limit (u # us) w =
     (case run S (deduct a u 1 limit) w of
        (Some (Inr _), w') \<Rightarrow> (case attempts S deduct a limit us w' of (k, w'') \<Rightarrow> (Suc k, w''))
      | (_, w') \<Rightarrow> attempts S deduct a limit us w')"

lemma small_1: "small 1" by (simp add: small_def)

context stock_repo begin

text \<open>Successes and remaining stock never add up to more than the stock there was.\<close>

lemma attempts_bounded:
  assumes "wf w" and "small limit" and "left w a = Some s" and "0 \<le> s"
    and "attempts S deduct a limit us w = (k, w')"
  shows "\<exists>s'. left w' a = Some s' \<and> 0 \<le> s' \<and> int k + s' \<le> s"
  using assms(1,3-5)
proof (induction us arbitrary: w s k)
  case (Cons u us)
  obtain res w1 where r: "run S (deduct a u 1 limit) w = (Some res, w1)"
    using deduct_returns by blast
  have wf1: "wf w1" using deduct_wf [OF r] Cons.prems(1) assms(2) small_1 by simp
  note d = deducts [OF r Cons.prems(1) small_1 _ assms(2)]
  show ?case
  proof (cases res)
    case (Inl e)
    then have "\<exists>s1. left w1 a = Some s1 \<and> 0 \<le> s1 \<and> s1 \<le> s" using d Cons.prems by auto
    moreover have "attempts S deduct a limit us w1 = (k, w')" using Cons.prems(4) r Inl by simp
    ultimately show ?thesis using Cons.IH [OF wf1] by fastforce
  next
    case (Inr rem)
    then have s1: "left w1 a = Some (s - 1)" "0 \<le> s - 1" using d Cons.prems by auto
    obtain k1 where "attempts S deduct a limit us w1 = (k1, w')" "k = Suc k1"
      using Cons.prems(4) r Inr by (auto split: prod.splits)
    then show ?thesis using Cons.IH [OF wf1 s1] by fastforce
  qed
qed auto

end

lemma case_deduct_spec:
  "(case deduct_spec n limit (Some s, b) of
      (res, _) \<Rightarrow> (RInt (result_code res), case res of Deducted _ \<Rightarrow> x | _ \<Rightarrow> y)) =
   (if s < n then (RInt (- 1), y) else if b + n > limit then (RInt (- 2), y) else (RInt (s - n), x))"
  by simp

text \<open>The Redis implementation, on any service that obeys the Redis law.\<close>

context services begin

lemma redis_deduct_cases:
  assumes r: "S (deduct_call a u n limit) w = (r, w')"
    and ok: "counters_ok (ks w)" and n: "small n" "0 < n" and lim: "small limit"
  shows "(\<exists>s. stock_left (ks w) a = Some s \<and> n \<le> s \<and> bought (ks w) a u + n \<le> limit \<and>
            ks w' = deducted (ks w) a u n \<and> (r = RInt (s - n) \<or> (\<exists>m. r = RErr (GoErr m)))) \<or>
         ks w' = ks w \<and>
            (r = RInt (- 1) \<and> (\<exists>s. stock_left (ks w) a = Some s \<and> s < n) \<or>
             r = RInt (- 2) \<and> limit < bought (ks w) a u + n \<or>
             r = RInt (- 3) \<and> stock_left (ks w) a = None \<or> (\<exists>m. r = RErr (GoErr m)))"
proof -
  let ?x = "run_lua (stock_deduct [stock_key a, user_buy_key a u] [show_int n, show_int limit]) (ks w)"
  have law: "(r, ks w') = ?x \<or> (\<exists>m. r = RErr (GoErr m)) \<and> (ks w' = ks w \<or> ks w' = snd ?x)"
    using redis_call [OF r [unfolded deduct_call_def]] by (simp add: redis_law_def)
  show ?thesis
  proof (cases "stock_left (ks w) a")
    case None
    then have "?x = (RInt (- 3), ks w)" using run_stock_deduct [OF ok n lim, of a u] by simp
    with law None show ?thesis by auto
  next
    case (Some s)
    have x: "?x = (if s < n then (RInt (- 1), ks w)
        else if bought (ks w) a u + n > limit then (RInt (- 2), ks w)
        else (RInt (s - n), deducted (ks w) a u n))"
      using run_stock_deduct [OF ok n lim, of a u] unfolding Some case_deduct_spec .
    show ?thesis
      using law Some unfolding x by (auto split: if_splits)
  qed
qed

end

text \<open>The Go side: one call, then the translation of the script's code.\<close>

definition lua_result :: "reply \<Rightarrow> goerr + int" where
  "lua_result r = (case as_int r of
      Inl err \<Rightarrow> Inl err
    | Inr v \<Rightarrow> if v = - 1 then Inl ErrStockNotEnough
              else if v = - 2 then Inl ErrUserLimitExceeded
              else if v = - 3 then Inl ErrStockNotWarmed
              else if v < 0 then Inl (GoErr ''unknown lua return'') else Inr v)"

lemma stockRedisRepo_DeductForUser_eq:
  "stockRedisRepo_DeductForUser a u n limit =
     Call (deduct_call a u n limit) (\<lambda>r. Ret (lua_result r))"
  unfolding stockRedisRepo_DeductForUser_def lua_result_def
  by (intro arg_cong [where f = "Call _"] ext) (simp split: sum.split)

lemma lua_result_simps [simp]:
  "lua_result (RErr e) = Inl e"
  "0 \<le> v \<Longrightarrow> lua_result (RInt v) = Inr v"
  "lua_result (RInt (- 1)) = Inl ErrStockNotEnough"
  "lua_result (RInt (- 2)) = Inl ErrUserLimitExceeded"
  "lua_result (RInt (- 3)) = Inl ErrStockNotWarmed"
  by (simp_all add: lua_result_def)

sublocale services \<subseteq> redis_stock: stock_repo S stockRedisRepo_DeductForUser
    "\<lambda>w. stock_left (ks w)" "\<lambda>w. counters_ok (ks w)"
proof
  fix a u n limit w res w'
  assume run: "run S (stockRedisRepo_DeductForUser a u n limit) w = (Some res, w')"
    and ok: "counters_ok (ks w)" and n: "small n" "0 < n" and lim: "small limit"
  obtain r where r: "S (deduct_call a u n limit) w = (r, w')" and res: "res = lua_result r"
    using run by (auto simp: stockRedisRepo_DeductForUser_eq split: prod.splits)
  from redis_deduct_cases [OF r ok n lim]
  have "(case res of
         Inr rem \<Rightarrow> \<exists>s. stock_left (ks w) a = Some s \<and> n \<le> s \<and> rem = s - n \<and>
             stock_left (ks w') = (stock_left (ks w))(a \<mapsto> s - n)
       | Inl e \<Rightarrow> stock_left (ks w') = stock_left (ks w) \<or>
           \<not> refusal e \<and> (\<exists>s. stock_left (ks w) a = Some s \<and> n \<le> s \<and>
             stock_left (ks w') = (stock_left (ks w))(a \<mapsto> s - n))) \<and> counters_ok (ks w')"
  proof (elim disjE [of "\<exists>s. _ s"] exE conjE)
    fix s
    assume s: "stock_left (ks w) a = Some s" "n \<le> s" "bought (ks w) a u + n \<le> limit"
      and ks': "ks w' = deducted (ks w) a u n"
      and reply: "r = RInt (s - n) \<or> (\<exists>m. r = RErr (GoErr m))"
    have sm: "small (s - n)"
      by (rule stock_key_cases [OF ok, of a]) (use s n in \<open>auto simp: small_def\<close>)
    have bn: "small (bought (ks w) a u + n)"
      using bought_small [OF ok, of a u] s n lim by (auto simp: small_def)
    have left: "stock_left (ks w') = (stock_left (ks w))(a \<mapsto> s - n)"
      using stock_left_deducted [OF s(1) sm] ks' by simp
    from deducted_counters_ok [OF ok s(1) sm bn] reply s left
    show ?thesis by (auto simp: res ks' refusal_def)
  next
    assume ks': "ks w' = ks w"
      and "r = RInt (- 1) \<and> (\<exists>s. stock_left (ks w) a = Some s \<and> s < n) \<or>
           r = RInt (- 2) \<and> limit < bought (ks w) a u + n \<or>
           r = RInt (- 3) \<and> stock_left (ks w) a = None \<or> (\<exists>m. r = RErr (GoErr m))"
    then have "\<exists>e. res = Inl e" using res by auto
    with ks' ok show ?thesis by auto
  qed
  then show "case res of
         Inr rem \<Rightarrow> \<exists>s. stock_left (ks w) a = Some s \<and> n \<le> s \<and> rem = s - n \<and>
             stock_left (ks w') = (stock_left (ks w))(a \<mapsto> s - n)
       | Inl e \<Rightarrow> stock_left (ks w') = stock_left (ks w) \<or>
           \<not> refusal e \<and> (\<exists>s. stock_left (ks w) a = Some s \<and> n \<le> s \<and>
             stock_left (ks w') = (stock_left (ks w))(a \<mapsto> s - n))"
    and "counters_ok (ks w')" by blast+
qed (auto simp: stockRedisRepo_DeductForUser_eq split: prod.splits)

text \<open>The SQL implementation: the stock is the activity's \<open>total_stock\<close> column.\<close>

definition total_stock :: "tables \<Rightarrow> int \<Rightarrow> int option" where
  "total_stock t a = map_option a_TotalStock (activities t a)"

definition stock_taken :: "int \<Rightarrow> int \<Rightarrow> tables \<Rightarrow> tables" where
  "stock_taken n i t = t\<lparr>activities := (activities t)(i := map_option
     (\<lambda>a. a\<lparr>a_TotalStock := a_TotalStock a - n\<rparr>) (activities t i))\<rparr>"

lemma total_stock_taken:
  "total_stock t i = Some s \<Longrightarrow> total_stock (stock_taken n i t) = (total_stock t)(i \<mapsto> s - n)"
  by (rule ext) (auto simp: total_stock_def stock_taken_def)

lemma sql_sem_deduct:
  "n \<noteq> 0 \<Longrightarrow> sql_sem coll dt (UpdateDeduct n i n) t =
     Some (case total_stock t i of
        None \<Rightarrow> (RInt 0, t)
      | Some s \<Rightarrow> if n \<le> s then (RInt 1, stock_taken n i t) else (RInt 0, t))"
  by (auto simp: total_stock_def stock_taken_def split: option.splits)

lemma sql_sem_stock:
  "sql_sem coll dt (SelectTotalStock i) t =
     Some (case total_stock t i of None \<Rightarrow> RErr ErrNoRows | Some s \<Rightarrow> RInt s, t)"
  by (simp add: total_stock_def split: option.splits)

context services begin

lemma sql_deduct_cases:
  assumes r: "S (Sql MainDB (UpdateDeduct n a n)) w = (r, w')" and n: "0 < n"
  shows "(\<exists>s. total_stock (tbl w MainDB) a = Some s \<and> n \<le> s \<and>
            tbl w' = (tbl w)(MainDB := stock_taken n a (tbl w MainDB)) \<and>
            (r = RInt 1 \<or> (\<exists>m. r = RErr (GoErr m)))) \<or>
         tbl w' = tbl w \<and> (r = RInt 0 \<and> (\<forall>s. total_stock (tbl w MainDB) a = Some s \<longrightarrow> s < n) \<or>
            (\<exists>m. r = RErr (GoErr m)))"
proof -
  obtain t' where law: "sql_law coll dt (UpdateDeduct n a n) (tbl w MainDB) r t'"
    and t': "tbl w' = (tbl w)(MainDB := t')"
    using sql_call [OF r] by blast
  have "n \<noteq> 0" using n by simp
  note sem = sql_sem_deduct [OF this, of coll dt a "tbl w MainDB"]
  show ?thesis
  proof (cases "total_stock (tbl w MainDB) a")
    case None
    then show ?thesis using law t' by (auto simp: sql_law_def sem simp del: sql_sem.simps)
  next
    case (Some s)
    then show ?thesis using law t' by (auto simp: sql_law_def sem simp del: sql_sem.simps split: if_splits)
  qed
qed

lemma sql_stock_cases:
  assumes r: "S (Sql MainDB (SelectTotalStock a)) w = (r, w')"
  shows "tbl w' = tbl w \<and> (\<exists>m. r = RErr (GoErr m) \<or>
     r = (case total_stock (tbl w MainDB) a of None \<Rightarrow> RErr ErrNoRows | Some s \<Rightarrow> RInt s))"
  using sql_call [OF r] by (auto simp: sql_law_def sql_sem_stock simp del: sql_sem.simps)

end

lemma run_sql_deduct:
  "run S (stockRepoSQL_DeductForUser a u n limit) w =
     (case S (Sql MainDB (UpdateDeduct n a n)) w of (r, w1) \<Rightarrow>
        (case as_int r of
           Inl e \<Rightarrow> (Some (Inl e), w1)
         | Inr aff \<Rightarrow> if aff = 0 then (Some (Inl ErrStockNotEnough), w1)
             else (case S (Sql MainDB (SelectTotalStock a)) w1 of (r2, w2) \<Rightarrow> (Some (as_int r2), w2))))"
  by (simp add: stockRepoSQL_DeductForUser_def split: prod.splits sum.splits)

sublocale services \<subseteq> sql_stock: stock_repo S stockRepoSQL_DeductForUser
    "\<lambda>w. total_stock (tbl w MainDB)" "\<lambda>w. True"
proof
  fix a u n limit w res w'
  assume run: "run S (stockRepoSQL_DeductForUser a u n limit) w = (Some res, w')" and n: "0 < n"
  obtain r w1 where r: "S (Sql MainDB (UpdateDeduct n a n)) w = (r, w1)"
    by (cases "S (Sql MainDB (UpdateDeduct n a n)) w")
  obtain r2 w2 where r2: "S (Sql MainDB (SelectTotalStock a)) w1 = (r2, w2)"
    by (cases "S (Sql MainDB (SelectTotalStock a)) w1")
  note run = run [unfolded run_sql_deduct, unfolded r r2 prod.case]
  from sql_deduct_cases [OF r n]
  show "case res of
         Inr rem \<Rightarrow> \<exists>s. total_stock (tbl w MainDB) a = Some s \<and> n \<le> s \<and> rem = s - n \<and>
             total_stock (tbl w' MainDB) = (total_stock (tbl w MainDB))(a \<mapsto> s - n)
       | Inl e \<Rightarrow> total_stock (tbl w' MainDB) = total_stock (tbl w MainDB) \<or>
           \<not> refusal e \<and> (\<exists>s. total_stock (tbl w MainDB) a = Some s \<and> n \<le> s \<and>
             total_stock (tbl w' MainDB) = (total_stock (tbl w MainDB))(a \<mapsto> s - n))"
  proof (elim disjE [of "\<exists>s. _ s"] exE conjE)
    fix s
    assume s: "total_stock (tbl w MainDB) a = Some s" "n \<le> s"
      and t1: "tbl w1 = (tbl w)(MainDB := stock_taken n a (tbl w MainDB))"
      and reply: "r = RInt 1 \<or> (\<exists>m. r = RErr (GoErr m))"
    have left: "total_stock (tbl w1 MainDB) = (total_stock (tbl w MainDB))(a \<mapsto> s - n)"
      using t1 by (simp add: total_stock_taken [OF s(1)])
    from sql_stock_cases [OF r2] reply left s run show ?thesis
      by (auto simp: refusal_def split: if_splits)
  next
    assume "tbl w1 = tbl w" "r = RInt 0 \<and> (\<forall>s. total_stock (tbl w MainDB) a = Some s \<longrightarrow> s < n) \<or>
        (\<exists>m. r = RErr (GoErr m))"
    with run show ?thesis by auto
  qed
qed (auto simp: run_sql_deduct split: prod.splits sum.splits)

section \<open>Properties\<close>

context services begin

lemma lua_attempts_bounded:
  assumes "counters_ok (ks w)" and "small limit" and "stock_left (ks w) a = Some s" and "0 \<le> s"
    and "attempts S stockRedisRepo_DeductForUser a limit us w = (k, w')"
  shows "\<exists>s'. stock_left (ks w') a = Some s' \<and> 0 \<le> s' \<and> int k + s' \<le> s"
  using redis_stock.attempts_bounded [OF assms(1,2) assms(3) assms(4,5)] .

lemma sql_attempts_bounded:
  assumes "small limit" and "total_stock (tbl w MainDB) a = Some s" and "0 \<le> s"
    and "attempts S stockRepoSQL_DeductForUser a limit us w = (k, w')"
  shows "\<exists>s'. total_stock (tbl w' MainDB) a = Some s' \<and> 0 \<le> s' \<and> int k + s' \<le> s"
  using sql_stock.attempts_bounded [OF TrueI assms(1,2) assms(3,4)] .

end

text \<open>
  C16. The Lua script, on every branch: it returns the code of the abstract deduction (the new
  stock, or -1, -2, -3 in the order not warmed, not enough, over the user's limit), and the
  keyspace changes only on success, where the stock key drops by \<open>n\<close>, the user's key grows by
  \<open>n\<close> and gets a day to live.
\<close>

theorem stock_deduct_script:
  assumes "counters_ok ks" and "small n" and "0 < n" and "small limit"
    and "deduct_spec n limit (stock_left ks a, bought ks a u) = (res, st')"
  shows "run_lua (stock_deduct [stock_key a, user_buy_key a u] [show_int n, show_int limit]) ks =
    (RInt (result_code res), case res of Deducted _ \<Rightarrow> deducted ks a u n | _ \<Rightarrow> ks)"
  using run_stock_deduct [OF assms(1-4), of a u] assms(5) by simp

theorem stock_deduct_script_witness:
  "run_lua (stock_deduct [stock_key 7, user_buy_key 7 9] [show_int 1, show_int 2])
     [stock_key 7 \<mapsto> (show_int 5, None)] =
   (RInt 4, deducted [stock_key 7 \<mapsto> (show_int 5, None)] 7 9 1)"
proof -
  let ?ks = "[stock_key 7 \<mapsto> (show_int 5, None)]"
  have "counters_ok ?ks"
    by (simp add: counters_ok_def key_simps counter_ok_show small_def) (simp add: counter_ok_def)
  moreover have "deduct_spec 1 2 (stock_left ?ks 7, bought ?ks 7 9) = (Deducted 4, (Some 4, 1))"
    by (simp add: stock_left_def bought_def key_simps ParseInt_show_int in64_def)
  ultimately show ?thesis
    using stock_deduct_script [of ?ks 1 2 7 9 "Deducted 4" "(Some 4, 1)"] by (simp add: small_def)
qed

end
