(* ===== verification/Shardkey.thy ===== *)
theory Shardkey
  imports Prelude
begin

text \<open>
  \<open>pkg/shardkey/shardkey.go\<close>: which database and which table a user's orders live in,
  in 64-bit arithmetic with Go's truncating division.
\<close>

definition DBIndex :: "int \<Rightarrow> int \<Rightarrow> int" where
  "DBIndex userID dbCount =
     (if dbCount \<le> 0 then 0
      else let idx = rem64 userID dbCount;
               idx = (if idx < 0 then neg64 idx else idx)
           in idx)"

definition TableIndex :: "int \<Rightarrow> int \<Rightarrow> int \<Rightarrow> int" where
  "TableIndex userID dbCount tableCount =
     (if dbCount \<le> 0 \<or> tableCount \<le> 0 then 0
      else let bucket = quot64 userID dbCount;
               bucket = (if bucket < 0 then neg64 bucket else bucket)
           in rem64 bucket tableCount)"

lemma DBIndex_eq_abs_mod:
  assumes "0 < n" and "in64 n"
  shows "DBIndex u n = \<bar>u\<bar> mod n"
proof -
  have "\<bar>u smod n\<bar> < n" using assms(1) by (rule abs_smod_less)
  then have "in64 (- (u smod n))" using assms by (auto simp: in64_def)
  then have "DBIndex u n = \<bar>u smod n\<bar>"
    using assms by (simp add: DBIndex_def rem64_exact neg64_def wrap64_id Let_def)
  then show ?thesis using assms by (simp add: abs_smod)
qed

lemma TableIndex_eq:
  assumes "0 < n" "0 < k" "in64 k" "in64 u" and "u \<noteq> - (2 ^ 63) \<or> 1 < n"
  shows "TableIndex u n k = (\<bar>u\<bar> div n) mod k"
proof -
  have q: "quot64 u n = u sdiv n" using assms by (simp add: quot64_exact)
  have "\<bar>u sdiv n\<bar> = \<bar>u\<bar> div n" using assms by (simp add: abs_sdiv)
  moreover have lt: "\<bar>u\<bar> div n < 2 ^ 63"
  proof (cases "u = - (2 ^ 63)")
    case True
    then have "\<bar>u\<bar> div n \<le> \<bar>u\<bar> div 2" using assms by (intro zdiv_mono2) auto
    then show ?thesis using True by simp
  next
    case False
    then have "\<bar>u\<bar> < 2 ^ 63" using assms by (auto simp: in64_def)
    then show ?thesis using div_le_self [of "\<bar>u\<bar>" n] assms by linarith
  qed
  ultimately have "in64 (- (u sdiv n))" by (auto simp: in64_def)
  then have "TableIndex u n k = rem64 \<bar>u sdiv n\<bar> k"
    using assms q by (simp add: TableIndex_def neg64_def wrap64_id Let_def)
  also have "\<dots> = (\<bar>u\<bar> div n) mod k"
    using assms by (simp add: rem64_exact abs_sdiv smod_nonneg pos_imp_zdiv_nonneg_iff)
  finally show ?thesis .
qed

text \<open>
  C29. Every user id, negative ones included, is routed to an existing shard:
  \<open>DBIndex\<close> lies in \<open>[0, dbCount)\<close>.
\<close>

theorem DBIndex_bounds:
  assumes "0 < dbCount" and "in64 dbCount"
  shows "0 \<le> DBIndex userID dbCount \<and> DBIndex userID dbCount < dbCount"
  using assms by (simp add: DBIndex_eq_abs_mod)

theorem DBIndex_bounds_witness:
  "(0::int) < 4 \<and> 0 \<le> DBIndex (-7) 4 \<and> DBIndex (-7) 4 < 4"
  using DBIndex_bounds [of 4 "-7"] by (simp add: in64_def)

text \<open>
  The table index lies in \<open>[0, tableCount)\<close> for every 64-bit user id except
  the least one with a single database.
\<close>

theorem TableIndex_bounds:
  assumes "0 < dbCount" and "0 < tableCount" and "in64 tableCount" and "in64 userID"
    and "userID \<noteq> - (2 ^ 63) \<or> 1 < dbCount"
  shows "0 \<le> TableIndex userID dbCount tableCount \<and> TableIndex userID dbCount tableCount < tableCount"
  using assms by (simp add: TableIndex_eq)

theorem TableIndex_bounds_witness:
  "in64 (- (2 ^ 63)) \<and> 0 \<le> TableIndex (- (2 ^ 63)) 4 16 \<and> TableIndex (- (2 ^ 63)) 4 16 < 16"
  using TableIndex_bounds [of 4 16 "- (2 ^ 63)"] by (simp add: in64_def)

text \<open>
  At the excluded point the negation wraps: with one database and three tables the least
  64-bit user id gets table index -2, which is no table.
\<close>

theorem TableIndex_min_int64: "TableIndex (- (2 ^ 63)) 1 3 = - 2"
  by (simp add: TableIndex_def quot64_def rem64_def neg64_def wrap64_def
      signed_divide_int_def signed_modulo_int_def)

end
