(* ===== verification/Order_Repo.thy ===== *)
theory Order_Repo
  imports Services Shardkey
begin

text \<open>
  \<open>internal/repo/activity_repo.go\<close>, \<open>order_repo.go\<close> and \<open>sharded_order_repo.go\<close>: the
  SQL-backed repositories of activities and orders, the contract of the port \<open>OrderRepo\<close>
  and its two implementations.
\<close>

section \<open>Activities\<close>

definition activityRepo_Create :: "Activity \<Rightarrow> goerr option prog" where
  "activityRepo_Create a = Call (Sql MainDB (InsertActivity a)) (\<lambda>r. Ret (as_unit r))"

definition activityRepo_GetByID :: "int \<Rightarrow> (goerr + Activity) prog" where
  "activityRepo_GetByID i =
     Call (Sql MainDB (SelectActivity i)) (\<lambda>r.
       case as_activity r of
         Inl err \<Rightarrow> if errors_Is err ErrNoRows then Ret (Inl ErrActivityNotFound) else Ret (Inl err)
       | Inr row \<Rightarrow> Ret (Inr row))"

section \<open>Orders\<close>

definition isDuplicateKey :: "goerr \<Rightarrow> bool" where
  "isDuplicateKey err \<longleftrightarrow>
     Contains (err_text err) ''Error 1062'' \<or> Contains (err_text err) ''Duplicate entry''"

definition insert_result :: "reply \<Rightarrow> goerr option" where
  "insert_result r = (case as_unit r of
      None \<Rightarrow> None
    | Some err \<Rightarrow> if isDuplicateKey err then Some ErrOrderDuplicate else Some err)"

definition orderRepo_Create :: "dbid \<Rightarrow> Order \<Rightarrow> goerr option prog" where
  "orderRepo_Create db x = Call (Sql db (InsertOrder x)) (\<lambda>r. Ret (insert_result r))"

definition getOrderFromDB :: "dbid \<Rightarrow> int \<Rightarrow> int \<Rightarrow> (goerr + Order) prog" where
  "getOrderFromDB db userID orderID =
     Call (Sql db (SelectOrder userID orderID)) (\<lambda>r.
       case as_order r of
         Inl err \<Rightarrow> if errors_Is err ErrNoRows then Ret (Inl ErrOrderNotFound) else Ret (Inl err)
       | Inr row \<Rightarrow> Ret (Inr row))"

definition orderRepo_GetByID :: "dbid \<Rightarrow> int \<Rightarrow> int \<Rightarrow> (goerr + Order) prog" where
  "orderRepo_GetByID db userID orderID = getOrderFromDB db userID orderID"

text \<open>
  The sharded repository over a list of databases; \<open>r.shards[idx]\<close> panics when the index is
  out of range.
\<close>

definition shard_at :: "dbid list \<Rightarrow> int \<Rightarrow> dbid option" where
  "shard_at shards idx =
     (if 0 \<le> idx \<and> nat idx < length shards then Some (shards ! nat idx) else None)"

definition shard_of :: "dbid list \<Rightarrow> int \<Rightarrow> dbid option" where
  "shard_of shards userID = shard_at shards (DBIndex userID (int (length shards)))"

definition shardedOrderRepo_Create :: "dbid list \<Rightarrow> Order \<Rightarrow> goerr option prog" where
  "shardedOrderRepo_Create shards x =
     (case shard_of shards (o_UserID x) of
        None \<Rightarrow> Panic
      | Some db \<Rightarrow> Call (Sql db (InsertOrder x)) (\<lambda>r. Ret (insert_result r)))"

definition shardedOrderRepo_GetByID :: "dbid list \<Rightarrow> int \<Rightarrow> int \<Rightarrow> (goerr + Order) prog" where
  "shardedOrderRepo_GetByID shards userID orderID =
     (case shard_of shards userID of
        None \<Rightarrow> Panic
      | Some db \<Rightarrow> getOrderFromDB db userID orderID)"

text \<open>The ports, as what stands behind each method, and the constructors.\<close>

record ActivityRepo =
  ar_Create :: "Activity \<Rightarrow> goerr option prog"
  ar_GetByID :: "int \<Rightarrow> (goerr + Activity) prog"

definition NewActivityRepo :: ActivityRepo where
  "NewActivityRepo = \<lparr>ar_Create = activityRepo_Create, ar_GetByID = activityRepo_GetByID\<rparr>"

record OrderRepo =
  or_Create :: "Order \<Rightarrow> goerr option prog"
  or_GetByID :: "int \<Rightarrow> int \<Rightarrow> (goerr + Order) prog"

definition NewOrderRepo :: "dbid \<Rightarrow> OrderRepo" where
  "NewOrderRepo db = \<lparr>or_Create = orderRepo_Create db, or_GetByID = orderRepo_GetByID db\<rparr>"

definition NewShardedOrderRepo :: "dbid list \<Rightarrow> OrderRepo" where
  "NewShardedOrderRepo shards =
     \<lparr>or_Create = shardedOrderRepo_Create shards, or_GetByID = shardedOrderRepo_GetByID shards\<rparr>"

declare NewActivityRepo_def [simp] NewOrderRepo_def [simp] NewShardedOrderRepo_def [simp]

lemma isDuplicateKey_GoErr [simp]: "isDuplicateKey (GoErr m) \<longleftrightarrow> duplicate_text m"
  by (simp add: isDuplicateKey_def duplicate_text_def)

lemma insert_result_simps [simp]:
  "insert_result ROk = None"
  "insert_result (RErr (GoErr m)) = (if duplicate_text m then Some ErrOrderDuplicate else Some (GoErr m))"
  by (simp_all add: insert_result_def)

lemma shard_of_total:
  assumes "shards \<noteq> []" and "in64 (int (length shards))"
  shows "\<exists>db. shard_of shards u = Some db \<and> db \<in> set shards"
  using DBIndex_eq_abs_mod [of "int (length shards)" u] assms
  by (auto simp: shard_of_def shard_at_def nat_less_iff intro!: nth_mem)

lemma shard_of_in_set: "shard_of shards u = Some db \<Longrightarrow> db \<in> set shards"
  by (auto simp: shard_of_def shard_at_def split: if_splits)

section \<open>The port\<close>

text \<open>
  The contract of \<open>OrderRepo\<close> over the set \<open>rows\<close> of order rows it can read, among
  \<open>all_rows\<close> of its databases: \<open>Create\<close> returning nil
  means the row is in and no row of the same (activity, user, token) was there;
  \<open>ErrOrderDuplicate\<close> means nothing was written and some row has the same id or the same
  (activity, user, token); a read returns a row with the ids asked for, and not-found only when
  there is none.
\<close>

locale order_repo =
  fixes S :: "call \<Rightarrow> 'w \<Rightarrow> reply \<times> 'w"
    and create :: "Order \<Rightarrow> goerr option prog"
    and get :: "int \<Rightarrow> int \<Rightarrow> (goerr + Order) prog"
    and rows :: "'w \<Rightarrow> Order set"
    and all_rows :: "'w \<Rightarrow> Order set"
    and coll :: "string \<Rightarrow> string"
    and dt :: "int \<Rightarrow> int"
  assumes create_ok: "run S (create x) w = (Some None, w') \<Longrightarrow>
      rows w' = insert (stored_order dt x) (rows w) \<and>
      (\<forall>y\<in>rows w. uk_idem coll y \<noteq> uk_idem coll x)"
    and create_duplicate: "run S (create x) w = (Some (Some ErrOrderDuplicate), w') \<Longrightarrow>
      rows w' = rows w \<and> (\<exists>y\<in>all_rows w. o_ID y = o_ID x \<or> uk_idem coll y = uk_idem coll x)"
    and create_error: "run S (create x) w = (Some (Some e), w') \<Longrightarrow>
      rows w' = rows w \<or> rows w' = insert (stored_order dt x) (rows w)"
    and get_ok: "run S (get u i) w = (Some (Inr x), w') \<Longrightarrow>
      x \<in> rows w \<and> o_UserID x = u \<and> o_ID x = i"
    and get_not_found: "run S (get u i) w = (Some (Inl ErrOrderNotFound), w') \<Longrightarrow>
      \<not> (\<exists>x\<in>rows w. o_UserID x = u \<and> o_ID x = i)"
    and get_frame: "run S (get u i) w = (Some res, w') \<Longrightarrow> rows w' = rows w"
begin

text \<open>After a successful \<open>Create\<close>, reading the order back never says not found.\<close>

lemma read_own_write:
  assumes "run S (create x) w = (Some None, w1)"
    and "run S (get (o_UserID x) (o_ID x)) w1 = (Some res, w2)"
  shows "res \<noteq> Inl ErrOrderNotFound"
proof
  assume "res = Inl ErrOrderNotFound"
  with assms(2) have "\<not> (\<exists>y\<in>rows w1. o_UserID y = o_UserID x \<and> o_ID y = o_ID x)"
    using get_not_found by blast
  moreover have "stored_order dt x \<in> rows w1" using create_ok [OF assms(1)] by blast
  ultimately show False by (auto simp: stored_order_def)
qed

text \<open>An order whose row is in cannot be created again: the retry is a duplicate or an error.\<close>

lemma create_once:
  assumes "run S (create x) w = (Some None, w1)" and "run S (create x) w1 = (Some res, w2)"
  shows "res \<noteq> None"
proof
  assume "res = None"
  with assms(2) have "\<forall>y\<in>rows w1. uk_idem coll y \<noteq> uk_idem coll x" using create_ok by blast
  moreover have "stored_order dt x \<in> rows w1" using create_ok [OF assms(1)] by blast
  ultimately show False by (auto simp: stored_order_def uk_idem_def)
qed

text \<open>However often it is retried, a creation adds at most the one row.\<close>

lemma create_rows:
  assumes "run S (create x) w = (Some res, w')"
  shows "rows w \<subseteq> rows w' \<and> rows w' \<subseteq> insert (stored_order dt x) (rows w)"
proof (cases res)
  case None
  then show ?thesis using create_ok assms by blast
next
  case (Some e)
  then have "rows w' = rows w \<or> rows w' = insert (stored_order dt x) (rows w)"
    using create_error assms by blast
  then show ?thesis by blast
qed

end

context services begin

lemma insert_order_cases:
  assumes r: "S (Sql d (InsertOrder x)) w = (r, w')"
  shows "(tbl w' = tbl w \<and> order_conflict coll x (orders_0 (tbl w d)) \<and> (\<exists>m. r = RErr (GoErr m))) \<or>
    (tbl w' = tbl w \<and> (\<exists>m. r = RErr (GoErr m) \<and> \<not> duplicate_text m)) \<or>
    (tbl w' = (tbl w)(d := (tbl w d)\<lparr>orders_0 := orders_0 (tbl w d) @ [stored_order dt x]\<rparr>) \<and>
     \<not> order_conflict coll x (orders_0 (tbl w d)) \<and>
     (r = ROk \<or> (\<exists>m. r = RErr (GoErr m) \<and> \<not> duplicate_text m)))"
proof -
  obtain t' where "sql_law coll dt (InsertOrder x) (tbl w d) r t'" and "tbl w' = (tbl w)(d := t')"
    using sql_call [OF r] by blast
  then show ?thesis
    by (cases "order_conflict coll x (orders_0 (tbl w d))") (auto simp: sql_law_def)
qed

lemma select_order_cases:
  assumes r: "S (Sql d (SelectOrder u i)) w = (r, w')"
  shows "tbl w' = tbl w \<and>
    ((\<exists>m. r = RErr (GoErr m)) \<or>
     (r = RErr ErrNoRows \<and> \<not> (\<exists>x\<in>set (orders_0 (tbl w d)). o_UserID x = u \<and> o_ID x = i)) \<or>
     (\<exists>x\<in>set (orders_0 (tbl w d)). r = ROrder x \<and> o_UserID x = u \<and> o_ID x = i))"
proof -
  let ?hits = "filter (\<lambda>x. o_UserID x = u \<and> o_ID x = i) (orders_0 (tbl w d))"
  have law: "tbl w' = tbl w \<and> ((\<exists>m. r = RErr (GoErr m)) \<or>
      r = (case ?hits of [] \<Rightarrow> RErr ErrNoRows | x # _ \<Rightarrow> ROrder x))"
    using sql_call [OF r] by (auto simp: sql_law_def)
  show ?thesis
  proof (cases ?hits)
    case Nil
    then show ?thesis using law by (auto simp: filter_empty_conv)
  next
    case (Cons x xs)
    have "x \<in> set ?hits" by (simp only: Cons list.set_intros)
    then have "x \<in> set (orders_0 (tbl w d)) \<and> o_UserID x = u \<and> o_ID x = i" by simp
    then show ?thesis using law unfolding Cons by auto
  qed
qed

end

lemma run_insert_order:
  "run S (Call (Sql d (InsertOrder x)) (\<lambda>r. Ret (insert_result r))) w = (res, w') \<longleftrightarrow>
     (\<exists>r. S (Sql d (InsertOrder x)) w = (r, w') \<and> res = Some (insert_result r))"
  by (auto split: prod.splits)

lemma run_getOrderFromDB:
  "run S (getOrderFromDB d u i) w = (res, w') \<longleftrightarrow>
     (\<exists>r. S (Sql d (SelectOrder u i)) w = (r, w') \<and>
       res = Some (case as_order r of
           Inl e \<Rightarrow> if errors_Is e ErrNoRows then Inl ErrOrderNotFound else Inl e
         | Inr row \<Rightarrow> Inr row))"
  by (auto simp: getOrderFromDB_def split: prod.splits sum.splits if_splits)

text \<open>The rows of a user are looked for in the shard the user is routed to.\<close>

definition sharded_rows :: "dbid list \<Rightarrow> (dbid \<Rightarrow> tables) \<Rightarrow> Order set" where
  "sharded_rows shards t =
     {x. \<exists>d. shard_of shards (o_UserID x) = Some d \<and> x \<in> set (orders_0 (t d))}"

lemma uk_idem_user: "uk_idem coll y = uk_idem coll x \<Longrightarrow> o_UserID y = o_UserID x"
  by (simp add: uk_idem_def)

lemma order_conflict_iff:
  "order_conflict coll x rows \<longleftrightarrow> (\<exists>y\<in>set rows. o_ID y = o_ID x \<or> uk_idem coll y = uk_idem coll x)"
  by (simp add: order_conflict_def)

context services begin

text \<open>What one insert through a repository does, in the words of the contract.\<close>

lemma insert_contract:
  assumes "S (Sql d (InsertOrder x)) w = (r, w')"
  shows "insert_result r = None \<Longrightarrow>
      tbl w' = (tbl w)(d := (tbl w d)\<lparr>orders_0 := orders_0 (tbl w d) @ [stored_order dt x]\<rparr>) \<and>
      \<not> order_conflict coll x (orders_0 (tbl w d))"
    and "insert_result r = Some ErrOrderDuplicate \<Longrightarrow>
      tbl w' = tbl w \<and> order_conflict coll x (orders_0 (tbl w d))"
    and "tbl w' = tbl w \<or>
      tbl w' = (tbl w)(d := (tbl w d)\<lparr>orders_0 := orders_0 (tbl w d) @ [stored_order dt x]\<rparr>)"
  using insert_order_cases [OF assms] by (auto split: if_splits)

lemma get_contract:
  assumes "run S (getOrderFromDB d u i) w = (Some res, w')"
  shows "tbl w' = tbl w"
    and "res = Inr x \<Longrightarrow> x \<in> set (orders_0 (tbl w d)) \<and> o_UserID x = u \<and> o_ID x = i"
    and "res = Inl ErrOrderNotFound \<Longrightarrow>
      \<not> (\<exists>x\<in>set (orders_0 (tbl w d)). o_UserID x = u \<and> o_ID x = i)"
proof -
  obtain r where r: "S (Sql d (SelectOrder u i)) w = (r, w')"
    and res: "res = (case as_order r of
           Inl e \<Rightarrow> if errors_Is e ErrNoRows then Inl ErrOrderNotFound else Inl e
         | Inr row \<Rightarrow> Inr row)"
    using assms by (auto simp: run_getOrderFromDB)
  show "tbl w' = tbl w"
    and "res = Inr x \<Longrightarrow> x \<in> set (orders_0 (tbl w d)) \<and> o_UserID x = u \<and> o_ID x = i"
    and "res = Inl ErrOrderNotFound \<Longrightarrow>
      \<not> (\<exists>x\<in>set (orders_0 (tbl w d)). o_UserID x = u \<and> o_ID x = i)"
    using select_order_cases [OF r] by (auto simp: res)
qed

end

sublocale services \<subseteq> single: order_repo S "orderRepo_Create db" "orderRepo_GetByID db"
    "\<lambda>w. set (orders_0 (tbl w db))" "\<lambda>w. set (orders_0 (tbl w db))" coll dt for db
proof
  fix x w w'
  assume "run S (orderRepo_Create db x) w = (Some None, w')"
  then obtain r where "S (Sql db (InsertOrder x)) w = (r, w')" "insert_result r = None"
    unfolding orderRepo_Create_def run_insert_order by auto
  from insert_contract(1) [OF this]
  show "set (orders_0 (tbl w' db)) = insert (stored_order dt x) (set (orders_0 (tbl w db))) \<and>
      (\<forall>y\<in>set (orders_0 (tbl w db)). uk_idem coll y \<noteq> uk_idem coll x)"
    by (auto simp: order_conflict_iff)
next
  fix x w w'
  assume "run S (orderRepo_Create db x) w = (Some (Some ErrOrderDuplicate), w')"
  then obtain r where "S (Sql db (InsertOrder x)) w = (r, w')" "insert_result r = Some ErrOrderDuplicate"
    unfolding orderRepo_Create_def run_insert_order by auto
  from insert_contract(2) [OF this]
  show "set (orders_0 (tbl w' db)) = set (orders_0 (tbl w db)) \<and>
      (\<exists>y\<in>set (orders_0 (tbl w db)). o_ID y = o_ID x \<or> uk_idem coll y = uk_idem coll x)"
    by (auto simp: order_conflict_iff)
next
  fix x w e w'
  assume "run S (orderRepo_Create db x) w = (Some (Some e), w')"
  then obtain r where "S (Sql db (InsertOrder x)) w = (r, w')"
    unfolding orderRepo_Create_def run_insert_order by auto
  from insert_contract(3) [OF this]
  show "set (orders_0 (tbl w' db)) = set (orders_0 (tbl w db)) \<or>
      set (orders_0 (tbl w' db)) = insert (stored_order dt x) (set (orders_0 (tbl w db)))"
    by auto
qed (auto simp: orderRepo_GetByID_def dest: get_contract)

lemma sharded_rows_insert:
  assumes "shard_of shards (o_UserID x) = Some d"
    and "t' = t(d := (t d)\<lparr>orders_0 := orders_0 (t d) @ [stored_order dt x]\<rparr>)"
  shows "sharded_rows shards t' = insert (stored_order dt x) (sharded_rows shards t)"
  using assms by (auto simp: sharded_rows_def stored_order_def split: if_splits)

lemma sharded_conflict:
  assumes "shard_of shards (o_UserID x) = Some d"
    and "y \<in> sharded_rows shards t" and "uk_idem coll y = uk_idem coll x"
  shows "order_conflict coll x (orders_0 (t d))"
proof -
  have "o_UserID y = o_UserID x" using assms(3) by (rule uk_idem_user)
  with assms show ?thesis by (auto simp: sharded_rows_def order_conflict_iff)
qed

lemma run_sharded_create:
  "run S (shardedOrderRepo_Create shards x) w = (Some res, w') \<longleftrightarrow>
     (\<exists>d r. shard_of shards (o_UserID x) = Some d \<and>
        S (Sql d (InsertOrder x)) w = (r, w') \<and> res = insert_result r)"
  by (auto simp: shardedOrderRepo_Create_def split: option.splits prod.splits)

lemma run_sharded_get:
  "run S (shardedOrderRepo_GetByID shards u i) w = (Some res, w') \<longleftrightarrow>
     (\<exists>d. shard_of shards u = Some d \<and> run S (getOrderFromDB d u i) w = (Some res, w'))"
  by (auto simp: shardedOrderRepo_GetByID_def split: option.splits)

definition all_shard_rows :: "dbid list \<Rightarrow> (dbid \<Rightarrow> tables) \<Rightarrow> Order set" where
  "all_shard_rows shards t = (\<Union>d\<in>set shards. set (orders_0 (t d)))"

lemma sharded_rows_subset: "sharded_rows shards t \<subseteq> all_shard_rows shards t"
  by (auto simp: sharded_rows_def all_shard_rows_def dest: shard_of_in_set)

sublocale services \<subseteq> sharded: order_repo S "shardedOrderRepo_Create shards"
    "shardedOrderRepo_GetByID shards" "\<lambda>w. sharded_rows shards (tbl w)"
    "\<lambda>w. all_shard_rows shards (tbl w)" coll dt for shards
proof
  fix x w w'
  assume "run S (shardedOrderRepo_Create shards x) w = (Some None, w')"
  then obtain d r where d: "shard_of shards (o_UserID x) = Some d"
    and r: "S (Sql d (InsertOrder x)) w = (r, w')" "insert_result r = None"
    by (auto simp: run_sharded_create)
  from insert_contract(1) [OF r] sharded_rows_insert [OF d] sharded_conflict [OF d, of _ "tbl w"]
  show "sharded_rows shards (tbl w') = insert (stored_order dt x) (sharded_rows shards (tbl w)) \<and>
      (\<forall>y\<in>sharded_rows shards (tbl w). uk_idem coll y \<noteq> uk_idem coll x)"
    by blast
next
  fix x w w'
  assume "run S (shardedOrderRepo_Create shards x) w = (Some (Some ErrOrderDuplicate), w')"
  then obtain d r where d: "shard_of shards (o_UserID x) = Some d"
    and r: "S (Sql d (InsertOrder x)) w = (r, w')" "insert_result r = Some ErrOrderDuplicate"
    by (auto simp: run_sharded_create)
  from insert_contract(2) [OF r] shard_of_in_set [OF d]
  show "sharded_rows shards (tbl w') = sharded_rows shards (tbl w) \<and>
      (\<exists>y\<in>all_shard_rows shards (tbl w). o_ID y = o_ID x \<or> uk_idem coll y = uk_idem coll x)"
    by (auto simp: order_conflict_iff all_shard_rows_def)
next
  fix x w e w'
  assume "run S (shardedOrderRepo_Create shards x) w = (Some (Some e), w')"
  then obtain d r where d: "shard_of shards (o_UserID x) = Some d"
    and r: "S (Sql d (InsertOrder x)) w = (r, w')"
    by (auto simp: run_sharded_create)
  from insert_contract(3) [OF r] sharded_rows_insert [OF d]
  show "sharded_rows shards (tbl w') = sharded_rows shards (tbl w) \<or>
      sharded_rows shards (tbl w') = insert (stored_order dt x) (sharded_rows shards (tbl w))"
    by metis
next
  fix u i w x w'
  assume "run S (shardedOrderRepo_GetByID shards u i) w = (Some (Inr x), w')"
  then obtain d where d: "shard_of shards u = Some d"
    and g: "run S (getOrderFromDB d u i) w = (Some (Inr x), w')"
    by (auto simp: run_sharded_get)
  from get_contract(2) [OF g refl] d
  show "x \<in> sharded_rows shards (tbl w) \<and> o_UserID x = u \<and> o_ID x = i"
    by (auto simp: sharded_rows_def)
next
  fix u i w w'
  assume "run S (shardedOrderRepo_GetByID shards u i) w = (Some (Inl ErrOrderNotFound), w')"
  then obtain d where d: "shard_of shards u = Some d"
    and g: "run S (getOrderFromDB d u i) w = (Some (Inl ErrOrderNotFound), w')"
    by (auto simp: run_sharded_get)
  from get_contract(3) [OF g refl] d
  show "\<not> (\<exists>x\<in>sharded_rows shards (tbl w). o_UserID x = u \<and> o_ID x = i)"
    by (auto simp: sharded_rows_def)
next
  fix u i w res w'
  assume "run S (shardedOrderRepo_GetByID shards u i) w = (Some res, w')"
  then show "sharded_rows shards (tbl w') = sharded_rows shards (tbl w)"
    by (auto simp: run_sharded_get dest: get_contract(1))
qed

section \<open>Properties\<close>

context services begin

lemma shards_hold_created:
  assumes "run S (shardedOrderRepo_Create shards x) w = (Some None, w1)"
    and "run S (shardedOrderRepo_GetByID shards (o_UserID x) (o_ID x)) w1 = (Some res, w2)"
  shows "res \<noteq> Inl ErrOrderNotFound \<and> (\<forall>y. res = Inr y \<longrightarrow> o_UserID y = o_UserID x \<and> o_ID y = o_ID x)"
  using sharded.read_own_write [OF assms] sharded.get_ok assms(2) by blast

lemma shards_create_once:
  assumes "run S (shardedOrderRepo_Create shards x) w = (Some None, w1)"
    and "run S (shardedOrderRepo_Create shards x) w1 = (Some res, w2)"
  shows "res \<noteq> None \<and> sharded_rows shards (tbl w2) = sharded_rows shards (tbl w1)"
proof -
  have "stored_order dt x \<in> sharded_rows shards (tbl w1)"
    using sharded.create_ok [OF assms(1)] by blast
  then show ?thesis
    using sharded.create_once [OF assms] sharded.create_rows [OF assms(2)] by blast
qed

end

end
