(* ===== verification/Json_Decode.thy ===== *)
theory Json_Decode
  imports Runtime
begin

text \<open>
  What the program uses of \<open>encoding/json\<close>: decoding an object into a struct.  Keys match
  field names up to case; a value of the wrong type is recorded as the error and skipped, and
  decoding goes on with the first error kept; \<open>null\<close> leaves a field alone; an error of
  \<open>time.Time\<close>'s own \<open>UnmarshalJSON\<close> ends the decoding.  A struct is given by what one
  member does to it (\<open>dec key v\<close>).
\<close>

definition lower :: "char \<Rightarrow> char" where
  "lower c = (let n = of_char c :: nat in if 65 \<le> n \<and> n \<le> 90 then char_of (n + 32) else c)"

definition field_is :: "string \<Rightarrow> string \<Rightarrow> bool" where
  "field_is key name \<longleftrightarrow> map lower key = name"

datatype 'r decoded = Stored 'r | Skipped goerr | Aborted goerr

definition type_error :: goerr where
  "type_error = GoErr ''json: cannot unmarshal value into Go struct field''"

definition time_error :: goerr where
  "time_error = GoErr ''Time.UnmarshalJSON: input is not a JSON string''"

definition syntax_error :: goerr where
  "syntax_error = GoErr ''invalid character''"

definition decode_num :: "(int \<Rightarrow> bool) \<Rightarrow> json \<Rightarrow> (int \<Rightarrow> 'r) \<Rightarrow> 'r \<Rightarrow> 'r decoded" where
  "decode_num fits v upd old =
     (case v of JNull \<Rightarrow> Stored old
      | JNum i \<Rightarrow> if fits i then Stored (upd i) else Skipped type_error
      | _ \<Rightarrow> Skipped type_error)"

abbreviation decode_int :: "json \<Rightarrow> (int \<Rightarrow> 'r) \<Rightarrow> 'r \<Rightarrow> 'r decoded" where
  "decode_int \<equiv> decode_num in64"

definition decode_str :: "json \<Rightarrow> (string \<Rightarrow> 'r) \<Rightarrow> 'r \<Rightarrow> 'r decoded" where
  "decode_str v upd old =
     (case v of JNull \<Rightarrow> Stored old
      | JStr s \<Rightarrow> Stored (upd s)
      | JTime s t \<Rightarrow> Stored (upd s)
      | _ \<Rightarrow> Skipped type_error)"

definition decode_time :: "json \<Rightarrow> (int \<Rightarrow> 'r) \<Rightarrow> 'r \<Rightarrow> 'r decoded" where
  "decode_time v upd old =
     (case v of JNull \<Rightarrow> Stored old | JTime s t \<Rightarrow> Stored (upd t) | _ \<Rightarrow> Aborted time_error)"

text \<open>
  The text of an instant, RFC 3339 with nanoseconds in UTC (\<open>time.Time\<close>'s \<open>MarshalJSON\<close>): the
  date is computed from the days since 1970 in the Gregorian calendar.
\<close>

definition civil_date :: "int \<Rightarrow> int \<times> int \<times> int" where
  "civil_date days =
     (let z = days + 719468;
          era = z div 146097;
          doe = z mod 146097;
          yoe = (doe - doe div 1460 + doe div 36524 - doe div 146096) div 365;
          doy = doe - (365 * yoe + yoe div 4 - yoe div 100);
          mp = (5 * doy + 2) div 153;
          d = doy - (153 * mp + 2) div 5 + 1;
          m = (if mp < 10 then mp + 3 else mp - 9)
      in (yoe + era * 400 + (if m \<le> 2 then 1 else 0), m, d))"

definition pad :: "nat \<Rightarrow> int \<Rightarrow> string" where
  "pad w i = (let s = show_int i in replicate (w - length s) CHR ''0'' @ s)"

definition time_text :: "int \<Rightarrow> string" where
  "time_text t =
     (let secs = t div 1000000000;
          nanos = t mod 1000000000;
          (y, mo, d) = civil_date (secs div 86400);
          s = secs mod 86400;
          frac = rev (dropWhile (\<lambda>c. c = CHR ''0'') (rev (pad 9 nanos)))
      in pad 4 y @ ''-'' @ pad 2 mo @ ''-'' @ pad 2 d @ ''T'' @
         pad 2 (s div 3600) @ '':'' @ pad 2 (s div 60 mod 60) @ '':'' @ pad 2 (s mod 60) @
         (if frac = [] then [] else ''.'' @ frac) @ ''Z'')"

fun decode_fields ::
  "(string \<Rightarrow> json \<Rightarrow> 'r \<Rightarrow> 'r decoded) \<Rightarrow> (string \<times> json) list \<Rightarrow> 'r \<Rightarrow> goerr option \<Rightarrow>
   'r \<times> goerr option" where
  "decode_fields dec [] m saved = (m, saved)"
| "decode_fields dec ((key, v) # fs) m saved =
     (case dec key v m of
        Stored m' \<Rightarrow> decode_fields dec fs m' saved
      | Skipped e \<Rightarrow> decode_fields dec fs m (case saved of None \<Rightarrow> Some e | Some _ \<Rightarrow> saved)
      | Aborted e \<Rightarrow> (m, Some e))"

definition Unmarshal ::
  "(string \<Rightarrow> json \<Rightarrow> 'r \<Rightarrow> 'r decoded) \<Rightarrow> 'r \<Rightarrow> payload \<Rightarrow> 'r \<times> goerr option" where
  "Unmarshal dec zero b =
     (case b of
        Malformed _ \<Rightarrow> (zero, Some syntax_error)
      | Valid JNull \<Rightarrow> (zero, None)
      | Valid (JObj fs) \<Rightarrow> decode_fields dec fs zero None
      | Valid _ \<Rightarrow> (zero, Some type_error))"

lemmas decode_defs = decode_num_def decode_str_def decode_time_def

lemma decode_simps [simp]:
  "fits i \<Longrightarrow> decode_num fits (JNum i) f old = Stored (f i)"
  "decode_str (JStr s) g old = Stored (g s)"
  "decode_time (JTime s t) f old = Stored (f t)"
  by (simp_all add: decode_defs)

text \<open>Once an error is recorded, decoding does not lose it.\<close>

lemma decode_fields_saved: "snd (decode_fields dec fs m (Some e)) \<noteq> None"
  by (induction fs arbitrary: m e) (auto split: decoded.splits)

lemma decode_fields_saved_iff [simp]: "decode_fields dec fs m (Some e) = (m', None) \<longleftrightarrow> False"
  using decode_fields_saved [of dec fs m e] by auto

end
