(* ===== verification/Messages.thy ===== *)
theory Messages
  imports Json_Decode
begin

text \<open>
  \<open>internal/infra/kafka/topics.go\<close> and \<open>internal/infra/otel/propagator.go\<close>: the order
  message, its JSON form and the Kafka headers that carry the trace context.
\<close>

section \<open>Topics and the order message\<close>

definition TopicSeckillOrders :: string where "TopicSeckillOrders = ''seckill_orders''"
definition TopicSeckillDLQ :: string where "TopicSeckillDLQ = ''seckill_orders_dlq''"

record OrderMessage =
  m_Version :: int
  m_OrderID :: int
  m_ActivityID :: int
  m_UserID :: int
  m_ProductID :: int
  m_IdempotencyToken :: string
  m_QueueToken :: string
  m_ProducedAt :: int

text \<open>Go's zero value of the struct (the zero \<open>time.Time\<close> is the first instant of year 1).\<close>

definition zero_time :: int where
  "zero_time = - 62135596800 * 1000000000"

definition zero_message :: OrderMessage where
  "zero_message = \<lparr>m_Version = 0, m_OrderID = 0, m_ActivityID = 0, m_UserID = 0,
     m_ProductID = 0, m_IdempotencyToken = [], m_QueueToken = [], m_ProducedAt = zero_time\<rparr>"

text \<open>
  \<open>json.Marshal\<close> of the struct.  The only field whose marshalling can fail is the instant:
  \<open>time.Time\<close> refuses years outside 0 to 9999.
\<close>

definition year_ok :: "int \<Rightarrow> bool" where
  "year_ok t \<longleftrightarrow> - 62167219200 * 1000000000 \<le> t \<and> t < 253402300800 * 1000000000"

definition Marshal :: "OrderMessage \<Rightarrow> goerr + payload" where
  "Marshal m =
     (if year_ok (m_ProducedAt m)
      then Inr (Valid (JObj [
        (''version'', JNum (m_Version m)),
        (''order_id'', JNum (m_OrderID m)),
        (''activity_id'', JNum (m_ActivityID m)),
        (''user_id'', JNum (m_UserID m)),
        (''product_id'', JNum (m_ProductID m)),
        (''idempotency_token'', JStr (m_IdempotencyToken m)),
        (''queue_token'', JStr (m_QueueToken m)),
        (''produced_at'', JTime (time_text (m_ProducedAt m)) (m_ProducedAt m))]))
      else Inl (GoErr ''json: error calling MarshalJSON for type time.Time''))"

definition decode_field :: "string \<Rightarrow> json \<Rightarrow> OrderMessage \<Rightarrow> OrderMessage decoded" where
  "decode_field key v m =
     (if field_is key ''version'' then decode_int v (\<lambda>i. m\<lparr>m_Version := i\<rparr>) m
      else if field_is key ''order_id'' then decode_int v (\<lambda>i. m\<lparr>m_OrderID := i\<rparr>) m
      else if field_is key ''activity_id'' then decode_int v (\<lambda>i. m\<lparr>m_ActivityID := i\<rparr>) m
      else if field_is key ''user_id'' then decode_int v (\<lambda>i. m\<lparr>m_UserID := i\<rparr>) m
      else if field_is key ''product_id'' then decode_int v (\<lambda>i. m\<lparr>m_ProductID := i\<rparr>) m
      else if field_is key ''idempotency_token'' then decode_str v (\<lambda>s. m\<lparr>m_IdempotencyToken := s\<rparr>) m
      else if field_is key ''queue_token'' then decode_str v (\<lambda>s. m\<lparr>m_QueueToken := s\<rparr>) m
      else if field_is key ''produced_at'' then decode_time v (\<lambda>t. m\<lparr>m_ProducedAt := t\<rparr>) m
      else Stored m)"

text \<open>\<open>UnmarshalOrderMessage\<close>: \<open>json.Unmarshal\<close> into a zero message.\<close>

definition UnmarshalOrderMessage :: "payload \<Rightarrow> OrderMessage \<times> goerr option" where
  "UnmarshalOrderMessage b = Unmarshal decode_field zero_message b"

definition message_in64 :: "OrderMessage \<Rightarrow> bool" where
  "message_in64 m \<longleftrightarrow> in64 (m_Version m) \<and> in64 (m_OrderID m) \<and> in64 (m_ActivityID m) \<and>
     in64 (m_UserID m) \<and> in64 (m_ProductID m)"

lemma lower_simps [simp]:
  "map lower ''version'' = ''version''" "map lower ''order_id'' = ''order_id''"
  "map lower ''activity_id'' = ''activity_id''" "map lower ''user_id'' = ''user_id''"
  "map lower ''product_id'' = ''product_id''" "map lower ''idempotency_token'' = ''idempotency_token''"
  "map lower ''queue_token'' = ''queue_token''" "map lower ''produced_at'' = ''produced_at''"
  by code_simp+

lemma decode_field_simps [simp]:
  "decode_field ''version'' v m = decode_int v (\<lambda>i. m\<lparr>m_Version := i\<rparr>) m"
  "decode_field ''order_id'' v m = decode_int v (\<lambda>i. m\<lparr>m_OrderID := i\<rparr>) m"
  "decode_field ''activity_id'' v m = decode_int v (\<lambda>i. m\<lparr>m_ActivityID := i\<rparr>) m"
  "decode_field ''user_id'' v m = decode_int v (\<lambda>i. m\<lparr>m_UserID := i\<rparr>) m"
  "decode_field ''product_id'' v m = decode_int v (\<lambda>i. m\<lparr>m_ProductID := i\<rparr>) m"
  "decode_field ''idempotency_token'' v m = decode_str v (\<lambda>s. m\<lparr>m_IdempotencyToken := s\<rparr>) m"
  "decode_field ''queue_token'' v m = decode_str v (\<lambda>s. m\<lparr>m_QueueToken := s\<rparr>) m"
  "decode_field ''produced_at'' v m = decode_time v (\<lambda>t. m\<lparr>m_ProducedAt := t\<rparr>) m"
  unfolding decode_field_def field_is_def lower_simps by simp_all

lemma Unmarshal_Marshal:
  assumes "message_in64 m" and "Marshal m = Inr v"
  shows "UnmarshalOrderMessage v = (m, None)"
proof -
  from assms(2) have v: "v = Valid (JObj [
        (''version'', JNum (m_Version m)),
        (''order_id'', JNum (m_OrderID m)),
        (''activity_id'', JNum (m_ActivityID m)),
        (''user_id'', JNum (m_UserID m)),
        (''product_id'', JNum (m_ProductID m)),
        (''idempotency_token'', JStr (m_IdempotencyToken m)),
        (''queue_token'', JStr (m_QueueToken m)),
        (''produced_at'', JTime (time_text (m_ProducedAt m)) (m_ProducedAt m))])"
    by (simp add: Marshal_def split: if_splits)
  show ?thesis
    using assms(1) by (simp add: v UnmarshalOrderMessage_def Unmarshal_def message_in64_def zero_message_def)
qed

text \<open>What a message value says about the order: its activity and its user, if it decodes.\<close>

definition decodes_to :: "payload \<Rightarrow> OrderMessage \<Rightarrow> bool" where
  "decodes_to v m \<longleftrightarrow> UnmarshalOrderMessage v = (m, None)"

section \<open>Kafka headers as a trace carrier\<close>

text \<open>
  \<open>KafkaHeaderCarrier\<close> is a list of headers; \<open>Get\<close> finds the first with the key,
  \<open>Set\<close> overwrites the first or appends.
\<close>

fun carrier_Get :: "header list \<Rightarrow> string \<Rightarrow> string" where
  "carrier_Get [] key = []"
| "carrier_Get ((k, v) # hs) key = (if k = key then v else carrier_Get hs key)"

fun carrier_Set :: "header list \<Rightarrow> string \<Rightarrow> string \<Rightarrow> header list" where
  "carrier_Set [] key value = [(key, value)]"
| "carrier_Set ((k, v) # hs) key value =
     (if k = key then (k, value) # hs else (k, v) # carrier_Set hs key value)"

definition carrier_Keys :: "header list \<Rightarrow> string list" where
  "carrier_Keys hs = map fst hs"

text \<open>A propagator injects its fields one by one.\<close>

definition carrier_Inject :: "header list \<Rightarrow> (string \<times> string) list \<Rightarrow> header list" where
  "carrier_Inject hs kvs = foldl (\<lambda>c (k, v). carrier_Set c k v) hs kvs"

lemma carrier_Inject_simps [simp]:
  "carrier_Inject hs [] = hs" "carrier_Inject hs ((k, v) # kvs) = carrier_Inject (carrier_Set hs k v) kvs"
  by (simp_all add: carrier_Inject_def)

text \<open>The contract a propagator expects of a text map carrier.\<close>

locale text_map_carrier =
  fixes get :: "'c \<Rightarrow> string \<Rightarrow> string"
    and set_value :: "'c \<Rightarrow> string \<Rightarrow> string \<Rightarrow> 'c"
    and keys :: "'c \<Rightarrow> string list"
  assumes get_set: "get (set_value c k v) j = (if j = k then v else get c j)"
    and set_keys: "set (keys (set_value c k v)) = insert k (set (keys c))"
    and set_keys_distinct: "distinct (keys c) \<Longrightarrow> distinct (keys (set_value c k v))"
begin

lemma get_inject_all:
  "distinct (map fst kvs) \<Longrightarrow> (k, v) \<in> set kvs \<Longrightarrow>
     get (foldl (\<lambda>c (k, v). set_value c k v) c kvs) k = v"
proof (induction kvs rule: rev_induct)
  case (snoc x kvs)
  then show ?case
    by (cases x) (auto simp: get_set image_iff)
qed simp

lemma keys_inject_all:
  "distinct (keys c) \<Longrightarrow> distinct (keys (foldl (\<lambda>c (k, v). set_value c k v) c kvs))"
  by (induction kvs arbitrary: c) (auto simp: set_keys_distinct)

end

lemma carrier_Get_Set: "carrier_Get (carrier_Set hs k v) j = (if j = k then v else carrier_Get hs j)"
  by (induction hs k v rule: carrier_Set.induct) auto

lemma carrier_Set_keys: "set (carrier_Keys (carrier_Set hs k v)) = insert k (set (carrier_Keys hs))"
  by (induction hs k v rule: carrier_Set.induct) (auto simp: carrier_Keys_def)

lemma carrier_Set_distinct:
  "distinct (carrier_Keys hs) \<Longrightarrow> distinct (carrier_Keys (carrier_Set hs k v))"
proof (induction hs k v rule: carrier_Set.induct)
  case (2 k v hs key new)
  then show ?case using carrier_Set_keys [of hs key new] by (auto simp: carrier_Keys_def)
qed (simp add: carrier_Keys_def)

interpretation headers: text_map_carrier carrier_Get carrier_Set carrier_Keys
  by unfold_locales (auto simp: carrier_Get_Set carrier_Set_keys carrier_Set_distinct)



text \<open>
  The headers are a faithful trace carrier: after injecting any list of fields with distinct
  names, every field is read back, and no header name occurs twice.
\<close>

lemma carrier_Inject_Get: "distinct (map fst kvs) \<Longrightarrow> (k, v) \<in> set kvs \<Longrightarrow> carrier_Get (carrier_Inject hs kvs) k = v"
  unfolding carrier_Inject_def by (rule headers.get_inject_all)

lemma carrier_Inject_Keys: "distinct (carrier_Keys hs) \<Longrightarrow> distinct (carrier_Keys (carrier_Inject hs kvs))"
  unfolding carrier_Inject_def by (rule headers.keys_inject_all)

end
