(* ===== verification/Seckill_Service.thy ===== *)
theory Seckill_Service
  imports Stock_Repo Order_Repo Messages
begin

text \<open>
  \<open>internal/service/seckill.go\<close>, \<open>queue_token.go\<close>, \<open>kafka_order_creator.go\<close> and
  \<open>internal/infra/kafka/producer.go\<close>: one seckill attempt from the activity lookup to the
  published order.  The service depends on ports; a port is a function that yields a program.
\<close>

section \<open>Producing order messages\<close>

definition SendOrder :: "string \<Rightarrow> OrderMessage \<Rightarrow> goerr option prog" where
  "SendOrder topic m =
     (case Marshal m of
        Inl err \<Rightarrow> Ret (Some err)
      | Inr b \<Rightarrow>
          Call InjectTrace (\<lambda>fields.
            let carrier = carrier_Inject [] (val_fields fields)
            in Call (KWrite topic (show_int (m_UserID m)) b (m_ProducedAt m) carrier) (\<lambda>r. Ret (as_unit r))))"

definition KafkaOrderCreator_CreateWithToken :: "string \<Rightarrow> Order \<Rightarrow> string \<Rightarrow> goerr option prog" where
  "KafkaOrderCreator_CreateWithToken topic x queueToken =
     Call Now (\<lambda>r.
       SendOrder topic
         \<lparr>m_Version = 1, m_OrderID = o_ID x, m_ActivityID = o_ActivityID x, m_UserID = o_UserID x,
          m_ProductID = o_ProductID x, m_IdempotencyToken = o_IdempotencyToken x,
          m_QueueToken = queueToken, m_ProducedAt = val_int r\<rparr>)"

definition KafkaOrderCreator_Create :: "string \<Rightarrow> Order \<Rightarrow> goerr option prog" where
  "KafkaOrderCreator_Create topic x =
     KafkaOrderCreator_CreateWithToken topic x (o_IdempotencyToken x)"

section \<open>Queue tokens\<close>

definition minute :: int where "minute = 60 * 1000000000"
definition queueTokenTTL :: int where "queueTokenTTL = 10 * minute"

definition QueueService_New :: "(goerr + string) prog" where
  "QueueService_New =
     Call NewUUIDv7 (\<lambda>r.
       case as_str r of
         Inl err \<Rightarrow> Ret (Inl err)
       | Inr tok \<Rightarrow>
           Call (Redis (SET (queue_key tok) ''queued'' queueTokenTTL)) (\<lambda>r.
             case as_unit r of
               Some err \<Rightarrow> Ret (Inl err)
             | None \<Rightarrow> Ret (Inr tok)))"

definition QueueService_Get :: "string \<Rightarrow> (goerr + string) prog" where
  "QueueService_Get token =
     Call (Redis (GET (queue_key token))) (\<lambda>r.
       case as_str r of
         Inl err \<Rightarrow> if err = RedisNil then Ret (Inr ''not_found'') else Ret (Inl err)
       | Inr v \<Rightarrow> Ret (Inr v))"

record QueueService =
  q_New :: "(goerr + string) prog"
  q_Get :: "string \<Rightarrow> (goerr + string) prog"

definition NewQueue :: QueueService where
  "NewQueue = \<lparr>q_New = QueueService_New, q_Get = QueueService_Get\<rparr>"

declare NewQueue_def [simp]

section \<open>The seckill service\<close>

text \<open>
  \<open>OrderCreator\<close>, with the optional extension \<open>OrderCreatorWithToken\<close> that the service
  tests for by a type assertion.
\<close>

record OrderCreator =
  oc_Create :: "Order \<Rightarrow> goerr option prog"
  oc_CreateWithToken :: "(Order \<Rightarrow> string \<Rightarrow> goerr option prog) option"

record SeckillService =
  s_activities :: "int \<Rightarrow> (goerr + Activity) prog"
  s_stock :: StockRepo
  s_orders :: OrderCreator
  s_now :: "int prog"
  s_nextID :: "int prog"
  s_queue :: "(goerr + string) prog option"

definition WithQueue :: "QueueService \<Rightarrow> SeckillService \<Rightarrow> SeckillService" where
  "WithQueue q s = s\<lparr>s_queue := Some (q_New q)\<rparr>"

definition service_New ::
  "(int \<Rightarrow> (goerr + Activity) prog) \<Rightarrow> StockRepo \<Rightarrow> OrderCreator \<Rightarrow> int prog \<Rightarrow> int prog \<Rightarrow> SeckillService" where
  "service_New acts stock orders now nextID =
     \<lparr>s_activities = acts, s_stock = stock, s_orders = orders, s_now = now, s_nextID = nextID, s_queue = None\<rparr>"

definition NewKafkaOrderCreator :: "string \<Rightarrow> OrderCreator" where
  "NewKafkaOrderCreator topic =
     \<lparr>oc_Create = KafkaOrderCreator_Create topic,
      oc_CreateWithToken = Some (KafkaOrderCreator_CreateWithToken topic)\<rparr>"

declare WithQueue_def [simp] service_New_def [simp] NewKafkaOrderCreator_def [simp]

record SeckillOutput =
  out_Outcome :: SeckillOutcome
  out_QueueToken :: string
  out_Remaining :: int

definition outcome :: "SeckillOutcome \<Rightarrow> SeckillOutput" where
  "outcome x = \<lparr>out_Outcome = x, out_QueueToken = [], out_Remaining = 0\<rparr>"

definition seckill_token :: "SeckillService \<Rightarrow> int \<Rightarrow> string prog" where
  "seckill_token s orderID =
     (case s_queue s of
        None \<Rightarrow> Ret (show_int orderID)
      | Some new \<Rightarrow> bindp new (\<lambda>t. Ret (case t of Inr tok \<Rightarrow> tok | Inl _ \<Rightarrow> show_int orderID)))"

definition seckill_create :: "SeckillService \<Rightarrow> Order \<Rightarrow> string \<Rightarrow> goerr option prog" where
  "seckill_create s x queueToken =
     (case oc_CreateWithToken (s_orders s) of
        Some create_with_token \<Rightarrow> create_with_token x queueToken
      | None \<Rightarrow> oc_Create (s_orders s) x)"

text \<open>
  \<open>SeckillService.Seckill\<close>, from its end to its start: placing the order once a unit is
  reserved, reserving the unit, checking the window, looking the activity up.
\<close>

definition new_order :: "SeckillRequest \<Rightarrow> Activity \<Rightarrow> int \<Rightarrow> int \<Rightarrow> Order" where
  "new_order req a now orderID =
     \<lparr>o_ID = orderID, o_UserID = rq_UserID req, o_ActivityID = rq_ActivityID req,
      o_ProductID = a_ProductID a, o_Status = OrderQueued,
      o_IdempotencyToken = rq_IdempotencyToken req, o_CreatedAt = now\<rparr>"

definition seckill_place ::
  "SeckillService \<Rightarrow> SeckillRequest \<Rightarrow> Activity \<Rightarrow> int \<Rightarrow> int \<Rightarrow> (SeckillOutput \<times> goerr option) prog" where
  "seckill_place s req a now remaining =
     bindp (s_nextID s) (\<lambda>orderID.
     bindp (seckill_token s orderID) (\<lambda>queueToken.
     bindp (seckill_create s (new_order req a now orderID) queueToken) (\<lambda>err.
       case err of
         Some e \<Rightarrow>
           if errors_Is e ErrOrderDuplicate then Ret (outcome OutcomeDuplicate, None)
           else Ret (outcome OutcomeInternal, Some e)
       | None \<Rightarrow>
           Ret (\<lparr>out_Outcome = OutcomeQueued, out_QueueToken = queueToken,
                 out_Remaining = remaining\<rparr>, None))))"

definition seckill_deduct ::
  "SeckillService \<Rightarrow> SeckillRequest \<Rightarrow> Activity \<Rightarrow> int \<Rightarrow> (SeckillOutput \<times> goerr option) prog" where
  "seckill_deduct s req a now =
     bindp (s_stock s (rq_ActivityID req) (rq_UserID req) 1 (a_PerUserLimit a)) (\<lambda>deducted.
       case deducted of
         Inl err \<Rightarrow>
           if errors_Is err ErrStockNotEnough then Ret (outcome OutcomeSoldOut, None)
           else if errors_Is err ErrUserLimitExceeded then Ret (outcome OutcomeUserLimit, None)
           else if errors_Is err ErrStockNotWarmed then Ret (outcome OutcomeNotWarmed, None)
           else Ret (outcome OutcomeInternal, Some err)
       | Inr remaining \<Rightarrow> seckill_place s req a now remaining)"

definition seckill_window ::
  "SeckillService \<Rightarrow> SeckillRequest \<Rightarrow> Activity \<Rightarrow> (SeckillOutput \<times> goerr option) prog" where
  "seckill_window s req a =
     bindp (s_now s) (\<lambda>now.
       if now < a_StartAt a then Ret (outcome OutcomeNotStarted, None)
       else if \<not> now < a_EndAt a then Ret (outcome OutcomeEnded, None)
       else seckill_deduct s req a now)"

definition Seckill :: "SeckillService \<Rightarrow> SeckillRequest \<Rightarrow> (SeckillOutput \<times> goerr option) prog" where
  "Seckill s req =
     bindp (s_activities s (rq_ActivityID req)) (\<lambda>found.
       case found of
         Inl err \<Rightarrow>
           if errors_Is err ErrActivityNotFound then Ret (outcome OutcomeNotFound, None)
           else Ret (outcome OutcomeInternal, Some err)
       | Inr a \<Rightarrow> seckill_window s req a)"

lemmas seckill_defs = Seckill_def seckill_window_def seckill_deduct_def seckill_place_def

lemma outcome_simps [simp]: "out_Outcome (outcome x) = x"
  by (simp add: outcome_def)

section \<open>Wiring\<close>

text \<open>
  The parts of \<open>cmd/api/main.go\<close> that assemble the service: order ids, and which
  implementation stands behind each port.
\<close>

definition nextID :: "int prog" where
  "nextID = Call Now (\<lambda>t. Call AddCounter (\<lambda>c. Ret (add64 (val_int t) (val_int c))))"

definition time_Now :: "int prog" where
  "time_Now = Call Now (\<lambda>t. Ret (val_int t))"

record Switches =
  LuaStock :: bool
  KafkaOrder :: bool
  ShardedOrder :: bool
  RateLimit :: bool
  Idempotency :: bool
  CircuitBreaker :: bool
  Tracing :: bool
  Metrics :: bool

definition order_repo_of :: "Switches \<Rightarrow> dbid list \<Rightarrow> OrderRepo" where
  "order_repo_of sw shards =
     (if ShardedOrder sw \<and> shards \<noteq> [] then NewShardedOrderRepo shards else NewOrderRepo MainDB)"

definition order_create :: "Switches \<Rightarrow> dbid list \<Rightarrow> Order \<Rightarrow> goerr option prog" where
  "order_create sw shards = or_Create (order_repo_of sw shards)"

lemma order_create_eq:
  "order_create sw shards =
     (if ShardedOrder sw \<and> shards \<noteq> [] then shardedOrderRepo_Create shards else orderRepo_Create MainDB)"
  by (simp add: order_create_def order_repo_of_def)

definition api_service :: "Switches \<Rightarrow> dbid list \<Rightarrow> string \<Rightarrow> SeckillService" where
  "api_service sw shards topic =
     (let ar = NewActivityRepo;
          sr = if LuaStock sw then NewStockRedisRepo else NewStockRepo;
          queue = NewQueue;
          oc = if KafkaOrder sw then NewKafkaOrderCreator topic
               else \<lparr>oc_Create = order_create sw shards, oc_CreateWithToken = None\<rparr>
      in WithQueue queue (service_New (ar_GetByID ar) sr oc time_Now nextID))"

lemma api_service_eq:
  "api_service sw shards topic =
     \<lparr>s_activities = activityRepo_GetByID,
      s_stock = (if LuaStock sw then stockRedisRepo_DeductForUser else stockRepoSQL_DeductForUser),
      s_orders = (if KafkaOrder sw then NewKafkaOrderCreator topic
        else \<lparr>oc_Create = order_create sw shards, oc_CreateWithToken = None\<rparr>),
      s_now = time_Now, s_nextID = nextID, s_queue = Some QueueService_New\<rparr>"
  by (simp add: api_service_def Let_def)

section \<open>Stages of an attempt\<close>

text \<open>
  What an attempt that returns went through, whatever its ports do: the stages in the order of
  the code, each with the events of its own port.
\<close>

lemma seckill_place_stages:
  assumes "performs (seckill_place s req a now rem) es (Some (out, err))"
  shows "out_Outcome out \<in> {OutcomeQueued, OutcomeDuplicate, OutcomeInternal} \<and>
    (out_Outcome out = OutcomeQueued \<longrightarrow> err = None \<and> out_Remaining out = rem \<and>
      (\<exists>es1 es2 es3 orderID. es = es1 @ es2 @ es3 \<and> performs (s_nextID s) es1 (Some orderID) \<and>
        performs (seckill_token s orderID) es2 (Some (out_QueueToken out)) \<and>
        performs (seckill_create s (new_order req a now orderID) (out_QueueToken out)) es3 (Some None)))"
  using assms unfolding seckill_place_def
proof (elim performs_bindpE)
  fix es1 es2' orderID es2 es3 tok es3' es4 e
  assume "es = es1 @ es2'" "es2' = es2 @ es3" "es3 = es3' @ es4"
    and "performs (s_nextID s) es1 (Some orderID)"
    and "performs (seckill_token s orderID) es2 (Some tok)"
    and "performs (seckill_create s (new_order req a now orderID) tok) es3' (Some e)"
    and "performs (case e of
         Some e \<Rightarrow>
           if errors_Is e ErrOrderDuplicate then Ret (outcome OutcomeDuplicate, None)
           else Ret (outcome OutcomeInternal, Some e)
       | None \<Rightarrow>
           Ret (\<lparr>out_Outcome = OutcomeQueued, out_QueueToken = tok,
                 out_Remaining = rem\<rparr>, None)) es4 (Some (out, err))"
  then show ?thesis by (auto split: option.splits if_splits)
qed auto

lemma seckill_deduct_stages:
  assumes "performs (seckill_deduct s req a now) es (Some (out, err))"
  obtains (refused) e where "performs (s_stock s (rq_ActivityID req) (rq_UserID req) 1 (a_PerUserLimit a))
        es (Some (Inl e))"
      "out_Outcome out \<in> {OutcomeSoldOut, OutcomeUserLimit, OutcomeNotWarmed, OutcomeInternal}"
  | (reserved) es1 es2 rem where "es = es1 @ es2"
      "performs (s_stock s (rq_ActivityID req) (rq_UserID req) 1 (a_PerUserLimit a)) es1 (Some (Inr rem))"
      "performs (seckill_place s req a now rem) es2 (Some (out, err))"
  using assms unfolding seckill_deduct_def
  by (elim performs_bindpE) (auto split: sum.splits if_splits)

lemma seckill_window_stages:
  assumes "performs (seckill_window s req a) es (Some (out, err))"
  obtains (closed) now where "performs (s_now s) es (Some now)" "err = None"
      "out_Outcome out = OutcomeNotStarted \<and> now < a_StartAt a \<or>
       out_Outcome out = OutcomeEnded \<and> a_StartAt a \<le> now \<and> a_EndAt a \<le> now"
  | (opened) es1 es2 now where "es = es1 @ es2" "performs (s_now s) es1 (Some now)"
      "a_StartAt a \<le> now" "now < a_EndAt a" "performs (seckill_deduct s req a now) es2 (Some (out, err))"
  using assms unfolding seckill_window_def
  by (elim performs_bindpE) (auto split: if_splits)

lemma Seckill_stages:
  assumes "performs (Seckill s req) es (Some (out, err))"
  obtains (missing) e where "performs (s_activities s (rq_ActivityID req)) es (Some (Inl e))"
      "out_Outcome out = OutcomeNotFound \<and> errors_Is e ErrActivityNotFound \<and> err = None \<or>
       out_Outcome out = OutcomeInternal \<and> err = Some e"
  | (found) es1 es2 a where "es = es1 @ es2"
      "performs (s_activities s (rq_ActivityID req)) es1 (Some (Inr a))"
      "performs (seckill_window s req a) es2 (Some (out, err))"
  using assms unfolding Seckill_def
  by (elim performs_bindpE) (auto split: sum.splits if_splits)

end
