(* ===== verification/Consumer.thy ===== *)
theory Consumer
  imports Complex_Main Seckill_Service
begin

text \<open>
  The asynchronous half: \<open>internal/service/order_materializer.go\<close>,
  \<open>internal/infra/breaker/breaker.go\<close>, \<open>internal/infra/kafka/consumer.go\<close> and the
  dead-letter handler of \<open>cmd/consumer/main.go\<close>.
\<close>

section \<open>The circuit breaker\<close>

text \<open>
  \<open>breaker.Do\<close> runs a function through gobreaker's \<open>Execute\<close>: the breaker either rejects
  the request with an error of its own, or the function runs and the breaker is told whether
  its error was nil.  When the breaker trips is decided by the program's \<open>ReadyToTrip\<close>.
\<close>

definition CB_Do :: "goerr option prog \<Rightarrow> goerr option prog" where
  "CB_Do fn =
     Call BreakerAsk (\<lambda>r.
       case as_unit r of
         Some err \<Rightarrow> Ret (Some err)
       | None \<Rightarrow> bindp fn (\<lambda>err. Call (BreakerTell (err = None)) (\<lambda>_. Ret err)))"

text \<open>
  Counts are \<open>uint32\<close>, ratios \<open>float64\<close>: \<open>rnd\<close> is the rounding of an exact quotient to
  the nearest double, a parameter of the model.
\<close>

record Counts =
  Requests :: nat
  TotalFailures :: nat

definition breaker_threshold :: "rat \<Rightarrow> rat" where
  "breaker_threshold FailureRatio = (if FailureRatio \<le> 0 then 1 / 2 else FailureRatio)"

definition ReadyToTrip :: "(rat \<Rightarrow> rat) \<Rightarrow> rat \<Rightarrow> Counts \<Rightarrow> bool" where
  "ReadyToTrip rnd threshold counts =
     (if Requests counts < 5 then False
      else rnd (of_nat (TotalFailures counts) / of_nat (Requests counts)) \<ge> threshold)"

text \<open>
  \<open>breaker.New\<close> hands gobreaker these settings; \<open>MaxRequests\<close> is an \<open>uint32\<close>, the periods
  are durations.
\<close>

record BreakerSetup =
  cb_Name :: string
  cb_MaxRequests :: int
  cb_Interval :: int
  cb_Timeout :: int
  cb_FailureRatio :: rat

record Settings =
  gs_Name :: string
  gs_MaxRequests :: int
  gs_Interval :: int
  gs_Timeout :: int
  gs_ReadyToTrip :: "Counts \<Rightarrow> bool"

definition breaker_New :: "(rat \<Rightarrow> rat) \<Rightarrow> BreakerSetup \<Rightarrow> Settings" where
  "breaker_New rnd c =
     \<lparr>gs_Name = cb_Name c, gs_MaxRequests = cb_MaxRequests c, gs_Interval = cb_Interval c,
      gs_Timeout = cb_Timeout c, gs_ReadyToTrip = ReadyToTrip rnd (breaker_threshold (cb_FailureRatio c))\<rparr>"

section \<open>Materializing an order\<close>

definition hour :: int where "hour = 60 * minute"

record OrderMaterializer =
  mat_orders :: "Order \<Rightarrow> goerr option prog"
  mat_breaker :: bool

definition NewOrderMaterializer :: "(Order \<Rightarrow> goerr option prog) \<Rightarrow> OrderMaterializer" where
  "NewOrderMaterializer orders = \<lparr>mat_orders = orders, mat_breaker = False\<rparr>"

definition WithBreaker :: "OrderMaterializer \<Rightarrow> OrderMaterializer" where
  "WithBreaker m = m\<lparr>mat_breaker := True\<rparr>"

definition order_of :: "OrderMessage \<Rightarrow> Order" where
  "order_of msg =
     \<lparr>o_ID = m_OrderID msg, o_UserID = m_UserID msg, o_ActivityID = m_ActivityID msg,
      o_ProductID = m_ProductID msg, o_Status = OrderQueued,
      o_IdempotencyToken = m_IdempotencyToken msg, o_CreatedAt = m_ProducedAt msg\<rparr>"

definition Handle :: "OrderMaterializer \<Rightarrow> OrderMessage \<Rightarrow> goerr option prog" where
  "Handle m msg =
     bindp (if mat_breaker m then CB_Do (mat_orders m (order_of msg)) else mat_orders m (order_of msg))
       (\<lambda>err.
         case err of
           Some e \<Rightarrow>
             if \<not> errors_Is e ErrOrderDuplicate then Ret (Some e)
             else Call (Redis (SET (queue_key (m_QueueToken msg)) (''success:'' @ show_int (m_OrderID msg)) hour))
                    (\<lambda>r. Ret (as_unit r))
         | None \<Rightarrow>
             Call (Redis (SET (queue_key (m_QueueToken msg)) (''success:'' @ show_int (m_OrderID msg)) hour))
                    (\<lambda>r. Ret (as_unit r)))"

definition MarkFailed :: "string \<Rightarrow> goerr \<Rightarrow> unit prog" where
  "MarkFailed queueToken reason =
     Call (Redis (SET (queue_key queueToken) (''failed:'' @ err_text reason) hour)) (\<lambda>_. Ret ())"

section \<open>The consumer loop\<close>

definition millisecond :: int where "millisecond = 1000000"

record Consumer =
  c_topic :: string
  c_handler :: "OrderMessage \<Rightarrow> goerr option prog"
  c_dlq :: "(payload \<Rightarrow> goerr \<Rightarrow> unit prog) option"
  c_maxRetries :: int

text \<open>A new consumer has no callbacks yet: calling the handler then is a call of nil, a panic.\<close>

definition consumer_New :: "string \<Rightarrow> int \<Rightarrow> Consumer" where
  "consumer_New topic maxRetries =
     \<lparr>c_topic = topic, c_handler = (\<lambda>_. Panic), c_dlq = None, c_maxRetries = maxRetries\<rparr>"

definition SetHandler :: "(OrderMessage \<Rightarrow> goerr option prog) \<Rightarrow> Consumer \<Rightarrow> Consumer" where
  "SetHandler h c = c\<lparr>c_handler := h\<rparr>"

definition SetDLQ :: "(payload \<Rightarrow> goerr \<Rightarrow> unit prog) \<Rightarrow> Consumer \<Rightarrow> Consumer" where
  "SetDLQ d c = c\<lparr>c_dlq := Some d\<rparr>"

declare consumer_New_def [simp] SetHandler_def [simp] SetDLQ_def [simp]

text \<open>
  The retry loop from attempt number \<open>attempt\<close>, with \<open>further\<close> further attempts allowed:
  sleep before every attempt but the first, stop at the first success, keep the last error.
\<close>

fun attempts_from :: "goerr option prog \<Rightarrow> nat \<Rightarrow> nat \<Rightarrow> goerr option prog" where
  "attempts_from h attempt further =
     bindp (if 0 < attempt then Call (Sleep (int attempt * (100 * millisecond))) (\<lambda>_. h) else h) (\<lambda>lastErr.
       case lastErr of
         None \<Rightarrow> Ret None
       | Some e \<Rightarrow> (case further of 0 \<Rightarrow> Ret (Some e) | Suc m \<Rightarrow> attempts_from h (Suc attempt) m))"

declare attempts_from.simps [simp del]

definition retry :: "int \<Rightarrow> goerr option prog \<Rightarrow> goerr option prog" where
  "retry maxRetries h = (if maxRetries < 0 then Ret None else attempts_from h 0 (nat maxRetries))"

definition dead_letter :: "Consumer \<Rightarrow> payload \<Rightarrow> goerr \<Rightarrow> unit prog" where
  "dead_letter c raw reason = (case c_dlq c of None \<Rightarrow> Ret () | Some dlq \<Rightarrow> dlq raw reason)"

text \<open>What happens to one fetched message: \<open>None\<close> to go on, \<open>Some err\<close> to return it.\<close>

definition process_message :: "Consumer \<Rightarrow> kmsg \<Rightarrow> goerr option prog" where
  "process_message c msg =
     (case UnmarshalOrderMessage (msg_value msg) of
        (om, Some err) \<Rightarrow>
          bindp (dead_letter c (msg_value msg) err) (\<lambda>_.
            Call (KCommit msg) (\<lambda>_. Ret None))
      | (om, None) \<Rightarrow>
          bindp (retry (c_maxRetries c) (c_handler c om)) (\<lambda>lastErr.
          bindp (case lastErr of None \<Rightarrow> Ret () | Some e \<Rightarrow> dead_letter c (msg_value msg) e) (\<lambda>_.
            Call (KCommit msg) (\<lambda>r. Ret (as_unit r)))))"

text \<open>
  \<open>Consumer.Run\<close> for at most \<open>fuel\<close> rounds; \<open>OutOfFuel\<close> is a loop still running.  The
  loop ends when the context is done or a fetch or a commit fails.
\<close>

datatype run_end = OutOfFuel | Returned "goerr option"

fun Run :: "nat \<Rightarrow> Consumer \<Rightarrow> run_end prog" where
  "Run 0 c = Ret OutOfFuel"
| "Run (Suc fuel) c =
     Call CtxDone (\<lambda>done.
       if val_bool done then Call KClose (\<lambda>r. Ret (Returned (as_unit r)))
       else Call (KFetch (c_topic c)) (\<lambda>r.
         case as_msg r of
           Inl err \<Rightarrow> Call CtxDone (\<lambda>done.
             if val_bool done then Ret (Returned None) else Ret (Returned (Some err)))
         | Inr msg \<Rightarrow> bindp (process_message c msg) (\<lambda>stop.
             case stop of None \<Rightarrow> Run fuel c | Some err \<Rightarrow> Ret (Returned (Some err)))))"

section \<open>Wiring of \<open>cmd/consumer\<close>\<close>

definition consumer_dlq :: "string \<Rightarrow> payload \<Rightarrow> goerr \<Rightarrow> unit prog" where
  "consumer_dlq DLQTopic raw reason =
     Call (CountMetric DLQTotal [err_text reason]) (\<lambda>_.
       case UnmarshalOrderMessage raw of
         (om, jerr) \<Rightarrow>
           bindp (if jerr = None \<and> m_QueueToken om \<noteq> [] then MarkFailed (m_QueueToken om) reason else Ret ())
             (\<lambda>_. if m_OrderID om \<noteq> 0 then bindp (SendOrder DLQTopic om) (\<lambda>_. Ret ()) else Ret ()))"

definition materializer :: "Switches \<Rightarrow> dbid list \<Rightarrow> OrderMaterializer" where
  "materializer sw shards =
     (let mat = NewOrderMaterializer (order_create sw shards)
      in if CircuitBreaker sw then WithBreaker mat else mat)"

definition order_consumer :: "Switches \<Rightarrow> dbid list \<Rightarrow> string \<Rightarrow> string \<Rightarrow> Consumer" where
  "order_consumer sw shards OrderTopic DLQTopic =
     SetDLQ (consumer_dlq DLQTopic) (SetHandler (Handle (materializer sw shards)) (consumer_New OrderTopic 3))"

lemma materializer_eq:
  "materializer sw shards = \<lparr>mat_orders = order_create sw shards, mat_breaker = CircuitBreaker sw\<rparr>"
  by (simp add: materializer_def NewOrderMaterializer_def WithBreaker_def Let_def)

section \<open>Calls of the consumer\<close>

lemma makes_CB_Do: "makes P fn \<Longrightarrow> P BreakerAsk \<Longrightarrow> (\<And>b. P (BreakerTell b)) \<Longrightarrow> makes P (CB_Do fn)"
  by (auto simp: CB_Do_def intro!: makes_bindp split: option.splits)

lemma makes_Handle:
  assumes "makes P (mat_orders m (order_of msg))" and "P BreakerAsk" and "\<And>b. P (BreakerTell b)"
    and "\<And>t. P (Redis (SET (queue_key (m_QueueToken msg)) (''success:'' @ show_int (m_OrderID msg)) t))"
  shows "makes P (Handle m msg)"
  unfolding Handle_def using assms
  by (intro makes_bindp) (auto simp: makes_CB_Do split: option.splits)

lemma makes_attempts_from:
  "makes P h \<Longrightarrow> (\<And>t. P (Sleep t)) \<Longrightarrow> makes P (attempts_from h attempt further)"
proof (induction h attempt further rule: attempts_from.induct)
  case (1 h attempt further)
  show ?case
    by (subst attempts_from.simps) (use 1 in \<open>auto intro!: makes_bindp split: option.splits nat.splits\<close>)
qed

lemma makes_SendOrder:
  "P InjectTrace \<Longrightarrow>
     (\<And>b hs. Marshal m = Inr b \<Longrightarrow> P (KWrite topic (show_int (m_UserID m)) b (m_ProducedAt m) hs)) \<Longrightarrow>
     makes P (SendOrder topic m)"
  by (auto simp: SendOrder_def Let_def split: sum.splits)

end
