(* ===== verification/Http.thy ===== *)
theory Http
  imports Services Json_Decode
begin

text \<open>
  The HTTP layer below the handlers: what the program uses of gin's context, and
  \<open>internal/middleware\<close>: request ids, panic recovery, metrics, rate limiting and idempotent
  replay.  A middleware is a function of the rest of the chain (\<open>c.Next\<close>).
\<close>

section \<open>Requests and responses\<close>

text \<open>
  The syntax of JSON text is a parameter: \<open>scan\<close> reads a whole text (\<open>json.Unmarshal\<close>),
  \<open>first_value\<close> the first value of a text (\<open>json.Decoder\<close>), \<open>render\<close> writes a document.
\<close>

record wire =
  scan :: "string \<Rightarrow> json option"
  first_value :: "string \<Rightarrow> json option"
  render :: "json \<Rightarrow> string"

text \<open>
  \<open>bodyWriter\<close>: a copy of the response bytes; the buffer is \<open>None\<close> while its slice is nil.
\<close>

record bodyWriter =
  bw_buf :: "string option"
  bw_max :: nat
  bw_overflow :: bool

definition bw_Write :: "bodyWriter \<Rightarrow> string \<Rightarrow> bodyWriter" where
  "bw_Write b p =
     (if bw_overflow b then b
      else let old = (case bw_buf b of None \<Rightarrow> [] | Some s \<Rightarrow> s)
           in if length old + length p > bw_max b
              then b\<lparr>bw_overflow := True, bw_buf := map_option (\<lambda>_. []) (bw_buf b)\<rparr>
              else if p = [] then b
              else b\<lparr>bw_buf := Some (old @ p)\<rparr>)"

text \<open>
  The context of one request: what came in (\<open>cx_Body\<close> is what reading the body yields), the
  values stored in it, and the response written so far.
\<close>

record Ctx =
  cx_RequestIdHeader :: string
  cx_UserIdHeader :: string
  cx_Body :: "goerr + string"
  cx_Param :: string
  cx_FullPath :: string
  cx_requestIDKey :: "string option"
  cx_Header :: "string \<rightharpoonup> string"
  cx_Status :: int
  cx_Written :: string
  cx_bodyWriter :: "bodyWriter option"

type_synonym handler = "Ctx \<Rightarrow> Ctx prog"

definition new_ctx :: "string \<Rightarrow> string \<Rightarrow> goerr + string \<Rightarrow> string \<Rightarrow> Ctx" where
  "new_ctx rid user body param =
     \<lparr>cx_RequestIdHeader = rid, cx_UserIdHeader = user, cx_Body = body, cx_Param = param,
      cx_FullPath = [], cx_requestIDKey = None, cx_Header = Map.empty, cx_Status = 200,
      cx_Written = [], cx_bodyWriter = None\<rparr>"

definition set_header :: "string \<Rightarrow> string \<Rightarrow> Ctx \<Rightarrow> Ctx" where
  "set_header k v c = c\<lparr>cx_Header := (cx_Header c)(k \<mapsto> v)\<rparr>"

definition write_status :: "int \<Rightarrow> Ctx \<Rightarrow> Ctx" where
  "write_status code c = (if 0 < code \<and> cx_Written c = [] then c\<lparr>cx_Status := code\<rparr> else c)"

definition write_bytes :: "string \<Rightarrow> Ctx \<Rightarrow> Ctx" where
  "write_bytes p c =
     c\<lparr>cx_Written := cx_Written c @ p,
       cx_bodyWriter := map_option (\<lambda>b. bw_Write b p) (cx_bodyWriter c)\<rparr>"

definition c_JSON :: "wire \<Rightarrow> int \<Rightarrow> json \<Rightarrow> Ctx \<Rightarrow> Ctx" where
  "c_JSON W code doc c = write_bytes (render W doc) (write_status code c)"

section \<open>Request ids, recovery, metrics\<close>

definition RequestIDFrom :: "Ctx \<Rightarrow> string" where
  "RequestIDFrom c = (case cx_requestIDKey c of None \<Rightarrow> [] | Some s \<Rightarrow> s)"

definition RequestIDHeader :: string where "RequestIDHeader = ''X-Request-Id''"

definition RequestID :: "handler \<Rightarrow> handler" where
  "RequestID nxt c =
     (let go = (\<lambda>rid. nxt (set_header RequestIDHeader rid (c\<lparr>cx_requestIDKey := Some rid\<rparr>)))
      in if cx_RequestIdHeader c = []
         then Call NewUUID (\<lambda>r. case as_str r of Inl _ \<Rightarrow> Panic | Inr rid \<Rightarrow> go rid)
         else go (cx_RequestIdHeader c))"

definition error_doc :: "Ctx \<Rightarrow> string \<Rightarrow> string \<Rightarrow> json" where
  "error_doc c code msg =
     JObj [(''error'', JObj [(''code'', JStr code), (''message'', JStr msg),
                             (''request_id'', JStr (RequestIDFrom c))])]"

text \<open>
  \<open>Recovery\<close> answers a panic of the rest of the chain with a fixed 500.  Nothing in the chain
  writes before a panic, so the answer is built from the context it was entered with.
\<close>

definition Recovery :: "wire \<Rightarrow> handler \<Rightarrow> handler" where
  "Recovery W nxt c =
     recover (Ret (c_JSON W 500 (error_doc c ''INTERNAL'' ''internal error'') c)) (nxt c)"

definition Metrics_mw :: "handler \<Rightarrow> handler" where
  "Metrics_mw nxt c =
     Call Now (\<lambda>start. bindp (nxt c) (\<lambda>c'. Call Now (\<lambda>stop.
       let route = (if cx_FullPath c' = [] then ''unknown'' else cx_FullPath c')
       in Call (CountMetric HTTPDuration [route, show_int (cx_Status c')])
            (\<lambda>_. Ret c'))))"

section \<open>Rate limiting\<close>

definition rate_window :: int where "rate_window = 60 * 1000000000"

definition writeRateLimit :: "wire \<Rightarrow> string \<Rightarrow> Ctx \<Rightarrow> Ctx" where
  "writeRateLimit W scope c =
     c_JSON W 429 (error_doc c ''RATE_LIMITED'' (''rate limited at '' @ scope)) c"

definition RateLimit_mw :: "wire \<Rightarrow> int \<Rightarrow> handler \<Rightarrow> handler" where
  "RateLimit_mw W perUserPerMin nxt c =
     Call LimiterAllow (\<lambda>allowed.
       if \<not> val_bool allowed
       then Call (CountMetric RateLimitTotal [''global''])
              (\<lambda>_. Ret (writeRateLimit W ''global'' c))
       else let userID = cx_UserIdHeader c
            in if userID = [] then nxt c
               else Call (Redis (INCR (ratelimit_key userID))) (\<lambda>r.
                 case as_int r of
                   Inl err \<Rightarrow> nxt c
                 | Inr cur \<Rightarrow>
                     bindp (if cur = 1
                            then Call (Redis (EXPIRE (ratelimit_key userID) rate_window)) (\<lambda>_. Ret ())
                            else Ret ()) (\<lambda>_.
                       if cur > perUserPerMin
                       then Call (CountMetric RateLimitTotal [''per_user''])
                              (\<lambda>_. Ret (writeRateLimit W ''per_user'' (set_header ''Retry-After'' ''60'' c)))
                       else nxt c)))"

section \<open>Idempotent replay\<close>

definition idemTTL :: int where "idemTTL = 24 * 3600 * 1000000000"
definition maxBodyBytes :: nat where "maxBodyBytes = 4 * 1024"
definition maxCachedBody :: nat where "maxCachedBody = 16 * 1024"

record Probe =
  p_ActivityID :: int
  p_UserID :: int
  p_IdempotencyToken :: string

definition decode_probe :: "string \<Rightarrow> json \<Rightarrow> Probe \<Rightarrow> Probe decoded" where
  "decode_probe key v p =
     (if field_is key ''activity_id'' then decode_int v (\<lambda>i. p\<lparr>p_ActivityID := i\<rparr>) p
      else if field_is key ''user_id'' then decode_int v (\<lambda>i. p\<lparr>p_UserID := i\<rparr>) p
      else if field_is key ''idempotency_token'' then decode_str v (\<lambda>s. p\<lparr>p_IdempotencyToken := s\<rparr>) p
      else Stored p)"

definition zero_probe :: Probe where
  "zero_probe = \<lparr>p_ActivityID = 0, p_UserID = 0, p_IdempotencyToken = []\<rparr>"

definition payload_of :: "(string \<Rightarrow> json option) \<Rightarrow> string \<Rightarrow> payload" where
  "payload_of read s = (case read s of None \<Rightarrow> Malformed s | Some j \<Rightarrow> Valid j)"

text \<open>
  The cached response: a map with the status and the raw body, which \<open>json.Marshal\<close> writes as
  one document when the buffered bytes are JSON (a nil buffer is \<open>null\<close>); its error is
  ignored, and the empty text is stored.  Reading it back, a raw message takes any value.
\<close>

record Cached =
  ca_Status :: int
  ca_Body :: "json option"

definition cached_text :: "wire \<Rightarrow> int \<Rightarrow> string option \<Rightarrow> string" where
  "cached_text W status buf =
     (case (case buf of None \<Rightarrow> Some JNull | Some s \<Rightarrow> scan W s) of
        None \<Rightarrow> []
      | Some doc \<Rightarrow> render W (JObj [(''body'', doc), (''status'', JNum status)]))"

definition decode_cached :: "string \<Rightarrow> json \<Rightarrow> Cached \<Rightarrow> Cached decoded" where
  "decode_cached key v x =
     (if field_is key ''status'' then decode_int v (\<lambda>i. x\<lparr>ca_Status := i\<rparr>) x
      else if field_is key ''body'' then Stored (x\<lparr>ca_Body := Some v\<rparr>)
      else Stored x)"

definition idem_replay :: "wire \<Rightarrow> string \<Rightarrow> handler" where
  "idem_replay W v c =
     (case Unmarshal decode_cached \<lparr>ca_Status = 0, ca_Body = None\<rparr> (payload_of (scan W) v) of
        (_, Some jerr) \<Rightarrow> Ret (c_JSON W 500 (error_doc c ''INTERNAL'' ''internal error'') c)
      | (cached, None) \<Rightarrow>
          Call (CountMetric IdempotentReplayTotal []) (\<lambda>_.
            Ret (write_bytes (case ca_Body cached of None \<Rightarrow> [] | Some doc \<Rightarrow> render W doc)
                   (write_status (ca_Status cached) c))))"

definition idem_hit :: "wire \<Rightarrow> string \<Rightarrow> handler \<Rightarrow> handler" where
  "idem_hit W key nxt c =
     Call (Redis (GET key)) (\<lambda>r.
       case as_str r of
         Inl gerr \<Rightarrow>
           if errors_Is gerr RedisNil then nxt c
           else Ret (c_JSON W 500 (error_doc c ''INTERNAL'' ''internal error'') c)
       | Inr v \<Rightarrow>
           if v = ''processing''
           then Ret (c_JSON W 409 (error_doc c ''IDEMPOTENT_REPLAY'' ''still processing'')
                       (set_header ''Retry-After'' ''1'' c))
           else idem_replay W v c)"

definition idem_first :: "wire \<Rightarrow> string \<Rightarrow> handler \<Rightarrow> handler" where
  "idem_first W key nxt c =
     bindp (nxt (c\<lparr>cx_bodyWriter := Some \<lparr>bw_buf = None, bw_max = maxCachedBody, bw_overflow = False\<rparr>\<rparr>))
       (\<lambda>c'. Call (Redis (SET key
                (cached_text W (cx_Status c') (Option.bind (cx_bodyWriter c') bw_buf)) idemTTL))
              (\<lambda>_. Ret c'))"

definition Idempotency_mw :: "wire \<Rightarrow> handler \<Rightarrow> handler" where
  "Idempotency_mw W nxt c =
     (case cx_Body c of
        Inl err \<Rightarrow> Ret (c_JSON W 413 (error_doc c ''BODY_TOO_LARGE'' ''body exceeds 4096 bytes'') c)
      | Inr body \<Rightarrow>
          if length body > maxBodyBytes
          then Ret (c_JSON W 413 (error_doc c ''BODY_TOO_LARGE'' ''body exceeds 4096 bytes'') c)
          else case Unmarshal decode_probe zero_probe (payload_of (scan W) body) of
            (probe, jerr) \<Rightarrow>
              if jerr \<noteq> None \<or> p_IdempotencyToken probe = [] then nxt c
              else let key = idem_key (p_ActivityID probe) (p_UserID probe) (p_IdempotencyToken probe)
                   in Call (Redis (SETNX key ''processing'' idemTTL)) (\<lambda>r.
                        case as_bool r of
                          Inl serr \<Rightarrow> nxt c
                        | Inr won \<Rightarrow> if \<not> won then idem_hit W key nxt c else idem_first W key nxt c))"

end
