(* ===== verification/Operations.thy ===== *)
theory Operations
  imports Stock_Repo Order_Repo Messages
begin

text \<open>
  \<open>internal/service/admin.go\<close> and \<open>internal/service/reconcile.go\<close>: creating and warming an
  activity, and the sweeper that compares the stock in Redis with the rows in MySQL.
\<close>

section \<open>Administration\<close>

definition AdminService_Create :: "Activity \<Rightarrow> goerr option prog" where
  "AdminService_Create a = activityRepo_Create a"

definition warm_ttl :: int where "warm_ttl = 24 * 3600 * 1000000000"

definition AdminService_Warm :: "int \<Rightarrow> (goerr + int) prog" where
  "AdminService_Warm i =
     bindp (activityRepo_GetByID i) (\<lambda>found.
       case found of
         Inl err \<Rightarrow> Ret (Inl err)
       | Inr a \<Rightarrow>
           Call (Redis (SET (stock_key i) (show_int (a_TotalStock a)) warm_ttl)) (\<lambda>r.
             case as_unit r of
               Some err \<Rightarrow> Ret (Inl err)
             | None \<Rightarrow> Ret (Inr (a_TotalStock a))))"

record AdminService =
  adm_Create :: "Activity \<Rightarrow> goerr option prog"
  adm_Warm :: "int \<Rightarrow> (goerr + int) prog"

definition NewAdmin :: AdminService where
  "NewAdmin = \<lparr>adm_Create = AdminService_Create, adm_Warm = AdminService_Warm\<rparr>"

declare NewAdmin_def [simp]

section \<open>Reconciliation\<close>

record ReconcileService =
  rs_shards :: "dbid list"
  rs_db :: dbid

record Finding =
  f_ActivityID :: int
  f_InitStock :: int
  f_Redis :: int
  f_OrdersCount :: int
  f_Drift :: int

fun count_shards :: "dbid list \<Rightarrow> int \<Rightarrow> nat \<Rightarrow> int \<Rightarrow> (goerr + int) prog" where
  "count_shards [] activityID i subtotal = Ret (Inr subtotal)"
| "count_shards (d # dbs) activityID i subtotal =
     Call (Sql d (CountOrders activityID)) (\<lambda>r.
       case as_int r of
         Inl err \<Rightarrow> Ret (Inl (Wrap (''shard '' @ show_nat i @ '' count'') err))
       | Inr n \<Rightarrow> count_shards dbs activityID (Suc i) (add64 subtotal n))"

definition counted_dbs :: "ReconcileService \<Rightarrow> dbid list" where
  "counted_dbs s = (if rs_shards s = [] then [rs_db s] else rs_shards s)"

definition countOrders :: "ReconcileService \<Rightarrow> int \<Rightarrow> (goerr + int) prog" where
  "countOrders s activityID = count_shards (counted_dbs s) activityID 0 0"

text \<open>\<open>Get(...).Int()\<close>: the value of the key as a decimal 64-bit integer.\<close>

definition redis_Int :: "reply \<Rightarrow> goerr + int" where
  "redis_Int r =
     (case as_str r of
        Inl err \<Rightarrow> Inl err
      | Inr v \<Rightarrow> (case ParseInt v of
          None \<Rightarrow> Inl (GoErr ''strconv.Atoi: invalid syntax'') | Some i \<Rightarrow> Inr i))"

definition Check :: "ReconcileService \<Rightarrow> int \<Rightarrow> (goerr + Finding) prog" where
  "Check s activityID =
     bindp (activityRepo_GetByID activityID) (\<lambda>found.
       case found of
         Inl err \<Rightarrow> Ret (Inl err)
       | Inr a \<Rightarrow>
           Call (Redis (GET (stock_key activityID))) (\<lambda>r.
             case redis_Int r of
               Inl err \<Rightarrow> Ret (Inl (Wrap (''redis get stock:'' @ show_int activityID) err))
             | Inr rem \<Rightarrow>
                 bindp (countOrders s activityID) (\<lambda>counted.
                   case counted of
                     Inl err \<Rightarrow> Ret (Inl err)
                   | Inr cnt \<Rightarrow>
                       Ret (Inr \<lparr>f_ActivityID = activityID, f_InitStock = a_TotalStock a,
                         f_Redis = rem, f_OrdersCount = cnt,
                         f_Drift = sub64 (a_TotalStock a) (add64 rem cnt)\<rparr>))))"

fun tick :: "ReconcileService \<Rightarrow> int list \<Rightarrow> unit prog" where
  "tick s [] = Ret ()"
| "tick s (i # ids) =
     bindp (Check s i) (\<lambda>checked.
       case checked of
         Inl err \<Rightarrow> tick s ids
       | Inr f \<Rightarrow>
           if f_Drift f \<noteq> 0
           then Call (CountMetric DLQTotal [''stock_drift_'' @ show_int (f_ActivityID f)])
                  (\<lambda>_. tick s ids)
           else tick s ids)"

text \<open>
  \<open>ReconcileService.Run\<close> for at most \<open>fuel\<close> rounds of its \<open>select\<close>: the context is done, or
  the ticker fired.  The result says whether it returned.
\<close>

fun reconcile_rounds :: "nat \<Rightarrow> ReconcileService \<Rightarrow> int list \<Rightarrow> bool prog" where
  "reconcile_rounds 0 s ids = Ret False"
| "reconcile_rounds (Suc fuel) s ids =
     Call CtxDone (\<lambda>r. if val_bool r then Ret True
                       else bindp (tick s ids) (\<lambda>_. reconcile_rounds fuel s ids))"

definition reconcile_Run :: "nat \<Rightarrow> ReconcileService \<Rightarrow> int list \<Rightarrow> bool prog" where
  "reconcile_Run fuel s ids = bindp (tick s ids) (\<lambda>_. reconcile_rounds fuel s ids)"

section \<open>Lookups\<close>

lemma as_activity_Inr: "as_activity r = Inr a \<longleftrightarrow> r = RActivity a"
  by (cases r) (simp_all add: as_activity_def)

lemma GetByID_performs:
  "performs (activityRepo_GetByID i) es (Some (Inr a)) \<longleftrightarrow> es = [(Sql MainDB (SelectActivity i), RActivity a)]"
proof
  assume "performs (activityRepo_GetByID i) es (Some (Inr a))"
  then show "es = [(Sql MainDB (SelectActivity i), RActivity a)]"
    by (auto simp: activityRepo_GetByID_def as_activity_Inr split: sum.splits if_splits)
qed (auto simp: activityRepo_GetByID_def performs_Call)

lemma makes_GetByID: "P (Sql MainDB (SelectActivity i)) \<Longrightarrow> makes P (activityRepo_GetByID i)"
  by (auto simp: activityRepo_GetByID_def split: sum.splits)

text \<open>On a reliable service, a lookup reads the table.\<close>

lemma run_GetByID:
  "run S (activityRepo_GetByID i) w =
     (case S (Sql MainDB (SelectActivity i)) w of (r, w') \<Rightarrow>
        (Some (case as_activity r of
           Inl err \<Rightarrow> if errors_Is err ErrNoRows then Inl ErrActivityNotFound else Inl err
         | Inr row \<Rightarrow> Inr row), w'))"
  by (simp add: activityRepo_GetByID_def split: prod.splits sum.splits)

section \<open>What the sweeper sees\<close>

text \<open>The sweeper only reads: a read-only call changes neither keyspace, tables nor logs.\<close>

fun read_only :: "call \<Rightarrow> bool" where
  "read_only (Redis (GET _)) = True"
| "read_only (Redis _) = False"
| "read_only (Sql _ (SelectActivity _)) = True"
| "read_only (Sql _ (SelectTotalStock _)) = True"
| "read_only (Sql _ (SelectOrder _ _)) = True"
| "read_only (Sql _ (CountOrders _)) = True"
| "read_only (Sql _ _) = False"
| "read_only c = local_call c"

context services begin

lemma read_only_frame:
  assumes "read_only c" and S: "S c w = (r, w')"
  shows "ks w' = ks w \<and> tbl w' = tbl w \<and> log w' = log w"
proof (cases c)
  case (Redis rc)
  then obtain k where "rc = GET k" using assms(1) by (cases rc) auto
  then show ?thesis using redis_call [of rc w r w'] S Redis by (auto simp: redis_law_def)
next
  case (Sql d s)
  have "\<exists>r0. sql_sem coll dt s t = Some (r0, t)" for t
    using assms(1) Sql by (cases s) auto
  then obtain r0 where sem: "sql_sem coll dt s (tbl w d) = Some (r0, tbl w d)" by blast
  show ?thesis
    using sql_call [of d s w r w'] S Sql by (auto simp: sql_law_def sem)
qed (use assms local_frame [OF S] in auto)

lemma run_read_only:
  assumes "makes read_only p"
  shows "ks (snd (run S p w)) = ks w \<and> tbl (snd (run S p w)) = tbl w \<and> log (snd (run S p w)) = log w"
  by (rule run_invariant [where P = read_only and I = "\<lambda>v. ks v = ks w \<and> tbl v = tbl w \<and> log v = log w"])
     (use assms read_only_frame in auto)

end

lemma makes_count_shards:
  "(\<And>d. P (Sql d (CountOrders a))) \<Longrightarrow> makes P (count_shards dbs a i subtotal)"
  by (induction dbs a i subtotal rule: count_shards.induct) (auto split: sum.splits)

lemma makes_Check:
  assumes "P (Sql MainDB (SelectActivity a))" "P (Redis (GET (stock_key a)))"
    "\<And>d. P (Sql d (CountOrders a))"
  shows "makes P (Check s a)"
  unfolding Check_def countOrders_def using assms
  by (intro makes_bindp makes_GetByID)
     (auto intro!: makes_bindp makes_count_shards split: sum.splits)

lemma makes_tick:
  assumes "\<And>a. P (Sql MainDB (SelectActivity a))" "\<And>a. P (Redis (GET (stock_key a)))"
    "\<And>d a. P (Sql d (CountOrders a))" "\<And>v. P (CountMetric DLQTotal [v])"
  shows "makes P (tick s ids)"
  by (induction s ids rule: tick.induct)
     (auto intro!: makes_bindp makes_Check assms split: sum.splits)

lemma makes_reconcile_rounds:
  assumes "makes P (tick s ids)" and "P CtxDone"
  shows "makes P (reconcile_rounds fuel s ids)"
  using assms by (induction fuel) (auto intro!: makes_bindp)

lemma makes_reconcile_Run:
  assumes "makes P (tick s ids)" and "P CtxDone"
  shows "makes P (reconcile_Run fuel s ids)"
  unfolding reconcile_Run_def using assms by (intro makes_bindp makes_reconcile_rounds)

text \<open>The rows of an activity over the databases that are counted.\<close>

definition rows_of :: "(dbid \<Rightarrow> tables) \<Rightarrow> dbid list \<Rightarrow> int \<Rightarrow> int" where
  "rows_of t dbs a = (\<Sum>d\<leftarrow>dbs. int (length (filter (\<lambda>x. o_ActivityID x = a) (orders_0 (t d)))))"

lemma rows_of_nonneg: "0 \<le> rows_of t dbs a"
  by (induction dbs) (auto simp: rows_of_def)

context reliable_services begin

lemma run_count_shards:
  assumes "0 \<le> subtotal" and "in64 (subtotal + rows_of (tbl w) dbs a)"
  shows "\<exists>w'. run S (count_shards dbs a i subtotal) w = (Some (Inr (subtotal + rows_of (tbl w) dbs a)), w') \<and>
     ks w' = ks w \<and> tbl w' = tbl w \<and> log w' = log w"
  using assms
proof (induction dbs arbitrary: i subtotal w)
  case (Cons d dbs)
  obtain r w1 where S: "S (Sql d (CountOrders a)) w = (r, w1)" by (cases "S (Sql d (CountOrders a)) w")
  let ?n = "int (length (filter (\<lambda>x. o_ActivityID x = a) (orders_0 (tbl w d))))"
  have r: "r = RInt ?n" using sql_ok [OF S] by simp
  have frame: "ks w1 = ks w \<and> tbl w1 = tbl w \<and> log w1 = log w"
    using read_only_frame [OF _ S] by simp
  have sum: "subtotal + rows_of (tbl w) (d # dbs) a = (subtotal + ?n) + rows_of (tbl w) dbs a"
    by (simp add: rows_of_def)
  have "in64 (subtotal + ?n)"
    using Cons.prems rows_of_nonneg [of "tbl w" dbs a] unfolding sum by (auto simp: in64_def)
  then have add: "add64 subtotal ?n = subtotal + ?n" by (rule add64_exact)
  from Cons.IH [of "subtotal + ?n" w1 "Suc i"] Cons.prems frame show ?case
    unfolding sum by (auto simp: S r add)
qed (simp add: rows_of_def)

text \<open>A lookup on a reliable service.\<close>

lemma run_lookup:
  "\<exists>w'. run S (activityRepo_GetByID a) w =
      (Some (case activities (tbl w MainDB) a of None \<Rightarrow> Inl ErrActivityNotFound | Some x \<Rightarrow> Inr x), w') \<and>
     ks w' = ks w \<and> tbl w' = tbl w \<and> log w' = log w"
proof -
  obtain r w1 where S: "S (Sql MainDB (SelectActivity a)) w = (r, w1)"
    by (cases "S (Sql MainDB (SelectActivity a)) w")
  have "ks w1 = ks w \<and> tbl w1 = tbl w \<and> log w1 = log w" using read_only_frame [OF _ S] by simp
  then show ?thesis
    using sql_ok [OF S] by (auto simp: run_GetByID S split: option.splits)
qed

lemma run_Check:
  assumes act: "activities (tbl w MainDB) a = Some act" and stock: "stock_left (ks w) a = Some s"
    and bounds: "0 \<le> s" "in64 (s + rows_of (tbl w) (counted_dbs sv) a)" "in64 (a_TotalStock act)"
      "0 \<le> a_TotalStock act"
  shows "fst (run S (Check sv a) w) = Some (Inr
    \<lparr>f_ActivityID = a, f_InitStock = a_TotalStock act, f_Redis = s,
     f_OrdersCount = rows_of (tbl w) (counted_dbs sv) a,
     f_Drift = a_TotalStock act - (s + rows_of (tbl w) (counted_dbs sv) a)\<rparr>)"
proof -
  let ?rows = "rows_of (tbl w) (counted_dbs sv) a"
  obtain w1 where w1: "run S (activityRepo_GetByID a) w = (Some (Inr act), w1)"
    "ks w1 = ks w" "tbl w1 = tbl w"
    using run_lookup [of a w] act by auto
  obtain r w2 where S2: "S (Redis (GET (stock_key a))) w1 = (r, w2)"
    by (cases "S (Redis (GET (stock_key a))) w1")
  have frame2: "tbl w2 = tbl w" using read_only_frame [OF _ S2] w1 by simp
  have redis: "redis_Int r = Inr s"
    using redis_ok [OF S2] w1 stock
    by (auto simp: redis_Int_def stock_left_def split: option.splits)
  have "in64 (0 + rows_of (tbl w2) (counted_dbs sv) a)"
    using bounds rows_of_nonneg [of "tbl w" "counted_dbs sv" a] frame2 by (auto simp: in64_def)
  from run_count_shards [OF order_refl this, of 0]
  obtain w3 where w3: "run S (countOrders sv a) w2 = (Some (Inr ?rows), w3)"
    using frame2 by (auto simp: countOrders_def)
  have "in64 (a_TotalStock act - (s + ?rows))"
    using bounds rows_of_nonneg [of "tbl w" "counted_dbs sv" a] by (auto simp: in64_def)
  then show ?thesis
    using bounds by (simp add: Check_def run_bindp w1 S2 redis w3 add64_exact sub64_exact)
qed

text \<open>After a warm-up the keyspace holds the activity's total stock.\<close>

lemma run_Warm:
  assumes "activities (tbl w MainDB) a = Some act" and "in64 (a_TotalStock act)"
  shows "\<exists>w'. run S (AdminService_Warm a) w = (Some (Inr (a_TotalStock act)), w') \<and>
     stock_left (ks w') = (stock_left (ks w))(a \<mapsto> a_TotalStock act) \<and> tbl w' = tbl w \<and> log w' = log w"
proof -
  obtain w1 where w1: "run S (activityRepo_GetByID a) w = (Some (Inr act), w1)"
    "ks w1 = ks w" "tbl w1 = tbl w" "log w1 = log w"
    using run_lookup [of a w] assms by auto
  obtain r w2 where S2: "S (Redis (SET (stock_key a) (show_int (a_TotalStock act)) warm_ttl)) w1 = (r, w2)"
    by (cases "S (Redis (SET (stock_key a) (show_int (a_TotalStock act)) warm_ttl)) w1")
  have ks2: "r = ROk" "ks w2 = (ks w)(stock_key a \<mapsto> (show_int (a_TotalStock act), Some warm_ttl))"
    using redis_ok [OF S2] w1 by (auto simp: warm_ttl_def)
  have "stock_left (ks w2) = (stock_left (ks w))(a \<mapsto> a_TotalStock act)"
    by (rule ext) (simp add: ks2 stock_left_def key_simps ParseInt_show_int assms(2))
  moreover have "tbl w2 = tbl w \<and> log w2 = log w"
    using redis_call [OF S2] w1 by auto
  ultimately show ?thesis
    by (auto simp: AdminService_Warm_def run_bindp w1 S2 ks2(1))
qed

end

end
