(* ===== verification/Handlers.thy ===== *)
theory Handlers
  imports Http Seckill_Service Operations
begin

text \<open>
  \<open>internal/handler\<close> and the route table of \<open>cmd/api/main.go\<close>: from an HTTP request to the
  service and back to a status and a JSON document.
\<close>

section \<open>Request bodies\<close>

text \<open>
  \<open>ShouldBindJSON\<close> decodes the first value of the body, then validates the \<open>required\<close> tags;
  the error text of a missing field names it.
\<close>

definition decode_request :: "string \<Rightarrow> json \<Rightarrow> SeckillRequest \<Rightarrow> SeckillRequest decoded" where
  "decode_request key v q =
     (if field_is key ''activity_id'' then decode_int v (\<lambda>i. q\<lparr>rq_ActivityID := i\<rparr>) q
      else if field_is key ''user_id'' then decode_int v (\<lambda>i. q\<lparr>rq_UserID := i\<rparr>) q
      else if field_is key ''idempotency_token'' then decode_str v (\<lambda>s. q\<lparr>rq_IdempotencyToken := s\<rparr>) q
      else Stored q)"

definition zero_request :: SeckillRequest where
  "zero_request = \<lparr>rq_ActivityID = 0, rq_UserID = 0, rq_IdempotencyToken = []\<rparr>"

definition quoted :: "string \<Rightarrow> string" where
  "quoted s = [CHR 0x27] @ s @ [CHR 0x27]"

definition required_error :: "string \<Rightarrow> string" where
  "required_error field =
     ''Key: '' @ quoted (''SeckillRequest.'' @ field) @ '' Error:Field validation for '' @
     quoted field @ '' failed on the '' @ quoted ''required'' @ '' tag''"

fun join_lines :: "string list \<Rightarrow> string" where
  "join_lines [] = []"
| "join_lines [l] = l"
| "join_lines (l # ls) = l @ [CHR 0x0A] @ join_lines ls"

definition missing_fields :: "SeckillRequest \<Rightarrow> string list" where
  "missing_fields q =
     (if rq_ActivityID q = 0 then [''ActivityID''] else []) @
     (if rq_UserID q = 0 then [''UserID''] else []) @
     (if rq_IdempotencyToken q = [] then [''IdempotencyToken''] else [])"

definition bind_request :: "wire \<Rightarrow> Ctx \<Rightarrow> goerr + SeckillRequest" where
  "bind_request W c =
     (case cx_Body c of
        Inl err \<Rightarrow> Inl err
      | Inr body \<Rightarrow>
          (case Unmarshal decode_request zero_request (payload_of (first_value W) body) of
             (_, Some err) \<Rightarrow> Inl err
           | (q, None) \<Rightarrow>
               if missing_fields q = [] then Inr q
               else Inl (GoErr (join_lines (map required_error (missing_fields q))))))"

definition int8 :: "int \<Rightarrow> bool" where "int8 i \<longleftrightarrow> - 128 \<le> i \<and> i < 128"

definition decode_activity :: "string \<Rightarrow> json \<Rightarrow> Activity \<Rightarrow> Activity decoded" where
  "decode_activity key v a =
     (if field_is key ''id'' then decode_int v (\<lambda>i. a\<lparr>a_ID := i\<rparr>) a
      else if field_is key ''product_id'' then decode_int v (\<lambda>i. a\<lparr>a_ProductID := i\<rparr>) a
      else if field_is key ''total_stock'' then decode_int v (\<lambda>i. a\<lparr>a_TotalStock := i\<rparr>) a
      else if field_is key ''start_at'' then decode_time v (\<lambda>t. a\<lparr>a_StartAt := t\<rparr>) a
      else if field_is key ''end_at'' then decode_time v (\<lambda>t. a\<lparr>a_EndAt := t\<rparr>) a
      else if field_is key ''per_user_limit'' then decode_int v (\<lambda>i. a\<lparr>a_PerUserLimit := i\<rparr>) a
      else if field_is key ''status'' then decode_num int8 v (\<lambda>i. a\<lparr>a_Status := i\<rparr>) a
      else Stored a)"

definition zero_activity :: Activity where
  "zero_activity = \<lparr>a_ID = 0, a_ProductID = 0, a_TotalStock = 0, a_StartAt = zero_time,
     a_EndAt = zero_time, a_PerUserLimit = 0, a_Status = 0\<rparr>"

definition bind_activity :: "wire \<Rightarrow> Ctx \<Rightarrow> goerr + Activity" where
  "bind_activity W c =
     (case cx_Body c of
        Inl err \<Rightarrow> Inl err
      | Inr body \<Rightarrow>
          (case Unmarshal decode_activity zero_activity (payload_of (first_value W) body) of
             (_, Some err) \<Rightarrow> Inl err
           | (a, None) \<Rightarrow> Inr a))"

section \<open>Handlers\<close>

definition writeError :: "wire \<Rightarrow> int \<Rightarrow> string \<Rightarrow> string \<Rightarrow> Ctx \<Rightarrow> Ctx" where
  "writeError W status code msg c =
     (let publicMsg = (if status \<ge> 500 then ''internal error'' else msg)
      in c_JSON W status (error_doc c code publicMsg) c)"

definition seckill_response :: "wire \<Rightarrow> SeckillOutput \<times> goerr option \<Rightarrow> Ctx \<Rightarrow> Ctx" where
  "seckill_response W res c =
     (case res of (out, err) \<Rightarrow>
        if err \<noteq> None \<and> out_Outcome out = OutcomeInternal
        then writeError W 500 ''INTERNAL'' (err_text (the err)) c
        else (case out_Outcome out of
            OutcomeQueued \<Rightarrow>
              c_JSON W 202 (JObj [(''queue_token'', JStr (out_QueueToken out)),
                                  (''remaining'', JNum (out_Remaining out)),
                                  (''status'', JStr (String (out_Outcome out)))]) c
          | OutcomeSoldOut \<Rightarrow> writeError W 410 ''STOCK_NOT_ENOUGH'' ''sold out'' c
          | OutcomeUserLimit \<Rightarrow> writeError W 409 ''USER_LIMIT_EXCEEDED'' ''per-user limit hit'' c
          | OutcomeDuplicate \<Rightarrow> writeError W 409 ''IDEMPOTENT_REPLAY'' ''duplicate token'' c
          | OutcomeNotStarted \<Rightarrow> writeError W 403 ''ACTIVITY_NOT_STARTED'' ''activity not started'' c
          | OutcomeEnded \<Rightarrow> writeError W 410 ''ACTIVITY_ENDED'' ''activity ended'' c
          | OutcomeNotFound \<Rightarrow> writeError W 404 ''NOT_FOUND'' ''activity not found'' c
          | _ \<Rightarrow> writeError W 500 ''INTERNAL'' ''unknown outcome'' c))"

definition handler_Seckill ::
  "wire \<Rightarrow> (SeckillRequest \<Rightarrow> (SeckillOutput \<times> goerr option) prog) \<Rightarrow> handler" where
  "handler_Seckill W svc c =
     (case bind_request W c of
        Inl err \<Rightarrow> Ret (writeError W 400 ''BAD_REQUEST'' (err_text err) c)
      | Inr req \<Rightarrow> bindp (svc req) (\<lambda>res. Ret (seckill_response W res c)))"

definition order_state_doc :: "string \<Rightarrow> string \<Rightarrow> json" where
  "order_state_doc token state =
     (if state = ''queued'' then JObj [(''queue_token'', JStr token), (''state'', JStr ''queued'')]
      else if HasPrefix state ''success:''
      then JObj [(''order_id'', JStr (TrimPrefix state ''success:'')),
                 (''queue_token'', JStr token), (''state'', JStr ''success'')]
      else if HasPrefix state ''failed:''
      then JObj [(''queue_token'', JStr token), (''reason'', JStr (TrimPrefix state ''failed:'')),
                 (''state'', JStr ''failed'')]
      else if state = ''not_found''
      then JObj [(''queue_token'', JStr token), (''state'', JStr ''not_found'')]
      else JObj [(''queue_token'', JStr token), (''state'', JStr state)])"

definition OrderByToken :: "wire \<Rightarrow> (string \<Rightarrow> (goerr + string) prog) \<Rightarrow> handler" where
  "OrderByToken W get c =
     (let token = cx_Param c
      in if token = [] then Ret (writeError W 400 ''BAD_REQUEST'' ''token required'' c)
         else bindp (get token) (\<lambda>found.
           case found of
             Inl err \<Rightarrow> Ret (writeError W 500 ''INTERNAL'' (err_text err) c)
           | Inr state \<Rightarrow> Ret (c_JSON W 200 (order_state_doc token state) c)))"

definition AdminCreateActivity :: "wire \<Rightarrow> (Activity \<Rightarrow> goerr option prog) \<Rightarrow> handler" where
  "AdminCreateActivity W create c =
     (case bind_activity W c of
        Inl err \<Rightarrow> Ret (writeError W 400 ''BAD_REQUEST'' (err_text err) c)
      | Inr a \<Rightarrow> bindp (create a) (\<lambda>res.
          case res of
            Some err \<Rightarrow> Ret (writeError W 500 ''INTERNAL'' (err_text err) c)
          | None \<Rightarrow> Ret (c_JSON W 201 (JObj [(''id'', JNum (a_ID a))]) c)))"

definition AdminWarmActivity :: "wire \<Rightarrow> (int \<Rightarrow> (goerr + int) prog) \<Rightarrow> handler" where
  "AdminWarmActivity W warm c =
     (case ParseInt (cx_Param c) of
        None \<Rightarrow> Ret (writeError W 400 ''BAD_REQUEST'' ''bad id'' c)
      | Some i \<Rightarrow> bindp (warm i) (\<lambda>res.
          case res of
            Inl err \<Rightarrow> Ret (writeError W 500 ''INTERNAL'' (err_text err) c)
          | Inr warmed \<Rightarrow> Ret (c_JSON W 200 (JObj [(''warmed_stock'', JNum warmed)]) c)))"

section \<open>The API server\<close>

text \<open>The routes; a path parameter is bound in the context when the route is entered.\<close>

datatype route = GetHealth | PostSeckill | GetOrderByToken string | PostActivities | PostWarm string

text \<open>What \<open>main\<close> wires together, with the switches and limits of the configuration.\<close>

record Api =
  api_switches :: Switches
  api_shards :: "dbid list"
  api_OrderTopic :: string
  api_PerUserPerMinute :: int

definition api_seckill :: "Api \<Rightarrow> SeckillRequest \<Rightarrow> (SeckillOutput \<times> goerr option) prog" where
  "api_seckill A req = Seckill (api_service (api_switches A) (api_shards A) (api_OrderTopic A)) req"

fun api_handler :: "wire \<Rightarrow> Api \<Rightarrow> route \<Rightarrow> handler" where
  "api_handler W A GetHealth c = Ret (c_JSON W 200 (JObj [(''status'', JStr ''ok'')]) c)"
| "api_handler W A PostSeckill c =
     (if Idempotency (api_switches A)
      then Idempotency_mw W (handler_Seckill W (api_seckill A)) c
      else handler_Seckill W (api_seckill A) c)"
| "api_handler W A (GetOrderByToken p) c = OrderByToken W (q_Get NewQueue) (c\<lparr>cx_Param := p\<rparr>)"
| "api_handler W A PostActivities c = AdminCreateActivity W (adm_Create NewAdmin) c"
| "api_handler W A (PostWarm p) c = AdminWarmActivity W (adm_Warm NewAdmin) (c\<lparr>cx_Param := p\<rparr>)"

fun full_path :: "route \<Rightarrow> string" where
  "full_path GetHealth = ''/health''"
| "full_path PostSeckill = ''/v1/seckill''"
| "full_path (GetOrderByToken p) = ''/v1/order/by-token/:queue_token''"
| "full_path PostActivities = ''/admin/activities''"
| "full_path (PostWarm p) = ''/admin/activities/:id/warm''"

definition serve :: "wire \<Rightarrow> Api \<Rightarrow> route \<Rightarrow> handler" where
  "serve W A rt c =
     RequestID (Recovery W
       ((if Metrics (api_switches A) then Metrics_mw else (\<lambda>h. h))
         ((if RateLimit (api_switches A) then RateLimit_mw W (api_PerUserPerMinute A) else (\<lambda>h. h))
           (api_handler W A rt)))) (c\<lparr>cx_FullPath := full_path rt\<rparr>)"

text \<open>\<open>parseInt64List\<close>: the activities the reconcile sweeper watches.\<close>

fun Split :: "string \<Rightarrow> string \<Rightarrow> string list" where
  "Split [] acc = [rev acc]"
| "Split (c # cs) acc = (if c = CHR '','' then rev acc # Split cs [] else Split cs (c # acc))"

definition is_space :: "char \<Rightarrow> bool" where
  "is_space c \<longleftrightarrow> of_char c \<in> {9, 10, 11, 12, 13, 32 :: nat}"

definition TrimSpace :: "string \<Rightarrow> string" where
  "TrimSpace s = rev (dropWhile is_space (rev (dropWhile is_space s)))"

definition parse_token :: "string \<Rightarrow> int option" where
  "parse_token tok = (let tok = TrimSpace tok in if tok = [] then None else ParseInt tok)"

definition parseInt64List :: "string \<Rightarrow> int list" where
  "parseInt64List s = List.map_filter parse_token (Split s [])"

end
