(* ===== verification/Sale.thy ===== *)
theory Sale
  imports Reservation Consumer Handlers
begin

text \<open>
  A sale under concurrency.  The unit of account is one unit of stock of one activity: a
  deduction that succeeds grants it, a published order spends it.  This theory
  says which replies grant a unit and how calls change the stock, in Redis (the script on any
  keyspace) and in MySQL, and proves that the services conserve it.
\<close>

section \<open>The script on an arbitrary keyspace\<close>

lemma tonumber_show: "tonumber (show_int i) = Some (round_double i)"
  by (simp add: tonumber_def)

lemma parse_dec_zero: "parse_dec ''0'' = Some 0"
  by (simp add: parse_dec_def digit_val_def)

lemma round_double_1 [simp]: "round_double 1 = 1"
  by simp

text \<open>
  Without any assumption on what the keys hold, one unit asked for is refused and nothing
  changes, or the stock key drops by one; a success is only reported in the latter case.
\<close>

definition purchases :: "keyspace \<Rightarrow> int \<Rightarrow> int \<Rightarrow> int option" where
  "purchases ks a u = (case ks (user_buy_key a u) of None \<Rightarrow> Some 0 | Some (v, _) \<Rightarrow> ParseInt v)"

lemma incr_by_cases:
  assumes "incr_by k d ks = (x, ks')"
  obtains (failed) e where "x = Inl e" "ks' = ks" "ks k = None \<Longrightarrow> \<not> in64 d"
      "\<And>v ttl i. ks k = Some (v, ttl) \<Longrightarrow> ParseInt v = Some i \<Longrightarrow> \<not> in64 (i + d)"
  | (counted) i ttl where "x = Inr (i + d)" "in64 (i + d)" "ks' = ks(k \<mapsto> (show_int (i + d), ttl))"
      "ks k = None \<and> i = 0 \<and> ttl = None \<or> (\<exists>v. ks k = Some (v, ttl) \<and> ParseInt v = Some i)"
  using assms
  by (cases "ks k"; fastforce simp: incr_by_def split: option.splits if_splits prod.splits)

lemma script_cases:
  assumes "run_lua (stock_deduct [stock_key b, user_buy_key b u] [show_int 1, show_int l]) ks = (r, ks')"
  shows "(ks' = ks \<and> (\<forall>v. r = RInt v \<longrightarrow> v < 0)) \<or>
    (\<exists>i ttl. stock_left ks b = Some i \<and> 0 < i \<and> in64 (i - 1) \<and>
       ks' = ks(stock_key b \<mapsto> (show_int (i - 1), ttl)) \<and> (\<exists>e. r = RErr e) \<and>
       (\<forall>j. purchases ks b u = Some j \<longrightarrow> \<not> in64 (j + 1))) \<or>
    (\<exists>i j ttl. stock_left ks b = Some i \<and> 0 < i \<and> in64 (i - 1) \<and>
       purchases ks b u = Some j \<and> in64 (j + 1) \<and> round_double (round_double j + 1) \<le> round_double l \<and>
       ks' = ks(stock_key b \<mapsto> (show_int (i - 1), ttl), user_buy_key b u \<mapsto> (show_int (j + 1), Some day)) \<and>
       r = RInt (round_double (i - 1)))"
proof (cases "ks (stock_key b)")
  case None
  then show ?thesis using assms by (auto simp: stock_deduct_def Let_def)
next
  case (Some x)
  obtain v ttl where x: "ks (stock_key b) = Some (v, ttl)" using Some by (cases x) auto
  let ?bought = "tonumber (case (case ks (user_buy_key b u) of None \<Rightarrow> LFalse | Some (v, _) \<Rightarrow> LBulk v)
      of LBulk v \<Rightarrow> v | _ \<Rightarrow> ''0'')"
  let ?commit = "LCall (LDecrBy (stock_key b) 1) (\<lambda>new_stock.
            LCall (LIncrBy (user_buy_key b u) 1) (\<lambda>_.
            LCall (LExpire (user_buy_key b u) 86400) (\<lambda>_.
              case new_stock of LInt n \<Rightarrow> LReturn (round_double n) | _ \<Rightarrow> LError)))"
  show ?thesis
  proof (cases "\<exists>st ub. tonumber v = Some st \<and> 1 \<le> st \<and> ?bought = Some ub \<and>
      round_double (ub + 1) \<le> round_double l")
    case False
    then show ?thesis
      using assms x by (auto simp: stock_deduct_def Let_def tonumber_show split: option.splits if_splits)
  next
    case True
    then obtain st ub where st: "tonumber v = Some st" "1 \<le> st" and ub: "?bought = Some ub"
      and lim: "round_double (ub + 1) \<le> round_double l" by blast
    have commit: "run_lua ?commit ks = (r, ks')"
      using assms x st ub lim by (simp add: stock_deduct_def Let_def tonumber_show)
    obtain i0 where i0: "parse_dec v = Some i0" "st = round_double i0"
      using st(1) by (auto simp: tonumber_def)
    obtain y ks1 where dec: "incr_by (stock_key b) (- 1) ks = (y, ks1)" by (cases "incr_by (stock_key b) (- 1) ks")
    from dec show ?thesis
    proof (cases rule: incr_by_cases)
      case (failed e)
      then show ?thesis using commit dec by auto
    next
      case (counted i ttl')
      have i: "ParseInt v = Some i" using counted(4) x by auto
      have "0 < i"
        using st(2) i0 round_double_pos [of i0] ParseInt_parse_dec [OF i] by simp
      have left: "stock_left ks b = Some i" using x i by (simp add: stock_left_def)
      have i1: "in64 (i - 1)" using counted(2) by simp
      have ks1: "ks1 = ks(stock_key b \<mapsto> (show_int (i - 1), ttl'))" using counted(3) by simp
      obtain z ks2 where inc: "incr_by (user_buy_key b u) 1 ks1 = (z, ks2)"
        by (cases "incr_by (user_buy_key b u) 1 ks1")
      from inc show ?thesis
      proof (cases rule: incr_by_cases)
        case (failed e)
        have "\<not> in64 (j + 1)" if "purchases ks b u = Some j" for j
          using that failed(3,4) ks1
          by (cases "ks (user_buy_key b u)") (auto simp: purchases_def key_simps in64_def)
        then show ?thesis
          using failed(1,2) commit dec inc counted(1) ks1 left \<open>0 < i\<close> i1 by auto
      next
        case (counted j ttl2)
        have j: "purchases ks b u = Some j"
          using counted(4) ks1 by (auto simp: purchases_def key_simps)
        have "ub = round_double j"
          using ub j by (auto simp: purchases_def parse_dec_zero tonumber_def ParseInt_parse_dec split: option.splits)
        then have lim': "round_double (round_double j + 1) \<le> round_double l" using lim by simp
        have fin: "r = RInt (round_double (i - 1))"
          "ks' = ks(stock_key b \<mapsto> (show_int (i - 1), ttl'), user_buy_key b u \<mapsto> (show_int (j + 1), Some day))"
          using commit dec inc \<open>y = Inr (i + - 1)\<close> counted(1,3) ks1
          by (auto simp: set_ttl_def day_def split: prod.splits)
        show ?thesis using left \<open>0 < i\<close> i1 j counted(2) lim' fin by blast
      qed
    qed
  qed
qed

section \<open>Stock\<close>

text \<open>The units of stock an activity has left, in Redis or in MySQL.\<close>

definition units :: "int option \<Rightarrow> nat" where
  "units x = (case x of None \<Rightarrow> 0 | Some i \<Rightarrow> nat i)"

definition stock_units :: "Switches \<Rightarrow> int \<Rightarrow> keyspace \<Rightarrow> (dbid \<Rightarrow> tables) \<Rightarrow> nat" where
  "stock_units sw a ks t =
     (if LuaStock sw then units (stock_left ks a) else units (total_stock (t MainDB) a))"

text \<open>The replies that grant a unit, and the calls that would add stock.\<close>

fun stock_grants :: "Switches \<Rightarrow> int \<Rightarrow> call \<Rightarrow> reply \<Rightarrow> bool" where
  "stock_grants sw a (Redis (EVAL script keys argv)) r =
     (LuaStock sw \<and> (\<exists>u l. Redis (EVAL script keys argv) = deduct_call a u 1 l) \<and> (\<exists>v\<ge>0. r = RInt v))"
| "stock_grants sw a (Sql d (UpdateDeduct n i m)) r =
     (\<not> LuaStock sw \<and> d = MainDB \<and> i = a \<and> (\<exists>k. r = RInt k \<and> k \<noteq> 0))"
| "stock_grants sw a c r = False"

fun restocks :: "Switches \<Rightarrow> int \<Rightarrow> call \<Rightarrow> bool" where
  "restocks sw a (Redis (EVAL script keys argv)) =
     (LuaStock sw \<and> \<not> (\<exists>b u l. Redis (EVAL script keys argv) = deduct_call b u 1 l))"
| "restocks sw a (Redis (SET k v t)) = (LuaStock sw \<and> k = stock_key a)"
| "restocks sw a (Redis (SETNX k v t)) = (LuaStock sw \<and> k = stock_key a)"
| "restocks sw a (Redis (INCR k)) = (LuaStock sw \<and> k = stock_key a)"
| "restocks sw a (Sql d (UpdateDeduct n i m)) = (\<not> LuaStock sw \<and> \<not> (n = 1 \<and> m = 1))"
| "restocks sw a c = False"

text \<open>With the stock in MySQL, the activity must be there (inserting it would create stock).\<close>

definition stock_there :: "Switches \<Rightarrow> int \<Rightarrow> (dbid \<Rightarrow> tables) \<Rightarrow> bool" where
  "stock_there sw a t \<longleftrightarrow> LuaStock sw \<or> activities (t MainDB) a \<noteq> None"

lemma deduct_call_inject:
  "deduct_call a u 1 l = deduct_call b v 1 m \<longleftrightarrow> a = b \<and> u = v \<and> l = m"
  by (auto simp: deduct_call_def key_simps)

lemma units_simps [simp]: "units None = 0" "units (Some i) = nat i"
  by (simp_all add: units_def)

lemma stock_left_other: "ks' (stock_key a) = ks (stock_key a) \<Longrightarrow> stock_left ks' a = stock_left ks a"
  by (simp add: stock_left_def)

lemma stock_left_cong:
  "map_option fst (ks' (stock_key a)) = map_option fst (ks (stock_key a)) \<Longrightarrow>
     stock_left ks' a = stock_left ks a"
  by (cases "ks (stock_key a)"; cases "ks' (stock_key a)") (auto simp: stock_left_def)

lemma stock_left_dec:
  assumes "ks' (stock_key a) = Some (show_int (i - 1), ttl)" and "in64 (i - 1)"
  shows "stock_left ks' a = Some (i - 1)"
  using assms by (simp add: stock_left_def ParseInt_show_int)

lemma nat_dec: "0 < i \<Longrightarrow> Suc (nat (i - 1)) = nat i"
  by simp

text \<open>One deduction of the script, seen from activity \<open>a\<close>.\<close>

lemma script_units:
  assumes "run_lua (stock_deduct [stock_key b, user_buy_key b u] [show_int 1, show_int l]) ks = (r, ks')"
  shows "units (stock_left ks' a) + (if a = b \<and> (\<exists>v\<ge>0. r = RInt v) then 1 else 0) \<le> units (stock_left ks a)"
  using script_cases [OF assms]
proof (elim disjE exE conjE)
  assume "ks' = ks" "\<forall>v. r = RInt v \<longrightarrow> v < 0"
  then show ?thesis by fastforce
next
  fix i ttl e
  assume i: "stock_left ks b = Some i" "0 < i" "in64 (i - 1)"
    and ks': "ks' = ks(stock_key b \<mapsto> (show_int (i - 1), ttl))" and r: "r = RErr e"
  show ?thesis
  proof (cases "a = b")
    case True
    then have "stock_left ks' a = Some (i - 1)" using ks' i(3) by (intro stock_left_dec) auto
    then show ?thesis using True i r by simp
  next
    case False
    then have "stock_left ks' a = stock_left ks a" using ks' by (intro stock_left_other) (simp add: key_simps)
    then show ?thesis using False by simp
  qed
next
  fix i j ttl
  assume i: "stock_left ks b = Some i" "0 < i" "in64 (i - 1)"
    and ks': "ks' = ks(stock_key b \<mapsto> (show_int (i - 1), ttl), user_buy_key b u \<mapsto> (show_int (j + 1), Some day))"
  show ?thesis
  proof (cases "a = b")
    case True
    then have "stock_left ks' a = Some (i - 1)" using ks' i(3) by (intro stock_left_dec) (auto simp: key_simps)
    then show ?thesis using True i nat_dec [OF i(2)] by auto
  next
    case False
    then have "stock_left ks' a = stock_left ks a" using ks' by (intro stock_left_other) (simp add: key_simps)
    then show ?thesis using False by simp
  qed
qed

lemma redis_sem_units:
  assumes "redis_sem c ks = (r, ks')" and "LuaStock sw" and "\<not> restocks sw a (Redis c)"
  shows "units (stock_left ks' a) + (if stock_grants sw a (Redis c) r then 1 else 0) \<le> units (stock_left ks a)"
proof (cases c)
  case (EVAL script keys argv)
  then obtain b u l where c: "Redis c = deduct_call b u 1 l" using assms(2,3) by auto
  then have "run_lua (stock_deduct [stock_key b, user_buy_key b u] [show_int 1, show_int l]) ks = (r, ks')"
    using assms(1) by (auto simp: deduct_call_def)
  note le = script_units [OF this, of a]
  have "stock_grants sw a (Redis c) r =
      ((\<exists>v m. Redis c = deduct_call a v 1 m) \<and> (\<exists>v\<ge>0. r = RInt v))"
    unfolding EVAL using assms(2) by simp
  also have "\<dots> = (a = b \<and> (\<exists>v\<ge>0. r = RInt v))"
    unfolding c by (auto simp: deduct_call_inject)
  finally show ?thesis using le by simp
next
  case (EXPIRE k t)
  then have "stock_left ks' a = stock_left ks a"
    using assms(1) by (intro stock_left_cong) (auto simp: set_ttl_def split: option.splits prod.splits)
  then show ?thesis using EXPIRE by simp
next
  case (INCR k)
  obtain x ks1 where inc: "incr_by k 1 ks = (x, ks1)" by (cases "incr_by k 1 ks")
  have "ks1 (stock_key a) = ks (stock_key a)"
    using inc INCR assms(2,3) by (cases rule: incr_by_cases) auto
  moreover have "ks' = ks1" using INCR assms(1) inc by (auto split: sum.splits)
  ultimately have "stock_left ks' a = stock_left ks a" by (intro stock_left_other) simp
  then show ?thesis using INCR by simp
next
  case (SETNX k v t)
  then have "stock_left ks' a = stock_left ks a"
    using assms by (intro stock_left_other) (auto split: option.splits)
  then show ?thesis using SETNX by simp
qed (use assms in \<open>auto intro!: arg_cong [where f = units] stock_left_other eq_imp_le\<close>)

lemma sql_sem_units:
  assumes "sql_sem coll dt s t = Some (r, t')" and "\<not> LuaStock sw" and "\<not> restocks sw a (Sql MainDB s)"
    and "activities t a \<noteq> None"
  shows "activities t' a \<noteq> None \<and>
    units (total_stock t' a) + (if stock_grants sw a (Sql MainDB s) r then 1 else 0) \<le> units (total_stock t a)"
  using assms by (cases s) (auto simp: total_stock_def split: option.splits if_splits)

context services begin

text \<open>Every call that adds no stock gives up a unit for each one it grants.\<close>

lemma stock_conserved:
  assumes S: "S c w = (r, w')" and nr: "\<not> restocks sw a c" and there: "stock_there sw a (tbl w)"
  shows "stock_there sw a (tbl w') \<and>
    stock_units sw a (ks w') (tbl w') + (if stock_grants sw a c r then 1 else 0)
      \<le> stock_units sw a (ks w) (tbl w)"
proof (cases "LuaStock sw")
  case True
  have "units (stock_left (ks w') a) + (if stock_grants sw a c r then 1 else 0) \<le> units (stock_left (ks w) a)"
  proof (cases "\<exists>x. c = Redis x")
    case True
    then obtain x where c: "c = Redis x" by blast
    obtain r0 k0 where sem: "redis_sem x (ks w) = (r0, k0)" by (cases "redis_sem x (ks w)")
    have nr: "\<not> restocks sw a (Redis x)" using nr c by simp
    have le: "units (stock_left k0 a) + (if stock_grants sw a (Redis x) r0 then 1 else 0)
        \<le> units (stock_left (ks w) a)"
      by (rule redis_sem_units [OF sem \<open>LuaStock sw\<close> nr])
    have "(r, ks w') = (r0, k0) \<or> (\<exists>m. r = RErr (GoErr m)) \<and> (ks w' = ks w \<or> ks w' = k0)"
      using redis_call [of x w r w'] S c sem by (simp add: redis_law_def)
    moreover have "\<not> stock_grants sw a (Redis x) (RErr e)" for e by (cases x) auto
    ultimately show ?thesis using le c by (auto split: if_splits)
  next
    case False
    then have "ks w' = ks w" using other_frame(1) [OF S] by blast
    moreover have "\<not> stock_grants sw a c r"
      using False \<open>LuaStock sw\<close> by (cases "(sw, a, c, r)" rule: stock_grants.cases) auto
    ultimately show ?thesis by simp
  qed
  then show ?thesis using True by (simp add: stock_units_def stock_there_def)
next
  case False
  then have there: "activities (tbl w MainDB) a \<noteq> None" using there by (simp add: stock_there_def)
  have "activities (tbl w' MainDB) a \<noteq> None \<and>
    units (total_stock (tbl w' MainDB) a) + (if stock_grants sw a c r then 1 else 0)
      \<le> units (total_stock (tbl w MainDB) a)"
  proof (cases "\<exists>s. c = Sql MainDB s")
    case True
    then obtain s where c: "c = Sql MainDB s" by blast
    obtain t' where law: "sql_law coll dt s (tbl w MainDB) r t'" and t': "tbl w' MainDB = t'"
      using sql_call [of MainDB s w r w'] S c by auto
    have err: "\<not> stock_grants sw a (Sql MainDB s) (RErr e)" for e by (cases s) auto
    show ?thesis
    proof (cases "sql_sem coll dt s (tbl w MainDB)")
      case None
      then show ?thesis using law t' there err c by (auto simp: sql_law_def)
    next
      case (Some x)
      obtain r0 t0 where x: "x = (r0, t0)" by (cases x)
      have "\<not> restocks sw a (Sql MainDB s)" using nr c by simp
      from sql_sem_units [OF _ False this there, of coll dt r0 t0] Some x
      have "activities t0 a \<noteq> None \<and> units (total_stock t0 a) +
          (if stock_grants sw a (Sql MainDB s) r0 then 1 else 0) \<le> units (total_stock (tbl w MainDB) a)"
        by simp
      then show ?thesis using law t' there err c Some x by (auto simp: sql_law_def split: if_splits)
    qed
  next
    case no: False
    have "tbl w' MainDB = tbl w MainDB"
    proof (cases "\<exists>d s. c = Sql d s")
      case True
      then obtain d s where c: "c = Sql d s" by blast
      with no have "d \<noteq> MainDB" by blast
      then show ?thesis using sql_call [of d s w r w'] S c by auto
    next
      case False
      then show ?thesis using other_frame(2) [OF S] by simp
    qed
    moreover have "\<not> stock_grants sw a c r"
      using no False by (cases "(sw, a, c, r)" rule: stock_grants.cases) auto
    ultimately show ?thesis using there by simp
  qed
  then show ?thesis using False by (simp add: stock_units_def stock_there_def)
qed

end

end
