(* ===== verification/Funding.thy ===== *)
theory Funding
  imports Reservation Consumer Handlers
begin

text \<open>
  Which programs of the deployment are funded, for any rules under which the calls of the
  infrastructure are neutral: the middleware adds nothing, and a seckill attempt spends at most
  the unit it was granted, provided its ports behave (the locale \<open>seckill_ports\<close>).
\<close>

section \<open>Calls of the infrastructure\<close>

definition side_key :: "string \<Rightarrow> bool" where
  "side_key k \<longleftrightarrow> (\<exists>s. k = queue_key s \<or> k = ratelimit_key s \<or> (\<exists>a u. k = idem_key a u s))"

fun ambient_call :: "call \<Rightarrow> bool" where
  "ambient_call (Redis (GET k)) = True"
| "ambient_call (Redis (SET k v t)) = side_key k"
| "ambient_call (Redis (SETNX k v t)) = side_key k"
| "ambient_call (Redis (INCR k)) = side_key k"
| "ambient_call (Redis (EXPIRE k t)) = True"
| "ambient_call (Redis (EVAL script keys argv)) = False"
| "ambient_call (Sql d (UpdateDeduct n i m)) = False"
| "ambient_call (Sql d (InsertOrder x)) = False"
| "ambient_call (Sql d s) = True"
| "ambient_call (KWrite topic key v t hs) = False"
| "ambient_call (CountMetric m l) = counted m l"
| "ambient_call c = True"

lemma side_key_simps [simp]:
  "side_key (queue_key s)" "side_key (ratelimit_key s)" "side_key (idem_key a u s)"
  "\<not> side_key (stock_key a)" "\<not> side_key (user_buy_key a u)"
  by (auto simp: side_key_def key_simps)

lemma ambient_QueueService_New: "makes ambient_call QueueService_New"
  by (auto simp: QueueService_New_def split: sum.splits option.splits)

lemma ambient_QueueService_Get: "makes ambient_call (QueueService_Get tok)"
  by (auto simp: QueueService_Get_def split: sum.splits)

lemma ambient_nextID: "makes ambient_call nextID"
  by (simp add: nextID_def)

lemma ambient_time_Now: "makes ambient_call time_Now"
  by (simp add: time_Now_def)

lemma ambient_lookup: "makes ambient_call (activityRepo_GetByID b)"
  by (rule makes_GetByID) simp

lemma ambient_create_activity: "makes ambient_call (AdminService_Create x)"
  by (simp add: AdminService_Create_def activityRepo_Create_def)

lemma ambient_sweeper: "makes ambient_call (reconcile_Run fuel s ids)"
  by (intro makes_reconcile_Run makes_tick) simp_all

section \<open>The middleware\<close>

text \<open>A handler is funded when it is from nothing in hand.\<close>

definition funded_handler :: "rules \<Rightarrow> handler \<Rightarrow> bool" where
  "funded_handler R h \<longleftrightarrow> (\<forall>c. funded R 0 (h c) (\<lambda>_ _. True))"

lemma funded_any: "funded R 0 p (\<lambda>_ _. True) \<Longrightarrow> funded R n p (\<lambda>_ _. True)"
  by (erule funded_mono) auto

definition ambient_rules :: "rules \<Rightarrow> bool" where
  "ambient_rules R \<longleftrightarrow> (\<forall>c. ambient_call c \<longrightarrow> neutral R c)"

lemma ambient_funded:
  "ambient_rules R \<Longrightarrow> makes ambient_call p \<Longrightarrow> (\<And>a. Q n a) \<Longrightarrow> funded R n p Q"
  by (rule funded_neutral) (auto simp: ambient_rules_def elim!: makes_mono)

lemma ambient_step:
  assumes "ambient_rules R" and "ambient_call c"
  shows "\<not> forbidden R c" "\<not> spends R c" "\<not> grants R c r"
  using assms by (auto simp: ambient_rules_def neutral_def)

lemmas ambient_steps = ambient_step [where c = Now] ambient_step [where c = NewUUID]
  ambient_step [where c = InjectTrace]
  ambient_step [where c = "Redis (GET k)" for k]

text \<open>The calls of the middleware itself, with the values it writes.\<close>

inductive middleware_call :: "wire \<Rightarrow> call \<Rightarrow> bool" for W where
  "middleware_call W Now" | "middleware_call W NewUUID" | "middleware_call W LimiterAllow"
| "counted m l \<Longrightarrow> middleware_call W (CountMetric m l)"
| "middleware_call W (Redis (GET k))" | "middleware_call W (Redis (EXPIRE k t))"
| "middleware_call W (Redis (INCR (ratelimit_key s)))"
| "middleware_call W (Redis (SETNX (idem_key a u s) ''processing'' t))"
| "middleware_call W (Redis (SET (idem_key a u s) (cached_text W status buf) t))"

lemmas middleware_intros [simp] = middleware_call.intros

definition middleware_rules :: "wire \<Rightarrow> rules \<Rightarrow> bool" where
  "middleware_rules W R \<longleftrightarrow> (\<forall>c. middleware_call W c \<longrightarrow> neutral R c)"

lemma ambient_middleware: "ambient_rules R \<Longrightarrow> middleware_rules W R"
proof -
  have "middleware_call W c \<Longrightarrow> ambient_call c" for c by (erule middleware_call.cases) auto
  then show "ambient_rules R \<Longrightarrow> middleware_rules W R"
    by (auto simp: ambient_rules_def middleware_rules_def)
qed

lemma middleware_step:
  assumes "middleware_rules W R" and "middleware_call W c"
  shows "\<not> forbidden R c" "\<not> spends R c" "\<not> grants R c r"
  using assms by (auto simp: middleware_rules_def neutral_def)

lemmas middleware_steps = middleware_intros [THEN middleware_step(1) [rotated]]
  middleware_intros [THEN middleware_step(2) [rotated]] middleware_intros [THEN middleware_step(3) [rotated]]

lemma funded_handlerD: "funded_handler R h \<Longrightarrow> funded R n (h c) (\<lambda>_ _. True)"
  unfolding funded_handler_def by (blast intro: funded_any)

lemma funded_RequestID: "middleware_rules W R \<Longrightarrow> funded_handler R h \<Longrightarrow> funded_handler R (RequestID h)"
  by (simp add: funded_handler_def RequestID_def Let_def middleware_steps split: sum.splits)

lemma funded_Recovery: "funded_handler R h \<Longrightarrow> funded_handler R (Recovery W h)"
  by (simp add: funded_handler_def Recovery_def funded_recover)

lemma funded_Metrics: "middleware_rules W R \<Longrightarrow> funded_handler R h \<Longrightarrow> funded_handler R (Metrics_mw h)"
  unfolding funded_handler_def
  by (simp add: Metrics_mw_def Let_def middleware_steps funded_weaken)

lemma funded_RateLimit:
  "middleware_rules W R \<Longrightarrow> funded_handler R h \<Longrightarrow> funded_handler R (RateLimit_mw W k h)"
  unfolding funded_handler_def
  by (auto simp: RateLimit_mw_def Let_def middleware_steps split: sum.splits)

lemma funded_idem_replay: "middleware_rules W R \<Longrightarrow> funded R n (idem_replay W v c) (\<lambda>_ _. True)"
  by (auto simp: idem_replay_def middleware_steps split: prod.splits option.splits)

lemma funded_Idempotency:
  assumes "middleware_rules W R" and "funded_handler R h"
  shows "funded_handler R (Idempotency_mw W h)"
  unfolding funded_handler_def
proof
  fix c
  note h = funded_handlerD [OF assms(2)]
  have after: "funded R 0 (h x) (\<lambda>n c'. funded R n
      (Call (Redis (SET (idem_key a u s) (cached_text W (g c') (f c')) idemTTL)) (\<lambda>_. Ret c')) (\<lambda>_ _. True))"
    for x f g a u s
    by (rule funded_mono [OF h order_refl]) (simp add: middleware_steps assms(1))
  have first: "funded R 0 (idem_first W (idem_key a u s) h c) (\<lambda>_ _. True)" for a u s
    unfolding idem_first_def funded_bindp by (rule after)
  have hit: "funded R 0 (idem_hit W (idem_key a u s) h c) (\<lambda>_ _. True)" for a u s
    using assms(1) h by (auto simp: idem_hit_def middleware_steps funded_idem_replay split: sum.splits)
  show "funded R 0 (Idempotency_mw W h c) (\<lambda>_ _. True)"
    using assms(1) h first hit
    by (auto simp: Idempotency_mw_def Let_def middleware_steps split: sum.splits prod.splits)
qed

lemma funded_serve:
  assumes "middleware_rules W R" and "funded_handler R (api_handler W A rt)"
  shows "funded R n (serve W A rt c) (\<lambda>_ _. True)"
  unfolding serve_def
  by (rule funded_handlerD)
     (use assms in \<open>auto intro!: funded_RequestID funded_Recovery funded_Metrics funded_RateLimit\<close>)

section \<open>A seckill attempt\<close>

text \<open>
  What an attempt relies on: \<open>sel\<close> says for which activity and user a unit is needed, \<open>ok\<close> what
  the lookup guarantees of the activity it finds.
\<close>

locale seckill_ports =
  fixes R :: rules
    and s :: SeckillService
    and sel :: "int \<Rightarrow> int \<Rightarrow> bool"
    and ok :: "int \<Rightarrow> Activity \<Rightarrow> bool"
  assumes lookup: "funded R 0 (s_activities s b) (\<lambda>_ found. \<forall>act. found = Inr act \<longrightarrow> ok b act)"
    and reserve: "ok b act \<Longrightarrow>
      funded R 0 (s_stock s b u 1 (a_PerUserLimit act)) (\<lambda>n res. \<forall>rem. res = Inr rem \<longrightarrow> sel b u \<longrightarrow> 0 < n)"
    and clock: "funded R 0 (s_now s) (\<lambda>_ _. True)"
    and ids: "funded R n (s_nextID s) (\<lambda>m _. n \<le> m)"
    and tokens: "s_queue s = Some new \<Longrightarrow> funded R n new (\<lambda>m _. n \<le> m)"
    and place: "(sel (o_ActivityID x) (o_UserID x) \<longrightarrow> 0 < n) \<Longrightarrow>
      funded R n (seckill_create s x tok) (\<lambda>_ _. True)"
begin

lemma token_funded: "funded R n (seckill_token s i) (\<lambda>m _. n \<le> m)"
proof (cases "s_queue s")
  case (Some new)
  show ?thesis
    using tokens [OF Some, of n] by (simp add: seckill_token_def Some)
qed (simp add: seckill_token_def)

lemma place_funded:
  assumes "sel (rq_ActivityID req) (rq_UserID req) \<longrightarrow> 0 < n"
  shows "funded R n (seckill_place s req a now rem) (\<lambda>_ _. True)"
proof -
  have "funded R m (seckill_create s (new_order req a now i) tok)
      (\<lambda>k err. funded R k (case err of
         Some e \<Rightarrow>
           if errors_Is e ErrOrderDuplicate then Ret (outcome OutcomeDuplicate, None)
           else Ret (outcome OutcomeInternal, Some e)
       | None \<Rightarrow>
           Ret (\<lparr>out_Outcome = OutcomeQueued, out_QueueToken = tok, out_Remaining = rem\<rparr>, None))
        (\<lambda>_ _. True))" if "n \<le> m" for m i tok
    by (rule funded_mono [OF place [of _ m] order_refl])
       (use assms that in \<open>auto simp: new_order_def split: option.splits\<close>)
  then show ?thesis
    unfolding seckill_place_def funded_bindp
    by (intro funded_mono [OF ids order_refl] funded_mono [OF token_funded order_refl]) auto
qed

lemma deduct_funded:
  assumes "ok (rq_ActivityID req) a"
  shows "funded R n (seckill_deduct s req a now) (\<lambda>_ _. True)"
  unfolding seckill_deduct_def funded_bindp
proof (rule funded_mono [OF reserve [OF assms, of "rq_UserID req"]])
  fix k m :: nat and res :: "goerr + int"
  assume "\<forall>rem. res = Inr rem \<longrightarrow> sel (rq_ActivityID req) (rq_UserID req) \<longrightarrow> 0 < k" and "k \<le> m"
  then show "funded R m (case res of
         Inl err \<Rightarrow>
           if errors_Is err ErrStockNotEnough then Ret (outcome OutcomeSoldOut, None)
           else if errors_Is err ErrUserLimitExceeded then Ret (outcome OutcomeUserLimit, None)
           else if errors_Is err ErrStockNotWarmed then Ret (outcome OutcomeNotWarmed, None)
           else Ret (outcome OutcomeInternal, Some err)
       | Inr remaining \<Rightarrow> seckill_place s req a now remaining) (\<lambda>_ _. True)"
    by (cases res) (auto intro!: place_funded)
qed simp

lemma Seckill_funded: "funded R n (Seckill s req) (\<lambda>_ _. True)"
proof -
  have window: "funded R m (seckill_window s req a) (\<lambda>_ _. True)" if "ok (rq_ActivityID req) a" for a m
    unfolding seckill_window_def funded_bindp
    by (rule funded_mono [OF clock]) (simp_all add: deduct_funded that)
  show ?thesis
    unfolding Seckill_def funded_bindp
    by (rule funded_mono [OF lookup]) (auto simp: window split: sum.splits)
qed

lemma handler_funded: "funded_handler R (handler_Seckill W (Seckill s))"
proof -
  have "funded R 0 (bindp (Seckill s req) (\<lambda>res. Ret (seckill_response W res c))) (\<lambda>_ _. True)" for req c
    unfolding funded_bindp by (rule funded_mono [OF Seckill_funded order_refl]) simp
  then show ?thesis by (auto simp: funded_handler_def handler_Seckill_def split: sum.splits)
qed

end

section \<open>The other programs\<close>

lemma makes_OrderByToken: "makes ambient_call (OrderByToken W QueueService_Get c)"
  by (auto simp: OrderByToken_def Let_def intro!: makes_bindp ambient_QueueService_Get split: sum.splits)

lemma makes_AdminCreate: "makes ambient_call (AdminCreateActivity W AdminService_Create c)"
  by (auto simp: AdminCreateActivity_def intro!: makes_bindp ambient_create_activity
      split: sum.splits option.splits)

lemma makes_Warm:
  "makes (\<lambda>c. ambient_call c \<or> (\<exists>v t. c = Redis (SET (stock_key i) v t))) (AdminService_Warm i)"
  unfolding AdminService_Warm_def
  by (intro makes_bindp makes_GetByID) (auto split: sum.splits option.splits)

lemma makes_AdminWarm:
  "makes (\<lambda>k. ambient_call k \<or> (\<exists>i v t. ParseInt (cx_Param c) = Some i \<and> k = Redis (SET (stock_key i) v t)))
     (AdminWarmActivity W AdminService_Warm c)"
  unfolding AdminWarmActivity_def
  by (auto split: option.splits sum.splits intro!: makes_bindp makes_mono [OF makes_Warm])

text \<open>The consumer inserts orders and writes to the dead-letter topic; the rest is ambient.\<close>

definition consumer_call :: "string \<Rightarrow> call \<Rightarrow> bool" where
  "consumer_call dlq c \<longleftrightarrow> ambient_call c \<or> (\<exists>d x. c = Sql d (InsertOrder x)) \<or> (\<exists>k v t hs. c = KWrite dlq k v t hs)"

lemma makes_order_create: "makes (\<lambda>c. \<exists>d x. c = Sql d (InsertOrder x)) (order_create sw shards x)"
  by (auto simp: order_create_eq shardedOrderRepo_Create_def orderRepo_Create_def split: option.splits)

lemma makes_retry: "makes P h \<Longrightarrow> (\<And>t. P (Sleep t)) \<Longrightarrow> makes P (retry k h)"
  by (simp add: retry_def makes_attempts_from)

lemma makes_order_Handle: "makes (consumer_call dlq) (Handle (materializer sw shards) msg)"
  by (intro makes_Handle)
     (auto simp: materializer_eq consumer_call_def intro!: makes_mono [OF makes_order_create])

lemma makes_consumer_dlq: "makes (consumer_call dlq) (consumer_dlq dlq raw reason)"
  by (auto simp: consumer_dlq_def consumer_call_def MarkFailed_def
      intro!: makes_bindp makes_SendOrder split: prod.splits)

lemma makes_process_message:
  assumes "\<And>om. makes P (c_handler c om)" and "\<And>raw e. makes P (dead_letter c raw e)"
    and "\<And>t. P (Sleep t)" and "P (KCommit msg)"
  shows "makes P (process_message c msg)"
  unfolding process_message_def
  by (auto intro!: makes_bindp makes_retry assms split: prod.splits option.splits)

lemma makes_Run:
  assumes "\<And>om. makes P (c_handler c om)" and "\<And>raw e. makes P (dead_letter c raw e)"
    and "\<And>t. P (Sleep t)" "P CtxDone" "P KClose" "\<And>topic. P (KFetch topic)" "\<And>m. P (KCommit m)"
  shows "makes P (Run fuel c)"
  by (induction fuel)
     (auto intro!: makes_bindp makes_process_message assms split: sum.splits option.splits)

lemma makes_order_consumer: "makes (consumer_call dlq) (Run fuel (order_consumer sw shards topic dlq))"
  by (rule makes_Run)
     (simp_all add: order_consumer_def dead_letter_def makes_order_Handle makes_consumer_dlq,
      simp_all add: consumer_call_def)

end
