(* ===== verification/Oversell.thy ===== *)
theory Oversell
  imports Sale Funding
begin

text \<open>
  The sale as a resource: orders published, the rules for the stock of an activity for each
  deployment of the program (stock in Redis or MySQL, orders through Kafka or written directly),
  their conservation on the services, and that every program of a deployment is funded.
\<close>

section \<open>Published orders\<close>

text \<open>The messages that decode to an order selected by activity and user.\<close>

definition message_for :: "(int \<Rightarrow> int \<Rightarrow> bool) \<Rightarrow> payload \<Rightarrow> bool" where
  "message_for sel v =
     (case UnmarshalOrderMessage v of
        (m, None) \<Rightarrow> sel (m_ActivityID m) (m_UserID m)
      | (m, Some _) \<Rightarrow> False)"

definition order_dbs :: "Switches \<Rightarrow> dbid list \<Rightarrow> dbid list" where
  "order_dbs sw shards = (if ShardedOrder sw \<and> shards \<noteq> [] then shards else [MainDB])"

text \<open>
  How many orders are out: with Kafka the distinct messages in the topic (a redelivered or
  twice written message is the same order), otherwise the rows of the order tables.
\<close>

definition rows_out ::
  "Switches \<Rightarrow> dbid list \<Rightarrow> (int \<Rightarrow> int \<Rightarrow> bool) \<Rightarrow> (dbid \<Rightarrow> tables) \<Rightarrow> nat" where
  "rows_out sw shards sel t =
     (\<Sum>d\<in>set (order_dbs sw shards).
        length (filter (\<lambda>x. sel (o_ActivityID x) (o_UserID x)) (orders_0 (t d))))"

definition orders_out ::
  "Switches \<Rightarrow> dbid list \<Rightarrow> string \<Rightarrow> (int \<Rightarrow> int \<Rightarrow> bool) \<Rightarrow> (dbid \<Rightarrow> tables) \<Rightarrow>
   (string \<Rightarrow> payload list) \<Rightarrow> nat" where
  "orders_out sw shards topic sel t L =
     (if KafkaOrder sw then card (set (filter (message_for sel) (L topic)))
      else rows_out sw shards sel t)"

fun publishes :: "Switches \<Rightarrow> dbid list \<Rightarrow> string \<Rightarrow> (int \<Rightarrow> int \<Rightarrow> bool) \<Rightarrow> call \<Rightarrow> bool" where
  "publishes sw shards topic sel (KWrite tp key v t hs) = (KafkaOrder sw \<and> tp = topic \<and> message_for sel v)"
| "publishes sw shards topic sel (Sql d (InsertOrder x)) =
     (\<not> KafkaOrder sw \<and> d \<in> set (order_dbs sw shards) \<and> sel (o_ActivityID x) (o_UserID x))"
| "publishes sw shards topic sel c = False"

lemma Marshal_decodes:
  assumes "Marshal m = Inr v" and "UnmarshalOrderMessage v = (m', None)"
  shows "m' = m"
proof -
  from assms(1) have v: "v = Valid (JObj [
        (''version'', JNum (m_Version m)),
        (''order_id'', JNum (m_OrderID m)),
        (''activity_id'', JNum (m_ActivityID m)),
        (''user_id'', JNum (m_UserID m)),
        (''product_id'', JNum (m_ProductID m)),
        (''idempotency_token'', JStr (m_IdempotencyToken m)),
        (''queue_token'', JStr (m_QueueToken m)),
        (''produced_at'', JTime (time_text (m_ProducedAt m)) (m_ProducedAt m))])"
    by (simp add: Marshal_def split: if_splits)
  have num: "decode_int (JNum i) f old = (if in64 i then Stored (f i) else Skipped type_error)"
    for i f and old :: OrderMessage by (simp add: decode_num_def)
  from assms(2) have "message_in64 m"
    unfolding v UnmarshalOrderMessage_def Unmarshal_def message_in64_def
    by (simp add: num split: if_splits)
  then show ?thesis using Unmarshal_Marshal [OF _ assms(1)] assms(2) by simp
qed

lemma message_for_Marshal:
  "Marshal m = Inr v \<Longrightarrow> message_for sel v \<Longrightarrow> sel (m_ActivityID m) (m_UserID m)"
  by (auto simp: message_for_def split: prod.splits option.splits dest: Marshal_decodes)

lemma card_filter_snoc:
  "card (set (filter P (xs @ replicate n v))) \<le> card (set (filter P xs)) + (if P v then 1 else 0)"
proof -
  have "set (filter P (xs @ replicate n v)) \<subseteq> set (filter P xs) \<union> (if P v then {v} else {})"
    by auto
  then have "card (set (filter P (xs @ replicate n v))) \<le> card (set (filter P xs) \<union> (if P v then {v} else {}))"
    by (intro card_mono) auto
  also have "\<dots> \<le> card (set (filter P xs)) + (if P v then 1 else 0)"
    by (rule order_trans [OF card_Un_le]) simp
  finally show ?thesis .
qed

context services begin

lemma sql_rows_frame:
  assumes "S (Sql d s) w = (r, w')" and "\<not> (\<exists>x. s = InsertOrder x)"
  shows "orders_0 (tbl w' d') = orders_0 (tbl w d')"
proof -
  obtain t' where law: "sql_law coll dt s (tbl w d) r t'" and t': "tbl w' = (tbl w)(d := t')"
    using sql_call [OF assms(1)] by blast
  have "orders_0 t0 = orders_0 (tbl w d)" if "sql_sem coll dt s (tbl w d) = Some (r0, t0)" for r0 t0
    using that assms(2) by (cases s) (auto split: option.splits if_splits)
  then have "orders_0 t' = orders_0 (tbl w d)"
    using law by (auto simp: sql_law_def split: option.splits prod.splits)
  then show ?thesis using t' by simp
qed

lemma orders_conserved:
  assumes S: "S c w = (r, w')"
  shows "orders_out sw shards topic sel (tbl w') (log w')
    \<le> orders_out sw shards topic sel (tbl w) (log w) + (if publishes sw shards topic sel c then 1 else 0)"
proof (cases "KafkaOrder sw")
  case True
  show ?thesis
  proof (cases "\<exists>tp k v t hs. c = KWrite tp k v t hs")
    case no: True
    then obtain tp k v t hs where c: "c = KWrite tp k v t hs" by blast
    then obtain n where L: "log w' = (log w)(tp := log w tp @ replicate n v)"
      using kafka_write S by blast
    show ?thesis
      using card_filter_snoc [of "message_for sel" "log w topic" n v] True c L
      by (cases "topic = tp") (simp_all add: orders_out_def del: set_filter filter_append set_append)
  next
    case False
    then have "log w' = log w" using other_frame(3) [OF S] by blast
    then show ?thesis using True by (simp add: orders_out_def)
  qed
next
  case False
  let ?n = "\<lambda>t d. length (filter (\<lambda>x. sel (o_ActivityID x) (o_UserID x)) (orders_0 (t d)))"
  show ?thesis
  proof (cases "\<exists>d x. c = Sql d (InsertOrder x)")
    case True
    then obtain d x where c: "c = Sql d (InsertOrder x)" by blast
    have "?n (tbl w') d' \<le> ?n (tbl w) d' + (if d' = d \<and> sel (o_ActivityID x) (o_UserID x) then 1 else 0)" for d'
      using insert_order_cases [of d x w r w'] S c by (auto simp: stored_order_def)
    then have "(\<Sum>d'\<in>set (order_dbs sw shards). ?n (tbl w') d') \<le>
        (\<Sum>d'\<in>set (order_dbs sw shards). ?n (tbl w) d' + (if d' = d \<and> sel (o_ActivityID x) (o_UserID x) then 1 else 0))"
      by (rule sum_mono)
    also have "\<dots> = (\<Sum>d'\<in>set (order_dbs sw shards). ?n (tbl w) d') +
        (if d \<in> set (order_dbs sw shards) \<and> sel (o_ActivityID x) (o_UserID x) then 1 else 0)"
      by (auto simp: sum.distrib sum.delta if_distrib conj_commute simp flip: if_if_eq_conj cong: if_cong)
    finally show ?thesis using False c by (simp add: orders_out_def rows_out_def)
  next
    case no: False
    have "orders_0 (tbl w' d') = orders_0 (tbl w d')" for d'
    proof (cases "\<exists>d s. c = Sql d s")
      case True
      then show ?thesis using no sql_rows_frame S by blast
    next
      case False
      then show ?thesis using other_frame(2) [OF S] by simp
    qed
    then show ?thesis using False by (simp add: orders_out_def rows_out_def)
  qed
qed

end

section \<open>The stock of an activity\<close>

definition any_user :: "int \<Rightarrow> int \<Rightarrow> int \<Rightarrow> bool" where
  "any_user a b u \<longleftrightarrow> b = a"

definition sale_rules :: "Switches \<Rightarrow> dbid list \<Rightarrow> string \<Rightarrow> int \<Rightarrow> rules" where
  "sale_rules sw shards topic a =
     \<lparr>possible = (\<lambda>_ _. True), grants = stock_grants sw a,
      spends = publishes sw shards topic (any_user a), forbidden = restocks sw a\<rparr>"

sublocale services \<subseteq> sale: tickets S "sale_rules sw shards topic a" "\<lambda>w. stock_there sw a (tbl w)"
    "\<lambda>w. stock_units sw a (ks w) (tbl w)" "\<lambda>w. orders_out sw shards topic (any_user a) (tbl w) (log w)"
  for sw shards topic a
proof
  fix c w r w'
  assume S: "S c w = (r, w')" and "\<not> forbidden (sale_rules sw shards topic a) c"
    and "stock_there sw a (tbl w)"
  then show "stock_there sw a (tbl w') \<and> possible (sale_rules sw shards topic a) c r \<and>
      stock_units sw a (ks w') (tbl w') + orders_out sw shards topic (any_user a) (tbl w') (log w') +
        (if grants (sale_rules sw shards topic a) c r then 1 else 0)
      \<le> stock_units sw a (ks w) (tbl w) + orders_out sw shards topic (any_user a) (tbl w) (log w) +
        (if spends (sale_rules sw shards topic a) c then 1 else 0)"
    using stock_conserved [OF S, of sw a] orders_conserved [OF S, of sw shards topic "any_user a"]
    by (auto simp: sale_rules_def split: if_splits)
qed

lemma ambient_sale: "ambient_rules (sale_rules sw shards topic a)"
  unfolding ambient_rules_def
proof (intro allI impI)
  fix c
  assume "ambient_call c"
  then show "neutral (sale_rules sw shards topic a) c"
    by (cases c rule: ambient_call.cases) (auto simp: neutral_def sale_rules_def)
qed

lemma sale_simps [simp]:
  "possible (sale_rules sw shards topic a) c r = True"
  "grants (sale_rules sw shards topic a) = stock_grants sw a"
  "spends (sale_rules sw shards topic a) = publishes sw shards topic (any_user a)"
  "forbidden (sale_rules sw shards topic a) = restocks sw a"
  by (simp_all add: sale_rules_def)

lemma order_db_in: "makes (\<lambda>c. \<exists>d\<in>set (order_dbs sw shards). c = Sql d (InsertOrder x)) (order_create sw shards x)"
  by (auto simp: order_create_eq order_dbs_def shardedOrderRepo_Create_def orderRepo_Create_def
      split: option.splits dest: shard_of_in_set)

text \<open>The ports of every deployment keep to the rules.\<close>

lemma Kafka_create_funded:
  assumes "ambient_rules R" and "\<And>k v t hs. \<not> forbidden R (KWrite topic k v t hs)"
    and "\<And>k v t hs. spends R (KWrite topic k v t hs) \<Longrightarrow> message_for sel v"
    and "sel (o_ActivityID x) (o_UserID x) \<longrightarrow> 0 < n"
  shows "funded R n (KafkaOrderCreator_CreateWithToken topic x tok) (\<lambda>_ _. True)"
  using assms
  by (auto simp: KafkaOrderCreator_CreateWithToken_def SendOrder_def ambient_steps
      dest!: message_for_Marshal assms(3) split: sum.splits)

lemma sync_create_funded:
  assumes "\<And>d. \<not> forbidden R (Sql d (InsertOrder x))"
    and "\<And>d. spends R (Sql d (InsertOrder x)) \<Longrightarrow> 0 < n"
  shows "funded R n (order_create sw shards x) (\<lambda>_ _. True)"
  using assms
  by (auto simp: order_create_eq shardedOrderRepo_Create_def orderRepo_Create_def split: option.splits)

lemma lua_reserve_sale:
  assumes "LuaStock sw"
  shows "funded (sale_rules sw shards topic a) 0 (stockRedisRepo_DeductForUser b u 1 l)
     (\<lambda>n res. \<forall>rem. res = Inr rem \<longrightarrow> any_user a b u \<longrightarrow> 0 < n)"
proof -
  have "restocks sw a (deduct_call b u 1 l) = False"
    using assms by (auto simp: deduct_call_def [of b u 1 l, symmetric])
     (auto simp: deduct_call_def)
  moreover have "stock_grants sw a (deduct_call a u 1 l) (RInt v)" if "0 \<le> v" for v
    using assms that by (auto simp: deduct_call_def)
  moreover have "0 \<le> v \<and> r = RInt v" if "lua_result r = Inr v" for r v
    using that by (auto simp: lua_result_def dest!: as_int_InrD split: sum.splits if_splits)
  moreover have "publishes sw shards topic (any_user a) (deduct_call b u 1 l) = False"
    by (simp add: deduct_call_def)
  ultimately show ?thesis
    by (auto simp: stockRedisRepo_DeductForUser_eq any_user_def)
qed

lemma sql_reserve_sale:
  assumes "\<not> LuaStock sw"
  shows "funded (sale_rules sw shards topic a) 0 (stockRepoSQL_DeductForUser b u 1 l)
     (\<lambda>n res. \<forall>rem. res = Inr rem \<longrightarrow> any_user a b u \<longrightarrow> 0 < n)"
  using assms
  by (auto simp: stockRepoSQL_DeductForUser_def any_user_def dest!: as_int_InrD split: sum.splits)

interpretation sale_client: seckill_ports "sale_rules sw shards topic a"
    "api_service sw shards topic" "any_user a" "\<lambda>_ _. True" for sw shards topic a
proof
  let ?R = "sale_rules sw shards topic a" and ?s = "api_service sw shards topic"
  note amb = ambient_sale [of sw shards topic a]
  fix b u act x n tok new
  show "funded ?R 0 (s_activities ?s b) (\<lambda>_ found. \<forall>act. found = Inr act \<longrightarrow> True)"
    by (rule ambient_funded [OF amb]) (simp_all add: api_service_eq ambient_lookup)
  show "funded ?R 0 (s_stock ?s b u 1 (a_PerUserLimit act)) (\<lambda>n res. \<forall>rem. res = Inr rem \<longrightarrow> any_user a b u \<longrightarrow> 0 < n)"
    using lua_reserve_sale [of sw shards topic a b u "a_PerUserLimit act"]
      sql_reserve_sale [of sw shards topic a b u "a_PerUserLimit act"]
    by (cases "LuaStock sw") (simp_all add: api_service_eq)
  show "funded ?R 0 (s_now ?s) (\<lambda>_ _. True)"
    by (rule ambient_funded [OF amb]) (simp_all add: api_service_eq ambient_time_Now)
  show "funded ?R n (s_nextID ?s) (\<lambda>m _. n \<le> m)"
    by (rule ambient_funded [OF amb]) (simp_all add: api_service_eq ambient_nextID)
  show "funded ?R n new (\<lambda>m _. n \<le> m)" if "s_queue ?s = Some new"
    by (rule ambient_funded [OF amb]) (use that in \<open>auto simp: api_service_eq ambient_QueueService_New\<close>)
  show "funded ?R n (seckill_create ?s x tok) (\<lambda>_ _. True)"
    if "any_user a (o_ActivityID x) (o_UserID x) \<longrightarrow> 0 < n"
    using that
    by (cases "KafkaOrder sw")
       (auto simp: seckill_create_def api_service_eq amb
          intro!: Kafka_create_funded [where sel = "any_user a"] sync_create_funded)
qed

section \<open>The programs of a deployment\<close>

text \<open>
  What runs in a deployment: requests to the API server, on the routes \<open>allowed\<close>; the
  consumer, when orders go through Kafka; the sweeper.
\<close>

inductive_set deployed :: "wire \<Rightarrow> Api \<Rightarrow> string \<Rightarrow> (route \<Rightarrow> bool) \<Rightarrow> unit prog set"
  for W A dlq allowed where
  request: "allowed rt \<Longrightarrow> bindp (serve W A rt c) (\<lambda>_. Ret ()) \<in> deployed W A dlq allowed"
| consumer: "KafkaOrder (api_switches A) \<Longrightarrow>
     bindp (Run fuel (order_consumer (api_switches A) (api_shards A) (api_OrderTopic A) dlq)) (\<lambda>_. Ret ())
       \<in> deployed W A dlq allowed"
| sweeper: "bindp (reconcile_Run fuel s acts) (\<lambda>_. Ret ()) \<in> deployed W A dlq allowed"

text \<open>With the stock in Redis, warming the activity during the sale is left out.\<close>

fun no_restock :: "Api \<Rightarrow> int \<Rightarrow> route \<Rightarrow> bool" where
  "no_restock A a (PostWarm p) = (\<not> (LuaStock (api_switches A) \<and> ParseInt p = Some a))"
| "no_restock A a rt = True"

lemma sale_api_handler:
  assumes "no_restock A a rt"
  shows "funded_handler (sale_rules (api_switches A) (api_shards A) (api_OrderTopic A) a) (api_handler W A rt)"
proof (cases rt)
  case PostSeckill
  let ?R = "sale_rules (api_switches A) (api_shards A) (api_OrderTopic A) a"
  have "funded_handler ?R (handler_Seckill W (api_seckill A))"
    using sale_client.handler_funded unfolding api_seckill_def .
  then show ?thesis
    using funded_Idempotency [OF ambient_middleware [OF ambient_sale]] PostSeckill by (simp add: funded_handler_def)
next
  case (PostWarm p)
  have "makes (neutral (sale_rules (api_switches A) (api_shards A) (api_OrderTopic A) a))
     (AdminWarmActivity W AdminService_Warm (c\<lparr>cx_Param := p\<rparr>))" for c
    by (rule makes_mono [OF makes_AdminWarm])
       (use assms PostWarm ambient_sale in \<open>auto simp: ambient_rules_def neutral_def key_simps\<close>)
  then show ?thesis using PostWarm by (simp add: funded_handler_def funded_neutral)
qed (auto simp: funded_handler_def intro!: ambient_funded [OF ambient_sale] makes_OrderByToken makes_AdminCreate)

lemma sale_consumer:
  assumes "KafkaOrder sw" and "dlq \<noteq> topic"
  shows "funded (sale_rules sw shards topic a) n (Run fuel (order_consumer sw shards topic dlq)) (\<lambda>_ _. True)"
proof (rule funded_neutral)
  show "makes (neutral (sale_rules sw shards topic a)) (Run fuel (order_consumer sw shards topic dlq))"
    by (rule makes_mono [OF makes_order_consumer])
       (use assms ambient_sale in \<open>auto simp: ambient_rules_def neutral_def consumer_call_def\<close>)
qed simp

lemma sale_deployed:
  assumes "p \<in> deployed W A dlq (no_restock A a)" and "dlq \<noteq> api_OrderTopic A"
  shows "funded (sale_rules (api_switches A) (api_shards A) (api_OrderTopic A) a) 0 p (\<lambda>_ _. True)"
  using assms(1)
proof cases
  case (request rt c)
  then show ?thesis
    using funded_serve [OF ambient_middleware [OF ambient_sale] sale_api_handler] by simp
next
  case (consumer fuel)
  then show ?thesis using sale_consumer assms(2) by simp
next
  case (sweeper fuel s acts)
  then show ?thesis by (simp add: ambient_funded [OF ambient_sale ambient_sweeper])
qed

section \<open>Nothing is oversold\<close>

text \<open>Between calls, keys may expire; the tables and the logs are only changed by the program.\<close>

definition expiry :: "keyspace \<Rightarrow> keyspace \<Rightarrow> bool" where
  "expiry ks ks' \<longleftrightarrow> (\<forall>k. ks' k = ks k \<or> ks' k = None)"

lemma expiry_units: "expiry ks ks' \<Longrightarrow> units (stock_left ks' a) \<le> units (stock_left ks a)"
  unfolding expiry_def by (drule spec [of _ "stock_key a"]) (auto simp: stock_left_def)

context services begin

lemma deployment_conserves:
  assumes "reachable S spawn env w0 (ps, w)" and "stock_there (api_switches A) a (tbl w0)"
    and "\<forall>w. spawn w \<subseteq> deployed W A dlq (no_restock A a)" and "dlq \<noteq> api_OrderTopic A"
    and env: "\<forall>w w'. env w w' \<longrightarrow> expiry (ks w) (ks w') \<and> tbl w' = tbl w \<and> log w' = log w"
  shows "stock_there (api_switches A) a (tbl w) \<and>
    stock_units (api_switches A) a (ks w) (tbl w) +
      orders_out (api_switches A) (api_shards A) (api_OrderTopic A) (any_user a) (tbl w) (log w)
    \<le> stock_units (api_switches A) a (ks w0) (tbl w0) +
      orders_out (api_switches A) (api_shards A) (api_OrderTopic A) (any_user a) (tbl w0) (log w0)"
proof (rule sale.never_exceeds [OF assms(1,2)])
  fix w p
  assume "p \<in> spawn w"
  then show "funded (sale_rules (api_switches A) (api_shards A) (api_OrderTopic A) a) 0 p (\<lambda>_ _. True)"
    using assms(3) sale_deployed assms(4) by blast
next
  fix w w'
  assume "env w w'" and "stock_there (api_switches A) a (tbl w)"
  then show "stock_there (api_switches A) a (tbl w') \<and>
    stock_units (api_switches A) a (ks w') (tbl w') +
      orders_out (api_switches A) (api_shards A) (api_OrderTopic A) (any_user a) (tbl w') (log w')
    \<le> stock_units (api_switches A) a (ks w) (tbl w) +
      orders_out (api_switches A) (api_shards A) (api_OrderTopic A) (any_user a) (tbl w) (log w)"
    using env expiry_units [of "ks w" "ks w'" a] by (auto simp: stock_units_def)
qed

end

end
