(* ===== verification/User_Limit.thy ===== *)
theory User_Limit
  imports Oversell
begin

text \<open>
  The per-user limit as a resource: with the stock in Redis, the units are the purchases the
  user's counter still allows.
\<close>

definition the_user :: "int \<Rightarrow> int \<Rightarrow> int \<Rightarrow> int \<Rightarrow> bool" where
  "the_user a u b v \<longleftrightarrow> b = a \<and> v = u"

definition purchase_units :: "int \<Rightarrow> int \<Rightarrow> int \<Rightarrow> keyspace \<Rightarrow> nat" where
  "purchase_units limit a u ks = (case purchases ks a u of None \<Rightarrow> 0 | Some j \<Rightarrow> nat (limit - j))"

fun purchase_grants :: "int \<Rightarrow> int \<Rightarrow> call \<Rightarrow> reply \<Rightarrow> bool" where
  "purchase_grants a u (Redis (EVAL script keys argv)) r =
     ((\<exists>l. Redis (EVAL script keys argv) = deduct_call a u 1 l) \<and> (\<exists>v\<ge>0. r = RInt v))"
| "purchase_grants a u c r = False"

text \<open>Calls that would touch the counter otherwise, or deduct with another limit.\<close>

fun overrides :: "int \<Rightarrow> int \<Rightarrow> int \<Rightarrow> call \<Rightarrow> bool" where
  "overrides limit a u (Redis (EVAL script keys argv)) =
     (\<not> (\<exists>b v l. Redis (EVAL script keys argv) = deduct_call b v 1 l \<and> (b = a \<longrightarrow> l = limit)))"
| "overrides limit a u (Redis (SET k v t)) = (k = user_buy_key a u)"
| "overrides limit a u (Redis (SETNX k v t)) = (k = user_buy_key a u)"
| "overrides limit a u (Redis (INCR k)) = (k = user_buy_key a u)"
| "overrides limit a u c = False"

text \<open>The activity's row carries the limit, and the counter is one the program wrote.\<close>

definition limit_there :: "int \<Rightarrow> int \<Rightarrow> int \<Rightarrow> keyspace \<Rightarrow> (dbid \<Rightarrow> tables) \<Rightarrow> bool" where
  "limit_there limit a u ks t \<longleftrightarrow> small limit \<and>
     (\<exists>act. activities (t MainDB) a = Some act \<and> a_PerUserLimit act = limit) \<and>
     (\<exists>j. purchases ks a u = Some j \<and> small j)"

fun limit_possible :: "int \<Rightarrow> int \<Rightarrow> call \<Rightarrow> reply \<Rightarrow> bool" where
  "limit_possible limit a (Sql d (SelectActivity b)) r =
     (d = MainDB \<and> b = a \<longrightarrow> (\<forall>act. r = RActivity act \<longrightarrow> a_PerUserLimit act = limit))"
| "limit_possible limit a c r = True"

lemma purchases_cong:
  "map_option fst (ks' (user_buy_key a u)) = map_option fst (ks (user_buy_key a u)) \<Longrightarrow>
     purchases ks' a u = purchases ks a u"
  by (cases "ks (user_buy_key a u)"; cases "ks' (user_buy_key a u)") (auto simp: purchases_def)

lemma purchases_other: "ks' (user_buy_key a u) = ks (user_buy_key a u) \<Longrightarrow> purchases ks' a u = purchases ks a u"
  by (simp add: purchases_def)

lemma script_purchases:
  assumes run: "run_lua (stock_deduct [stock_key b, user_buy_key b v] [show_int 1, show_int l]) ks = (r, ks')"
    and j: "purchases ks a u = Some j" "small j" and limit: "small limit" "b = a \<longrightarrow> l = limit"
  shows "\<exists>j'. purchases ks' a u = Some j' \<and> small j' \<and>
    nat (limit - j') + (if a = b \<and> u = v \<and> (\<exists>x\<ge>0. r = RInt x) then 1 else 0) \<le> nat (limit - j)"
  using script_cases [OF run]
proof (elim disjE exE conjE)
  assume "ks' = ks" "\<forall>v. r = RInt v \<longrightarrow> v < 0"
  then show ?thesis using j by fastforce
next
  fix i ttl e
  assume "ks' = ks(stock_key b \<mapsto> (show_int (i - 1), ttl))" and r: "r = RErr e"
  then have "purchases ks' a u = purchases ks a u" by (intro purchases_other) (simp add: key_simps)
  then show ?thesis using j r by simp
next
  fix i m ttl
  assume m: "purchases ks b v = Some m" "in64 (m + 1)"
    "round_double (round_double m + 1) \<le> round_double l"
    and ks': "ks' = ks(stock_key b \<mapsto> (show_int (i - 1), ttl), user_buy_key b v \<mapsto> (show_int (m + 1), Some day))"
  show ?thesis
  proof (cases "a = b \<and> u = v")
    case True
    then have "m = j" using m j by simp
    then have "m + 1 \<le> limit"
      using m(3) j(2) limit True by (auto simp: small_def round_double_id)
    moreover have "purchases ks' a u = Some (m + 1)"
      using True ks' m(2) by (simp add: purchases_def ParseInt_show_int)
    moreover have "small (m + 1)" using calculation j(2) limit \<open>m = j\<close> by (auto simp: small_def)
    ultimately show ?thesis using \<open>m = j\<close> by auto
  next
    case False
    then have "purchases ks' a u = purchases ks a u" using ks' by (intro purchases_other) (auto simp: key_simps)
    then show ?thesis using j False by auto
  qed
qed

lemma redis_sem_purchases:
  assumes sem: "redis_sem c ks = (r, ks')" and ov: "\<not> overrides limit a u (Redis c)"
    and j: "purchases ks a u = Some j" "small j" and limit: "small limit"
  shows "\<exists>j'. purchases ks' a u = Some j' \<and> small j' \<and>
    nat (limit - j') + (if purchase_grants a u (Redis c) r then 1 else 0) \<le> nat (limit - j)"
proof (cases c)
  case (EVAL script keys argv)
  then obtain b v l where c: "Redis c = deduct_call b v 1 l" and l: "b = a \<longrightarrow> l = limit"
    using ov by auto
  then have "run_lua (stock_deduct [stock_key b, user_buy_key b v] [show_int 1, show_int l]) ks = (r, ks')"
    using sem by (auto simp: deduct_call_def)
  note le = script_purchases [OF this j limit l]
  have "purchase_grants a u (Redis c) r = ((\<exists>m. Redis c = deduct_call a u 1 m) \<and> (\<exists>v\<ge>0. r = RInt v))"
    unfolding EVAL by simp
  also have "\<dots> = (a = b \<and> u = v \<and> (\<exists>v\<ge>0. r = RInt v))"
    unfolding c by (auto simp: deduct_call_inject)
  finally show ?thesis using le by simp
next
  case (EXPIRE k t)
  then have "purchases ks' a u = purchases ks a u"
    using sem by (intro purchases_cong) (auto simp: set_ttl_def split: option.splits prod.splits)
  then show ?thesis using EXPIRE j by simp
next
  case (INCR k)
  obtain x ks1 where inc: "incr_by k 1 ks = (x, ks1)" by (cases "incr_by k 1 ks")
  have "ks1 (user_buy_key a u) = ks (user_buy_key a u)"
    using inc INCR ov by (cases rule: incr_by_cases) auto
  moreover have "ks' = ks1" using INCR sem inc by (auto split: sum.splits)
  ultimately have "purchases ks' a u = purchases ks a u" by (intro purchases_other) simp
  then show ?thesis using INCR j by simp
next
  case (SETNX k v t)
  then have "purchases ks' a u = purchases ks a u"
    using sem ov by (intro purchases_other) (auto split: option.splits)
  then show ?thesis using SETNX j by simp
next
  case (SET k v t)
  then have "purchases ks' a u = purchases ks a u"
    using sem ov by (intro purchases_other) auto
  then show ?thesis using SET j by simp
qed (use sem j in auto)

definition limit_rules :: "Switches \<Rightarrow> dbid list \<Rightarrow> string \<Rightarrow> int \<Rightarrow> int \<Rightarrow> int \<Rightarrow> rules" where
  "limit_rules sw shards topic limit a u =
     \<lparr>possible = limit_possible limit a, grants = purchase_grants a u,
      spends = publishes sw shards topic (the_user a u), forbidden = overrides limit a u\<rparr>"

lemma limit_simps [simp]:
  "possible (limit_rules sw shards topic limit a u) = limit_possible limit a"
  "grants (limit_rules sw shards topic limit a u) = purchase_grants a u"
  "spends (limit_rules sw shards topic limit a u) = publishes sw shards topic (the_user a u)"
  "forbidden (limit_rules sw shards topic limit a u) = overrides limit a u"
  by (simp_all add: limit_rules_def)

context services begin

text \<open>An activity's row keeps its limit, and a lookup that finds it reads the limit.\<close>

lemma limit_row:
  assumes S: "S c w = (r, w')" and act: "activities (tbl w MainDB) a = Some act"
    and limit: "a_PerUserLimit act = limit"
  shows "(\<exists>act'. activities (tbl w' MainDB) a = Some act' \<and> a_PerUserLimit act' = limit) \<and>
    limit_possible limit a c r"
proof (cases "\<exists>s. c = Sql MainDB s")
  case True
  then obtain s where c: "c = Sql MainDB s" by blast
  obtain t' where law: "sql_law coll dt s (tbl w MainDB) r t'" and t': "tbl w' MainDB = t'"
    using sql_call [of MainDB s w r w'] S c by auto
  have keeps: "\<exists>act'. activities t0 a = Some act' \<and> a_PerUserLimit act' = limit"
    if "sql_sem coll dt s (tbl w MainDB) = Some (r0, t0)" for r0 t0
    using that act limit by (cases s) (auto split: option.splits if_splits)
  have "limit_possible limit a (Sql MainDB s) r"
    using law act limit by (cases s) (auto simp: sql_law_def)
  moreover have "t' = tbl w MainDB \<or> (\<exists>r0. sql_sem coll dt s (tbl w MainDB) = Some (r0, t'))"
    using law by (auto simp: sql_law_def split: option.splits)
  ultimately show ?thesis using keeps act limit t' c by auto
next
  case no: False
  have "tbl w' MainDB = tbl w MainDB"
  proof (cases "\<exists>d s. c = Sql d s")
    case True
    then obtain d s where c: "c = Sql d s" by blast
    with no have "d \<noteq> MainDB" by blast
    then show ?thesis using sql_call [of d s w r w'] S c by auto
  next
    case False
    then show ?thesis using other_frame(2) [OF S] by simp
  qed
  moreover have "limit_possible limit a c r"
    using no by (cases "(limit, a, c, r)" rule: limit_possible.cases) auto
  ultimately show ?thesis using act limit by auto
qed

lemma purchases_conserved:
  assumes S: "S c w = (r, w')" and ov: "\<not> overrides limit a u c"
    and j: "purchases (ks w) a u = Some j" "small j" and limit: "small limit"
  shows "\<exists>j'. purchases (ks w') a u = Some j' \<and> small j' \<and>
    nat (limit - j') + (if purchase_grants a u c r then 1 else 0) \<le> nat (limit - j)"
proof (cases "\<exists>x. c = Redis x")
  case True
  then obtain x where c: "c = Redis x" by blast
  obtain r0 k0 where sem: "redis_sem x (ks w) = (r0, k0)" by (cases "redis_sem x (ks w)")
  have nr: "\<not> overrides limit a u (Redis x)" using ov c by simp
  note le = redis_sem_purchases [OF sem nr j limit]
  have "(r, ks w') = (r0, k0) \<or> (\<exists>m. r = RErr (GoErr m)) \<and> (ks w' = ks w \<or> ks w' = k0)"
    using redis_call [of x w r w'] S c sem by (simp add: redis_law_def)
  moreover have "\<not> purchase_grants a u (Redis x) (RErr e)" for e by (cases x) auto
  ultimately show ?thesis using le c j by (auto split: if_splits)
next
  case False
  then have "ks w' = ks w" using other_frame(1) [OF S] by blast
  moreover have "\<not> purchase_grants a u c r"
    using False by (cases "(a, u, c, r)" rule: purchase_grants.cases) auto
  ultimately show ?thesis using j by simp
qed

end

sublocale services \<subseteq> purchase: tickets S "limit_rules sw shards topic limit a u"
    "\<lambda>w. limit_there limit a u (ks w) (tbl w)" "\<lambda>w. purchase_units limit a u (ks w)"
    "\<lambda>w. orders_out sw shards topic (the_user a u) (tbl w) (log w)"
  for sw shards topic limit a u
proof
  let ?R = "limit_rules sw shards topic limit a u"
  fix c w r w'
  assume S: "S c w = (r, w')" and ov: "\<not> forbidden ?R c" and inv: "limit_there limit a u (ks w) (tbl w)"
  obtain j act where j: "purchases (ks w) a u = Some j" "small j" and limit: "small limit"
    and act: "activities (tbl w MainDB) a = Some act" "a_PerUserLimit act = limit"
    using inv by (auto simp: limit_there_def)
  obtain j' where j': "purchases (ks w') a u = Some j'" "small j'"
    "nat (limit - j') + (if purchase_grants a u c r then 1 else 0) \<le> nat (limit - j)"
    using purchases_conserved [OF S _ j limit] ov by auto
  show "limit_there limit a u (ks w') (tbl w') \<and> possible ?R c r \<and>
      purchase_units limit a u (ks w') + orders_out sw shards topic (the_user a u) (tbl w') (log w') +
        (if grants ?R c r then 1 else 0)
      \<le> purchase_units limit a u (ks w) + orders_out sw shards topic (the_user a u) (tbl w) (log w) +
        (if spends ?R c then 1 else 0)"
    using limit_row [OF S act] j' j limit orders_conserved [OF S, of sw shards topic "the_user a u"]
    by (auto simp: limit_there_def purchase_units_def split: if_splits)
qed

lemma ambient_limit: "ambient_rules (limit_rules sw shards topic limit a u)"
  unfolding ambient_rules_def
proof (intro allI impI)
  fix c
  assume "ambient_call c"
  then show "neutral (limit_rules sw shards topic limit a u) c"
    by (cases c rule: ambient_call.cases) (auto simp: neutral_def)
qed

lemma lua_reserve_limit:
  assumes "b = a \<longrightarrow> l = limit"
  shows "funded (limit_rules sw shards topic limit a u) 0 (stockRedisRepo_DeductForUser b v 1 l)
     (\<lambda>n res. \<forall>rem. res = Inr rem \<longrightarrow> the_user a u b v \<longrightarrow> 0 < n)"
proof -
  have "overrides limit a u (deduct_call b v 1 l) = False"
    using assms by (auto simp: deduct_call_def key_simps)
  moreover have "purchase_grants a u (deduct_call a u 1 l) (RInt x)" if "0 \<le> x" for x
    using that by (auto simp: deduct_call_def)
  moreover have "0 \<le> x \<and> r = RInt x" if "lua_result r = Inr x" for r x
    using that by (auto simp: lua_result_def dest!: as_int_InrD split: sum.splits if_splits)
  moreover have "publishes sw shards topic (the_user a u) (deduct_call b v 1 l) = False"
    by (simp add: deduct_call_def)
  ultimately show ?thesis
    by (auto simp: stockRedisRepo_DeductForUser_eq the_user_def)
qed

lemma lookup_limit:
  "funded (limit_rules sw shards topic limit a u) 0 (activityRepo_GetByID b)
     (\<lambda>_ found. \<forall>act. found = Inr act \<longrightarrow> b = a \<longrightarrow> a_PerUserLimit act = limit)"
  by (auto simp: activityRepo_GetByID_def as_activity_Inr split: sum.splits)

lemma LuaStock_on: "LuaStock sw \<Longrightarrow> sw\<lparr>LuaStock := True\<rparr> = sw"
  by (cases sw) simp

interpretation limit_client: seckill_ports
    "limit_rules (sw\<lparr>LuaStock := True\<rparr>) shards topic limit a u"
    "api_service (sw\<lparr>LuaStock := True\<rparr>) shards topic" "the_user a u"
    "\<lambda>b act. b = a \<longrightarrow> a_PerUserLimit act = limit"
  for sw shards topic limit a u
proof
  let ?R = "limit_rules (sw\<lparr>LuaStock := True\<rparr>) shards topic limit a u"
    and ?s = "api_service (sw\<lparr>LuaStock := True\<rparr>) shards topic"
  note amb = ambient_limit [of "sw\<lparr>LuaStock := True\<rparr>" shards topic limit a u]
  fix b v act x n tok new
  show "funded ?R 0 (s_activities ?s b)
      (\<lambda>_ found. \<forall>act. found = Inr act \<longrightarrow> b = a \<longrightarrow> a_PerUserLimit act = limit)"
    using lookup_limit by (simp add: api_service_eq)
  show "funded ?R 0 (s_stock ?s b v 1 (a_PerUserLimit act))
      (\<lambda>n res. \<forall>rem. res = Inr rem \<longrightarrow> the_user a u b v \<longrightarrow> 0 < n)"
    if "b = a \<longrightarrow> a_PerUserLimit act = limit"
    using lua_reserve_limit [OF that] by (simp add: api_service_eq)
  show "funded ?R 0 (s_now ?s) (\<lambda>_ _. True)"
    by (rule ambient_funded [OF amb]) (simp_all add: api_service_eq ambient_time_Now)
  show "funded ?R n (s_nextID ?s) (\<lambda>m _. n \<le> m)"
    by (rule ambient_funded [OF amb]) (simp_all add: api_service_eq ambient_nextID)
  show "funded ?R n new (\<lambda>m _. n \<le> m)" if "s_queue ?s = Some new"
    by (rule ambient_funded [OF amb]) (use that in \<open>auto simp: api_service_eq ambient_QueueService_New\<close>)
  show "funded ?R n (seckill_create ?s x tok) (\<lambda>_ _. True)"
    if "the_user a u (o_ActivityID x) (o_UserID x) \<longrightarrow> 0 < n"
    using that
    by (cases "KafkaOrder sw")
       (auto simp: seckill_create_def api_service_eq amb
          intro!: Kafka_create_funded [where sel = "the_user a u"] sync_create_funded)
qed

lemma limit_api_handler:
  assumes "LuaStock (api_switches A)"
  shows "funded_handler (limit_rules (api_switches A) (api_shards A) (api_OrderTopic A) limit a u) (api_handler W A rt)"
proof (cases rt)
  case PostSeckill
  let ?R = "limit_rules (api_switches A) (api_shards A) (api_OrderTopic A) limit a u"
  have "funded_handler ?R (handler_Seckill W (api_seckill A))"
    using limit_client.handler_funded [of "api_switches A" "api_shards A" "api_OrderTopic A" limit a u]
    unfolding api_seckill_def LuaStock_on [OF assms] .
  then show ?thesis
    using funded_Idempotency [OF ambient_middleware [OF ambient_limit]] PostSeckill by (simp add: funded_handler_def)
next
  case (PostWarm p)
  have "makes (neutral (limit_rules (api_switches A) (api_shards A) (api_OrderTopic A) limit a u))
     (AdminWarmActivity W AdminService_Warm (c\<lparr>cx_Param := p\<rparr>))" for c
    by (rule makes_mono [OF makes_AdminWarm])
       (use ambient_limit in \<open>auto simp: ambient_rules_def neutral_def key_simps\<close>)
  then show ?thesis using PostWarm by (simp add: funded_handler_def funded_neutral)
qed (auto simp: funded_handler_def intro!: ambient_funded [OF ambient_limit] makes_OrderByToken makes_AdminCreate)

lemma limit_deployed:
  assumes "p \<in> deployed W A dlq allowed" and "dlq \<noteq> api_OrderTopic A" and "LuaStock (api_switches A)"
  shows "funded (limit_rules (api_switches A) (api_shards A) (api_OrderTopic A) limit a u) 0 p (\<lambda>_ _. True)"
  using assms(1)
proof cases
  case (request rt c)
  then show ?thesis
    using funded_serve [OF ambient_middleware [OF ambient_limit] limit_api_handler [OF assms(3)]] by simp
next
  case (consumer fuel)
  have "makes (neutral (limit_rules (api_switches A) (api_shards A) (api_OrderTopic A) limit a u))
      (Run fuel (order_consumer (api_switches A) (api_shards A) (api_OrderTopic A) dlq))"
    by (rule makes_mono [OF makes_order_consumer])
       (use consumer assms(2) ambient_limit in \<open>auto simp: ambient_rules_def neutral_def consumer_call_def\<close>)
  then show ?thesis using consumer by (simp add: funded_neutral)
next
  case (sweeper fuel s acts)
  then show ?thesis by (simp add: ambient_funded [OF ambient_limit ambient_sweeper])
qed

context services begin

lemma deployment_limits:
  assumes "reachable S spawn env w0 (ps, w)" and "limit_there limit a u (ks w0) (tbl w0)"
    and "\<forall>w. spawn w \<subseteq> deployed W A dlq allowed" and "dlq \<noteq> api_OrderTopic A"
    and "LuaStock (api_switches A)"
    and env: "\<forall>w w'. env w w' \<longrightarrow>
      ks w' (user_buy_key a u) = ks w (user_buy_key a u) \<and> tbl w' = tbl w \<and> log w' = log w"
  shows "limit_there limit a u (ks w) (tbl w) \<and>
    purchase_units limit a u (ks w) +
      orders_out (api_switches A) (api_shards A) (api_OrderTopic A) (the_user a u) (tbl w) (log w)
    \<le> purchase_units limit a u (ks w0) +
      orders_out (api_switches A) (api_shards A) (api_OrderTopic A) (the_user a u) (tbl w0) (log w0)"
proof (rule purchase.never_exceeds [OF assms(1,2)])
  fix w p
  assume "p \<in> spawn w"
  then show "funded (limit_rules (api_switches A) (api_shards A) (api_OrderTopic A) limit a u) 0 p (\<lambda>_ _. True)"
    using assms(3) limit_deployed assms(4,5) by blast
next
  fix w w'
  assume "env w w'" and inv: "limit_there limit a u (ks w) (tbl w)"
  with env have e: "ks w' (user_buy_key a u) = ks w (user_buy_key a u)" "tbl w' = tbl w" "log w' = log w"
    by auto
  have "purchases (ks w') a u = purchases (ks w) a u" using e(1) by (rule purchases_other)
  then show "limit_there limit a u (ks w') (tbl w') \<and>
    purchase_units limit a u (ks w') +
      orders_out (api_switches A) (api_shards A) (api_OrderTopic A) (the_user a u) (tbl w') (log w')
    \<le> purchase_units limit a u (ks w) +
      orders_out (api_switches A) (api_shards A) (api_OrderTopic A) (the_user a u) (tbl w) (log w)"
    using inv e by (simp add: limit_there_def purchase_units_def)
qed

end

end
