(* ===== verification/Provenance.thy ===== *)
theory Provenance
  imports User_Limit
begin

text \<open>
  Where the order rows come from.  With orders through Kafka, a program may insert a row only
  for a message it has fetched from the topic; so every row of an activity is the order of a
  published message, in the database its user is routed to, and the tables never hold more
  rows than there are messages.
\<close>

section \<open>Programs that insert what they fetched\<close>

fun learned :: "string \<Rightarrow> call \<Rightarrow> reply \<Rightarrow> payload set" where
  "learned topic (KFetch t) (RMsg m) = (if t = topic then {msg_value m} else {})"
| "learned topic c r = {}"

primrec backed ::
  "string \<Rightarrow> (payload \<Rightarrow> dbid \<Rightarrow> Order \<Rightarrow> bool) \<Rightarrow> payload set \<Rightarrow> 'a prog \<Rightarrow> (payload set \<Rightarrow> 'a \<Rightarrow> bool) \<Rightarrow> bool" where
  "backed topic B K (Ret a) Q = Q K a"
| "backed topic B K Panic Q = True"
| "backed topic B K (Call c k) Q =
     ((\<forall>d x. c = Sql d (InsertOrder x) \<longrightarrow> (\<exists>v\<in>K. B v d x)) \<and>
      (\<forall>r. backed topic B (K \<union> learned topic c r) (k r) Q))"

lemma backed_bindp [simp]:
  "backed topic B K (bindp p f) Q = backed topic B K p (\<lambda>K' a. backed topic B K' (f a) Q)"
  by (induction p arbitrary: K) auto

lemma backed_mono:
  assumes "backed topic B K p Q" and "K \<subseteq> K'" and "\<And>K K' a. Q K a \<Longrightarrow> K \<subseteq> K' \<Longrightarrow> Q' K' a"
  shows "backed topic B K' p Q'"
  using assms(1,2)
proof (induction p arbitrary: K K')
  case (Ret a)
  then show ?case using assms(3) by auto
next
  case Panic
  then show ?case by simp
next
  case (Call c k)
  show ?case
    unfolding backed.simps
  proof (intro conjI allI impI)
    show "\<exists>v\<in>K'. B v d x" if "c = Sql d (InsertOrder x)" for d x
      using that Call.prems by auto
    show "backed topic B (K' \<union> learned topic c r) (k r) Q'" for r
      by (rule Call.IH [OF rangeI, of "K \<union> learned topic c r"]) (use Call.prems in auto)
  qed
qed

text \<open>A program that inserts nothing.\<close>

definition no_insert :: "call \<Rightarrow> bool" where
  "no_insert c \<longleftrightarrow> \<not> (\<exists>d x. c = Sql d (InsertOrder x))"

lemma backed_no_insert: "makes no_insert p \<Longrightarrow> (\<And>K' a. K \<subseteq> K' \<Longrightarrow> Q K' a) \<Longrightarrow> backed topic B K p Q"
proof (induction p arbitrary: K)
  case (Call c k)
  have "backed topic B (K \<union> learned topic c r) (k r) Q" for r
    by (rule Call.IH) (use Call.prems in auto)
  then show ?case using Call.prems by (auto simp: no_insert_def)
qed auto

text \<open>A program all of whose inserts are backed by what is known already.\<close>

definition backed_call :: "(payload \<Rightarrow> dbid \<Rightarrow> Order \<Rightarrow> bool) \<Rightarrow> payload set \<Rightarrow> call \<Rightarrow> bool" where
  "backed_call B K c \<longleftrightarrow> (\<forall>d x. c = Sql d (InsertOrder x) \<longrightarrow> (\<exists>v\<in>K. B v d x))"

lemma backed_call_insert: "v \<in> K \<Longrightarrow> B v d x \<Longrightarrow> backed_call B K (Sql d (InsertOrder x))"
  by (auto simp: backed_call_def)

lemma backed_call_other [simp]:
  "backed_call B K (Redis rc)" "backed_call B K (KWrite tp k v t hs)" "backed_call B K (KCommit msg)"
  "backed_call B K (Sleep t)" "backed_call B K BreakerAsk" "backed_call B K (BreakerTell b)"
  "backed_call B K (CountMetric m l)" "backed_call B K InjectTrace"
  by (simp_all add: backed_call_def)

lemma backed_makes:
  assumes "makes (backed_call B K) p" and "\<And>K' a. K \<subseteq> K' \<Longrightarrow> Q K' a"
  shows "backed topic B K p Q"
proof -
  have "backed topic B K' p Q" if "K \<subseteq> K'" for K'
    using assms that
  proof (induction p arbitrary: K')
    case (Call c k)
    have "backed topic B (K' \<union> learned topic c r) (k r) Q" for r
      by (rule Call.IH) (use Call.prems in auto)
    then show ?case using Call.prems by (auto simp: backed_call_def) blast
  qed auto
  then show ?thesis by blast
qed

section \<open>The consumer\<close>

definition insert_db :: "Switches \<Rightarrow> dbid list \<Rightarrow> Order \<Rightarrow> dbid option" where
  "insert_db sw shards x =
     (if ShardedOrder sw \<and> shards \<noteq> [] then shard_of shards (o_UserID x) else Some MainDB)"

definition order_from :: "Switches \<Rightarrow> dbid list \<Rightarrow> payload \<Rightarrow> dbid \<Rightarrow> Order \<Rightarrow> bool" where
  "order_from sw shards v d x \<longleftrightarrow>
     (\<exists>m. UnmarshalOrderMessage v = (m, None) \<and> x = order_of m) \<and> insert_db sw shards x = Some d"

lemma order_create_db:
  "makes (\<lambda>c. \<exists>d. c = Sql d (InsertOrder x) \<and> insert_db sw shards x = Some d) (order_create sw shards x)"
  by (auto simp: order_create_eq insert_db_def shardedOrderRepo_Create_def orderRepo_Create_def
      split: option.splits)

lemma backed_Run:
  "backed topic (order_from sw shards) K (Run fuel (order_consumer sw shards topic dlq)) (\<lambda>_ _. True)"
proof (induction fuel arbitrary: K)
  case (Suc fuel)
  let ?c = "order_consumer sw shards topic dlq"
  let ?P = "backed_call (order_from sw shards)"
  have dl: "makes (?P K) (dead_letter ?c raw reason)" for raw reason K
    by (auto simp: dead_letter_def order_consumer_def consumer_dlq_def MarkFailed_def
        intro!: makes_bindp makes_SendOrder split: prod.splits)
  have handle: "makes (?P K) (Handle (materializer sw shards) om)"
    if "UnmarshalOrderMessage v = (om, None)" "v \<in> K" for om v K
    by (intro makes_Handle)
       (use that in \<open>auto simp: materializer_eq order_from_def
          intro!: makes_mono [OF order_create_db] backed_call_insert [of v]\<close>)
  have process: "makes (?P K) (process_message ?c msg)" if "msg_value msg \<in> K" for msg K
  proof -
    obtain om e where u: "UnmarshalOrderMessage (msg_value msg) = (om, e)"
      by (cases "UnmarshalOrderMessage (msg_value msg)")
    have "c_handler ?c om = Handle (materializer sw shards) om" by (simp add: order_consumer_def)
    moreover have "makes (?P K) (Handle (materializer sw shards) om)" if "e = None"
      by (rule handle [OF _ \<open>msg_value msg \<in> K\<close>]) (use u that in simp)
    ultimately have "makes (?P K) (retry (c_maxRetries ?c) (c_handler ?c om))" if "e = None"
      by (intro makes_retry) (use that in auto)
    then show ?thesis
      by (auto simp: process_message_def u intro!: makes_bindp dl split: option.splits)
  qed
  have step: "backed topic (order_from sw shards) K (process_message ?c msg)
      (\<lambda>K stop. backed topic (order_from sw shards) K
         (case stop of None \<Rightarrow> Run fuel ?c | Some err \<Rightarrow> Ret (Returned (Some err))) (\<lambda>_ _. True))"
    if "msg_value msg \<in> K" for K msg
    by (rule backed_makes [OF process [OF that]]) (auto simp: Suc split: option.splits)
  have topic: "c_topic ?c = topic" by (simp add: order_consumer_def)
  have fetched: "backed topic (order_from sw shards) (K \<union> learned topic (KFetch topic) r)
      (case as_msg r of
           Inl err \<Rightarrow> Call CtxDone (\<lambda>done.
             if val_bool done then Ret (Returned None) else Ret (Returned (Some err)))
         | Inr msg \<Rightarrow> bindp (process_message ?c msg) (\<lambda>stop.
             case stop of None \<Rightarrow> Run fuel ?c | Some err \<Rightarrow> Ret (Returned (Some err)))) (\<lambda>_ _. True)" for r
  proof (cases r)
    case (RMsg m)
    then show ?thesis using step [of m "insert (msg_value m) K"] by simp
  qed (simp_all add: as_msg_def)
  show ?case by (simp add: topic fetched)
qed simp

section \<open>The other programs insert nothing\<close>

lemma ambient_no_insert: "ambient_call c \<Longrightarrow> no_insert c"
  by (auto simp: no_insert_def)

lemma makes_no_insert: "makes ambient_call p \<Longrightarrow> makes no_insert p"
  by (erule makes_mono) (rule ambient_no_insert)

text \<open>Insertion as a resource nobody holds: the funding lemmas apply to it.\<close>

definition insert_rules :: rules where
  "insert_rules = \<lparr>possible = (\<lambda>_ _. True), grants = (\<lambda>_ _. False), spends = (\<lambda>_. False),
     forbidden = (\<lambda>c. \<not> no_insert c)\<rparr>"

lemma funded_insert_rules: "funded insert_rules n p (\<lambda>_ _. True) \<longleftrightarrow> makes no_insert p"
  by (induction p arbitrary: n) (auto simp: insert_rules_def)

lemma ambient_insert_rules: "ambient_rules insert_rules"
  by (auto simp: ambient_rules_def neutral_def insert_rules_def dest: ambient_no_insert)

lemma makes_no_insert_weak: "makes no_insert p \<Longrightarrow> (\<And>a. Q n a) \<Longrightarrow> funded insert_rules n p Q"
  by (rule funded_neutral) (auto simp: neutral_def insert_rules_def elim!: makes_mono)

interpretation insert_client: seckill_ports insert_rules
    "api_service (sw\<lparr>KafkaOrder := True\<rparr>) shards topic" "\<lambda>_ _. False" "\<lambda>_ _. True"
  for sw shards topic
proof
  let ?s = "api_service (sw\<lparr>KafkaOrder := True\<rparr>) shards topic"
  fix b u act x n tok new
  show "funded insert_rules 0 (s_activities ?s b) (\<lambda>_ found. \<forall>act. found = Inr act \<longrightarrow> True)"
    by (rule makes_no_insert_weak) (simp_all add: api_service_eq makes_no_insert ambient_lookup)
  show "funded insert_rules 0 (s_stock ?s b u 1 (a_PerUserLimit act))
      (\<lambda>n res. \<forall>rem. res = Inr rem \<longrightarrow> False \<longrightarrow> 0 < n)"
    by (rule makes_no_insert_weak)
       (auto simp: api_service_eq stockRedisRepo_DeductForUser_def stockRepoSQL_DeductForUser_def
          deduct_call_def no_insert_def split: sum.splits)
  show "funded insert_rules 0 (s_now ?s) (\<lambda>_ _. True)"
    by (rule makes_no_insert_weak) (simp_all add: api_service_eq makes_no_insert ambient_time_Now)
  show "funded insert_rules n (s_nextID ?s) (\<lambda>m _. n \<le> m)"
    by (rule makes_no_insert_weak)
       (simp_all add: api_service_eq makes_no_insert ambient_nextID)
  show "funded insert_rules n new (\<lambda>m _. n \<le> m)" if "s_queue ?s = Some new"
    by (rule makes_no_insert_weak)
       (use that in \<open>auto simp: api_service_eq makes_no_insert ambient_QueueService_New\<close>)
  show "funded insert_rules n (seckill_create ?s x tok) (\<lambda>_ _. True)"
    by (rule makes_no_insert_weak)
       (auto simp: seckill_create_def api_service_eq KafkaOrderCreator_CreateWithToken_def
          no_insert_def intro!: makes_SendOrder)
qed

lemma KafkaOrder_on: "KafkaOrder sw \<Longrightarrow> sw\<lparr>KafkaOrder := True\<rparr> = sw"
  by (cases sw) simp

lemma insert_api_handler:
  assumes "KafkaOrder (api_switches A)"
  shows "funded_handler insert_rules (api_handler W A rt)"
proof (cases rt)
  case PostSeckill
  have "funded_handler insert_rules (handler_Seckill W (api_seckill A))"
    using insert_client.handler_funded [where sw = "api_switches A" and shards = "api_shards A" and topic = "api_OrderTopic A"]
    unfolding api_seckill_def KafkaOrder_on [OF assms] .
  then show ?thesis
    using funded_Idempotency [OF ambient_middleware [OF ambient_insert_rules]] PostSeckill by (simp add: funded_handler_def)
next
  case (PostWarm p)
  have "makes no_insert (AdminWarmActivity W AdminService_Warm (c\<lparr>cx_Param := p\<rparr>))" for c
    by (rule makes_mono [OF makes_AdminWarm]) (auto simp: no_insert_def)
  then show ?thesis using PostWarm by (simp add: funded_handler_def funded_insert_rules)
qed (auto simp: funded_handler_def
      intro!: ambient_funded [OF ambient_insert_rules] makes_OrderByToken makes_AdminCreate)

lemma backed_deployed:
  assumes "p \<in> deployed W A dlq allowed" and kafka: "KafkaOrder (api_switches A)"
  shows "backed (api_OrderTopic A) (order_from (api_switches A) (api_shards A)) K p (\<lambda>_ _. True)"
  using assms(1)
proof cases
  case (request rt c)
  then show ?thesis
    using funded_serve [OF ambient_middleware [OF ambient_insert_rules] insert_api_handler [OF kafka], of 0 W rt c]
    unfolding funded_insert_rules by (simp add: backed_no_insert)
next
  case (consumer fuel)
  then show ?thesis by (simp add: backed_Run)
next
  case (sweeper fuel s acts)
  then show ?thesis by (simp add: backed_no_insert makes_no_insert ambient_sweeper)
qed

section \<open>Rows and messages\<close>

text \<open>
  The rows selected are orders of messages, in the database they are routed to, and within a
  database their ids differ.
\<close>

definition rows_backed ::
  "(payload \<Rightarrow> dbid \<Rightarrow> Order \<Rightarrow> bool) \<Rightarrow> (int \<Rightarrow> int) \<Rightarrow> (int \<Rightarrow> int \<Rightarrow> bool) \<Rightarrow> (dbid \<Rightarrow> tables) \<Rightarrow>
   payload set \<Rightarrow> bool" where
  "rows_backed B dt sel t L \<longleftrightarrow>
     (\<forall>d. \<forall>y\<in>set (orders_0 (t d)). sel (o_ActivityID y) (o_UserID y) \<longrightarrow>
        (\<exists>v\<in>L. \<exists>x. B v d x \<and> y = stored_order dt x)) \<and>
     (\<forall>d. distinct (map o_ID (filter (\<lambda>x. sel (o_ActivityID x) (o_UserID x)) (orders_0 (t d)))))"

lemma rows_backed_mono: "rows_backed B dt sel t L \<Longrightarrow> L \<subseteq> L' \<Longrightarrow> rows_backed B dt sel t L'"
  unfolding rows_backed_def by blast

lemma rows_backed_cong:
  "rows_backed B dt sel t L \<Longrightarrow> (\<And>d. orders_0 (t' d) = orders_0 (t d)) \<Longrightarrow> rows_backed B dt sel t' L"
  by (simp add: rows_backed_def)

lemma rows_backed_insert:
  assumes old: "rows_backed B dt sel t L" and v: "v \<in> L" "B v d x"
    and fresh: "\<not> order_conflict coll x (orders_0 (t d))"
    and t': "t' = t(d := (t d)\<lparr>orders_0 := orders_0 (t d) @ [stored_order dt x]\<rparr>)"
  shows "rows_backed B dt sel t' L"
  unfolding rows_backed_def
proof (intro conjI allI ballI impI)
  fix d' y
  assume "y \<in> set (orders_0 (t' d'))" and sel: "sel (o_ActivityID y) (o_UserID y)"
  then consider "y \<in> set (orders_0 (t d'))" | "d' = d" "y = stored_order dt x"
    using t' by (auto split: if_splits)
  then show "\<exists>v\<in>L. \<exists>x. B v d' x \<and> y = stored_order dt x"
    using old sel v by cases (auto simp: rows_backed_def)
next
  fix d'
  have "\<forall>y\<in>set (orders_0 (t d)). o_ID y \<noteq> o_ID x" using fresh by (auto simp: order_conflict_iff)
  then show "distinct (map o_ID (filter (\<lambda>x. sel (o_ActivityID x) (o_UserID x)) (orders_0 (t' d'))))"
    using old t' by (auto simp: rows_backed_def stored_order_def)
qed

text \<open>The tables hold at most as many selected rows as there are selected messages.\<close>

lemma rows_le_messages:
  assumes "rows_backed (order_from sw shards) dt sel t (set L)"
  shows "rows_out sw shards sel t \<le> card (set (filter (message_for sel) L))"
proof -
  let ?sel = "\<lambda>x. sel (o_ActivityID x) (o_UserID x)"
  let ?ids = "\<lambda>d. set (map o_ID (filter ?sel (orders_0 (t d))))"
  let ?place = "\<lambda>v. let m = fst (UnmarshalOrderMessage v)
      in (the (insert_db sw shards (order_of m)), m_OrderID m)"
  have "length (filter ?sel (orders_0 (t d))) = card (?ids d)" for d
    using assms distinct_card [of "map o_ID (filter ?sel (orders_0 (t d)))"] by (simp add: rows_backed_def)
  then have "rows_out sw shards sel t = card (SIGMA d:set (order_dbs sw shards). ?ids d)"
    by (simp add: rows_out_def card_SigmaI)
  also have "(SIGMA d:set (order_dbs sw shards). ?ids d) \<subseteq> ?place ` set (filter (message_for sel) L)"
  proof
    fix p
    assume "p \<in> (SIGMA d:set (order_dbs sw shards). ?ids d)"
    then obtain d y where p: "p = (d, o_ID y)" and y: "y \<in> set (orders_0 (t d))" "?sel y" by auto
    then obtain v x where v: "v \<in> set L" and o: "order_from sw shards v d x" and yx: "y = stored_order dt x"
      using assms unfolding rows_backed_def by blast
    then obtain m where m: "UnmarshalOrderMessage v = (m, None)" "x = order_of m"
      "insert_db sw shards x = Some d" by (auto simp: order_from_def)
    then have "message_for sel v" and "p = ?place v"
      using y(2) yx p by (auto simp: message_for_def stored_order_def order_of_def)
    then show "p \<in> ?place ` set (filter (message_for sel) L)" using v by auto
  qed
  then have "card (SIGMA d:set (order_dbs sw shards). ?ids d) \<le> card (?place ` set (filter (message_for sel) L))"
    by (intro card_mono) auto
  also have "\<dots> \<le> card (set (filter (message_for sel) L))" by (intro card_image_le) simp
  finally show ?thesis .
qed

context services begin

lemma log_grows:
  assumes "S c w = (r, w')"
  shows "set (log w topic) \<subseteq> set (log w' topic)"
proof (cases "\<exists>tp k v t hs. c = KWrite tp k v t hs")
  case True
  then obtain tp k v t hs where "c = KWrite tp k v t hs" by blast
  then show ?thesis using kafka_write [of tp k v t hs w r w'] assms by fastforce
next
  case False
  then show ?thesis using other_frame(3) [OF assms] by simp
qed

lemma learned_in_log:
  assumes "S c w = (r, w')"
  shows "learned topic c r \<subseteq> set (log w' topic)"
proof (cases "(topic, c, r)" rule: learned.cases)
  case (1 topic' t m)
  then have "msg_value m \<in> set (log w t)" using fetched assms by blast
  then show ?thesis using 1 log_grows [OF assms, of t] by auto
qed auto

definition sourced ::
  "string \<Rightarrow> (payload \<Rightarrow> dbid \<Rightarrow> Order \<Rightarrow> bool) \<Rightarrow> (int \<Rightarrow> int \<Rightarrow> bool) \<Rightarrow> unit prog list \<times> 'w \<Rightarrow> bool" where
  "sourced topic B sel s = (case s of (ps, w) \<Rightarrow>
     rows_backed B dt sel (tbl w) (set (log w topic)) \<and>
     (\<forall>p\<in>set ps. \<exists>K \<subseteq> set (log w topic). backed topic B K p (\<lambda>_ _. True)))"

lemma sourced_exec:
  assumes inv: "sourced topic B sel (ps, w)" and i: "i < length ps" and c: "ps ! i = Call c k"
    and S: "S c w = (r, w')"
  shows "sourced topic B sel (ps[i := k r], w')"
proof -
  obtain K where K: "K \<subseteq> set (log w topic)" and b: "backed topic B K (Call c k) (\<lambda>_ _. True)"
    using inv i c nth_mem [OF i] by (fastforce simp: sourced_def)
  have mono: "set (log w topic) \<subseteq> set (log w' topic)" using S by (rule log_grows)
  have old: "rows_backed B dt sel (tbl w) (set (log w' topic))"
    using inv rows_backed_mono [OF _ mono] by (simp add: sourced_def)
  have rows: "rows_backed B dt sel (tbl w') (set (log w' topic))"
  proof (cases "\<exists>d x. c = Sql d (InsertOrder x)")
    case True
    then obtain d x where dx: "c = Sql d (InsertOrder x)" by blast
    then obtain v where v: "v \<in> K" "B v d x" using b by auto
    then have "v \<in> set (log w' topic)" using K mono by blast
    then show ?thesis
      using insert_order_cases [of d x w r w'] S dx old v rows_backed_insert [OF old _ v(2), of coll] by auto
  next
    case no: False
    have "orders_0 (tbl w' d') = orders_0 (tbl w d')" for d'
    proof (cases "\<exists>d s. c = Sql d s")
      case True
      then show ?thesis using no sql_rows_frame S by blast
    next
      case False
      then show ?thesis using other_frame(2) [OF S] by simp
    qed
    then show ?thesis by (rule rows_backed_cong [OF old])
  qed
  have "\<exists>K \<subseteq> set (log w' topic). backed topic B K p (\<lambda>_ _. True)" if "p \<in> set (ps[i := k r])" for p
  proof -
    from that consider "p = k r" | "p \<in> set ps" using set_update_subset_insert by fastforce
    then show ?thesis
    proof cases
      case 1
      then show ?thesis
        using b K mono learned_in_log [OF S, of topic]
        by (intro exI [of _ "K \<union> learned topic c r"]) auto
    next
      case 2
      moreover have "\<forall>p\<in>set ps. \<exists>K \<subseteq> set (log w topic). backed topic B K p (\<lambda>_ _. True)"
        using inv by (simp add: sourced_def)
      ultimately obtain K' where K': "K' \<subseteq> set (log w topic)" "backed topic B K' p (\<lambda>_ _. True)" by blast
      from K'(1) mono have "K' \<subseteq> set (log w' topic)" by (rule order_trans)
      then show ?thesis using K'(2) by (intro exI conjI)
    qed
  qed
  then show ?thesis using rows by (simp add: sourced_def)
qed

lemma rows_bounded:
  assumes "reachable S spawn env w0 (ps, w)" and "KafkaOrder (api_switches A)"
    and init: "rows_backed (order_from (api_switches A) (api_shards A)) dt sel (tbl w0) (set (log w0 (api_OrderTopic A)))"
    and spawn: "\<forall>w. spawn w \<subseteq> deployed W A dlq allowed"
    and env: "\<forall>w w'. env w w' \<longrightarrow> tbl w' = tbl w \<and> log w' = log w"
  shows "rows_out (api_switches A) (api_shards A) sel (tbl w)
    \<le> card (set (filter (message_for sel) (log w (api_OrderTopic A))))"
proof -
  let ?I = "sourced (api_OrderTopic A) (order_from (api_switches A) (api_shards A)) sel"
  have "?I (ps, w)"
  proof (rule reachable_invariant [OF assms(1)])
    show "?I ([], w0)" using init by (simp add: sourced_def)
  next
    fix s t
    assume I: "?I s" and step: "sys_step S spawn env s t"
    from step show "?I t"
    proof (cases rule: sys_step.cases)
      case (exec i ps c k w r w')
      then show ?thesis using I sourced_exec by blast
    next
      case (start p w ps)
      have "backed (api_OrderTopic A) (order_from (api_switches A) (api_shards A)) {} p (\<lambda>_ _. True)"
        using backed_deployed [OF _ assms(2)] spawn start(3) by blast
      then show ?thesis using I start by (fastforce simp: sourced_def)
    next
      case (environment w w' ps)
      then have "tbl w' = tbl w \<and> log w' = log w" using env by blast
      then show ?thesis using I environment by (simp add: sourced_def)
    qed
  qed
  then show ?thesis by (intro rows_le_messages [of _ _ dt]) (simp add: sourced_def)
qed

end

end
