(* ===== verification/Machines.thy ===== *)
theory Machines
  imports Reservation
begin

text \<open>
  Programs that follow a state machine, and what holds of a pool of them.  A discipline says
  which calls are allowed in a state and how a reply moves it.  If every allowed step keeps the
  cost of the states plus what is used in the world from growing, then no interleaving uses
  more than was used at the start and left to take.
\<close>

section \<open>Programs that follow a state machine\<close>

text \<open>
  \<open>follows D s p Q\<close>: from state \<open>s\<close> the program makes allowed calls only, whatever the possible
  replies, and returns in a state that satisfies \<open>Q\<close>.
\<close>

record 's discipline =
  allow :: "'s \<Rightarrow> call \<Rightarrow> bool"
  may :: "'s \<Rightarrow> call \<Rightarrow> reply \<Rightarrow> bool"
  after :: "'s \<Rightarrow> call \<Rightarrow> reply \<Rightarrow> 's"

primrec follows :: "'s discipline \<Rightarrow> 's \<Rightarrow> 'a prog \<Rightarrow> ('s \<Rightarrow> 'a \<Rightarrow> bool) \<Rightarrow> bool" where
  "follows D s (Ret a) Q = Q s a"
| "follows D s Panic Q = True"
| "follows D s (Call c k) Q =
     (allow D s c \<and> (\<forall>r. may D s c r \<longrightarrow> follows D (after D s c r) (k r) Q))"

lemma follows_bindp [simp]:
  "follows D s (bindp p f) Q = follows D s p (\<lambda>t a. follows D t (f a) Q)"
  by (induction p arbitrary: s) auto

lemma follows_weaken: "follows D s p Q \<Longrightarrow> (\<And>t a. Q t a \<Longrightarrow> Q' t a) \<Longrightarrow> follows D s p Q'"
  by (induction p arbitrary: s) auto

lemma follows_recover:
  assumes "follows D s p Q" and "\<And>t. follows D t h Q"
  shows "follows D s (recover h p) Q"
  using assms(1) by (induction p arbitrary: s) (auto simp: assms(2))

text \<open>A program all of whose calls keep a set of states inside which they are allowed.\<close>

lemma follows_makes:
  assumes "makes (\<lambda>c. \<forall>s\<in>T. allow D s c \<and> (\<forall>r. after D s c r \<in> T)) p" and "s \<in> T"
    and "\<And>t a. t \<in> T \<Longrightarrow> Q t a"
  shows "follows D s p Q"
  using assms(1,2) by (induction p arbitrary: s) (auto simp: assms(3))

section \<open>A pool of programs\<close>

text \<open>
  \<open>fits w s\<close>: state \<open>s\<close> is possible in world \<open>w\<close>; \<open>cost s\<close>: what a program in state \<open>s\<close> may still
  use; \<open>used w\<close>: what is used already, plus what nobody has taken yet.
\<close>

locale machines =
  fixes S :: "call \<Rightarrow> 'w \<Rightarrow> reply \<times> 'w"
    and D :: "'s discipline"
    and start :: 's
    and fits :: "'w \<Rightarrow> 's \<Rightarrow> bool"
    and cost :: "'s \<Rightarrow> nat"
    and used :: "'w \<Rightarrow> nat"
  assumes step: "S c w = (r, w') \<Longrightarrow> fits w s \<Longrightarrow> allow D s c \<Longrightarrow>
      may D s c r \<and> fits w' (after D s c r) \<and> used w' + cost (after D s c r) \<le> used w + cost s"
    and stable: "S c w = (r, w') \<Longrightarrow> fits w t \<Longrightarrow> fits w' t"
    and start_fits: "fits w start"
    and start_cost: "cost start = 0"
begin

definition sound :: "nat \<Rightarrow> unit prog list \<times> 'w \<Rightarrow> bool" where
  "sound N x = (case x of (ps, w) \<Rightarrow> \<exists>ss.
     list_all2 (\<lambda>s p. follows D s p (\<lambda>_ _. True)) ss ps \<and> (\<forall>s\<in>set ss. fits w s) \<and>
     used w + sum_list (map cost ss) \<le> N)"

lemma sound_exec:
  assumes "sound N (ps, w)" and i: "i < length ps" and c: "ps ! i = Call c k"
    and S: "S c w = (r, w')"
  shows "sound N (ps[i := k r], w')"
proof -
  obtain ss where ss: "list_all2 (\<lambda>s p. follows D s p (\<lambda>_ _. True)) ss ps"
    and fits: "\<forall>s\<in>set ss. fits w s" and le: "used w + sum_list (map cost ss) \<le> N"
    using assms(1) by (auto simp: sound_def)
  have len: "i < length ss" using ss i by (simp add: list_all2_lengthD)
  have f: "follows D (ss ! i) (Call c k) (\<lambda>_ _. True)"
    using ss i c len by (metis list_all2_nthD)
  let ?t = "after D (ss ! i) c r"
  have law: "may D (ss ! i) c r" "fits w' ?t" "used w' + cost ?t \<le> used w + cost (ss ! i)"
    using step [OF S, of "ss ! i"] fits f len by auto
  have "list_all2 (\<lambda>s p. follows D s p (\<lambda>_ _. True)) (ss[i := ?t]) (ps[i := k r])"
    using ss f law(1) by (intro list_all2_update_cong) auto
  moreover have "fits w' s" if "s \<in> set (ss[i := ?t])" for s
    using that set_update_subset_insert [of ss i ?t] law(2) fits stable [OF S] by auto
  moreover have "used w' + sum_list (map cost (ss[i := ?t])) \<le> N"
  proof -
    have "cost (ss ! i) \<le> sum_list (map cost ss)"
      using len by (intro member_le_sum_list) auto
    moreover have "sum_list ((map cost ss)[i := cost ?t]) = sum_list (map cost ss) + cost ?t - map cost ss ! i"
      using len by (intro sum_list_update) simp
    ultimately show ?thesis using le law(3) len by (simp add: map_update)
  qed
  ultimately show ?thesis by (auto simp: sound_def)
qed

lemma never_uses_more:
  assumes "reachable S spawn env w0 (ps, w)"
    and spawn: "\<And>w p. p \<in> spawn w \<Longrightarrow> follows D start p (\<lambda>_ _. True)"
    and env: "\<And>w w'. env w w' \<Longrightarrow> used w' \<le> used w \<and> (\<forall>t. fits w t \<longrightarrow> fits w' t)"
  shows "used w \<le> used w0"
proof -
  have "sound (used w0) (ps, w)"
  proof (rule reachable_invariant [OF assms(1)])
    show "sound (used w0) ([], w0)" by (simp add: sound_def)
  next
    fix x y
    assume I: "sound (used w0) x" and y: "sys_step S spawn env x y"
    from y show "sound (used w0) y"
    proof (cases rule: sys_step.cases)
      case (exec i ps c k w r w')
      then show ?thesis using I sound_exec by blast
    next
      case (start p w ps)
      then obtain ss where ss: "list_all2 (\<lambda>s p. follows D s p (\<lambda>_ _. True)) ss ps" "\<forall>s\<in>set ss. fits w s"
        "used w + sum_list (map cost ss) \<le> used w0"
        using I by (auto simp: sound_def)
      have "list_all2 (\<lambda>s p. follows D s p (\<lambda>_ _. True)) (ss @ [start]) (ps @ [p])"
        using ss(1) spawn [OF start(3)] by (auto intro: list_all2_appendI)
      with ss(2,3) show ?thesis
        unfolding start(2) sound_def
        by (auto simp: start_fits start_cost intro!: exI [of _ "ss @ [start]"])
    next
      case (environment w w' ps)
      then show ?thesis using I env [of w w'] unfolding sound_def by fastforce
    qed
  qed
  then show ?thesis by (auto simp: sound_def)
qed

end

end
