(* ===== verification/Exclusive.thy ===== *)
theory Exclusive
  imports Provenance Machines
begin

text \<open>
  Idempotency under concurrency.  Every request that carries an idempotency token goes through
  the phases of a small state machine as it makes its calls; only the request that won the key
  may publish the order, and it publishes once.  Counting winners over all running programs
  bounds the orders published with one token.
\<close>

section \<open>The phases of a request\<close>

datatype phase = Fresh | Won | Lost | Spent

definition order_message_for :: "int \<Rightarrow> int \<Rightarrow> string \<Rightarrow> payload \<Rightarrow> bool" where
  "order_message_for a u tok v =
     (case UnmarshalOrderMessage v of
        (m, None) \<Rightarrow> m_ActivityID m = a \<and> m_UserID m = u \<and> m_IdempotencyToken m = tok
      | (m, Some _) \<Rightarrow> False)"

text \<open>How many distinct orders with the token are out.\<close>

definition token_orders :: "int \<Rightarrow> int \<Rightarrow> string \<Rightarrow> payload list \<Rightarrow> nat" where
  "token_orders a u tok L = card (set (filter (order_message_for a u tok) L))"

fun sends :: "string \<Rightarrow> (payload \<Rightarrow> bool) \<Rightarrow> call \<Rightarrow> bool" where
  "sends topic P (KWrite tp key v t hs) = (tp = topic \<and> P v)"
| "sends topic P c = False"

fun token_may :: "string \<Rightarrow> phase \<Rightarrow> call \<Rightarrow> reply \<Rightarrow> bool" where
  "token_may key ph (Redis (SETNX k v t)) r = (k = key \<longrightarrow> (\<exists>b. r = RBool b))"
| "token_may key ph (Redis (GET k)) r = (k = key \<and> ph = Lost \<longrightarrow> (\<exists>v. r = RStr v))"
| "token_may key ph c r = True"

fun token_after :: "string \<Rightarrow> (call \<Rightarrow> bool) \<Rightarrow> phase \<Rightarrow> call \<Rightarrow> reply \<Rightarrow> phase" where
  "token_after key pub Fresh (Redis (SETNX k v t)) r =
     (if k \<noteq> key then Fresh else if r = RBool True then Won else Lost)"
| "token_after key pub Won c r = (if pub c then Spent else Won)"
| "token_after key pub ph c r = ph"

definition token_discipline :: "string \<Rightarrow> int \<Rightarrow> int \<Rightarrow> string \<Rightarrow> phase discipline" where
  "token_discipline topic a u tok =
     \<lparr>allow = (\<lambda>ph c. sends topic (order_message_for a u tok) c \<longrightarrow> ph = Won),
      may = token_may (idem_key a u tok),
      after = token_after (idem_key a u tok) (sends topic (order_message_for a u tok))\<rparr>"

lemma token_simps [simp]:
  "allow (token_discipline topic a u tok) ph c \<longleftrightarrow> (sends topic (order_message_for a u tok) c \<longrightarrow> ph = Won)"
  "may (token_discipline topic a u tok) = token_may (idem_key a u tok)"
  "after (token_discipline topic a u tok) =
     token_after (idem_key a u tok) (sends topic (order_message_for a u tok))"
  by (simp_all add: token_discipline_def)

lemma order_message_for_Marshal:
  "Marshal m = Inr v \<Longrightarrow> order_message_for a u tok v \<Longrightarrow>
     m_ActivityID m = a \<and> m_UserID m = u \<and> m_IdempotencyToken m = tok"
  by (auto simp: order_message_for_def split: prod.splits option.splits dest: Marshal_decodes)

text \<open>A program that sends no order with the token follows the machine, and keeps every phase but the first.\<close>

lemma follows_silent:
  "makes (\<lambda>c. \<not> sends topic (order_message_for a u tok) c) p \<Longrightarrow>
     follows (token_discipline topic a u tok) ph p (\<lambda>_ _. True)"
  by (rule follows_makes [where T = UNIV]) (auto elim!: makes_mono)

lemma token_after_silent:
  "\<not> pub c \<Longrightarrow> ph \<noteq> Fresh \<Longrightarrow> token_after key pub ph c r = ph"
  by (cases ph) auto

lemma follows_keeps:
  assumes "makes (\<lambda>c. \<not> sends topic (order_message_for a u tok) c) p" and "ph \<noteq> Fresh"
    and "\<And>x. Q ph x"
  shows "follows (token_discipline topic a u tok) ph p Q"
  by (rule follows_makes [where T = "{ph}"])
     (use assms in \<open>auto simp: token_after_silent elim: makes_mono\<close>)

lemma silent_ambient: "makes ambient_call p \<Longrightarrow> makes (\<lambda>c. \<not> sends topic P c) p"
  by (erule makes_mono) (auto elim: sends.elims)

section \<open>The request handlers\<close>

definition follows_handler :: "phase discipline \<Rightarrow> handler \<Rightarrow> bool" where
  "follows_handler D h \<longleftrightarrow> (\<forall>c. follows D Fresh (h c) (\<lambda>_ _. True))"

lemma follows_handlerD: "follows_handler D h \<Longrightarrow> follows D Fresh (h c) (\<lambda>_ _. True)"
  by (simp add: follows_handler_def)

lemma follows_RequestID: "follows_handler (token_discipline topic a u tok) h \<Longrightarrow>
    follows_handler (token_discipline topic a u tok) (RequestID h)"
  by (simp add: follows_handler_def RequestID_def Let_def split: sum.splits)

lemma follows_Recovery: "follows_handler D h \<Longrightarrow> follows_handler D (Recovery W h)"
  by (simp add: follows_handler_def Recovery_def follows_recover)

lemma follows_Metrics: "follows_handler (token_discipline topic a u tok) h \<Longrightarrow>
    follows_handler (token_discipline topic a u tok) (Metrics_mw h)"
  by (simp add: follows_handler_def Metrics_mw_def Let_def follows_weaken)

lemma follows_RateLimit: "follows_handler (token_discipline topic a u tok) h \<Longrightarrow>
    follows_handler (token_discipline topic a u tok) (RateLimit_mw W k h)"
  by (auto simp: follows_handler_def RateLimit_mw_def Let_def split: sum.splits)

lemma follows_serve:
  assumes "follows_handler (token_discipline topic a u tok) (api_handler W A rt)"
  shows "follows (token_discipline topic a u tok) Fresh (serve W A rt c) (\<lambda>_ _. True)"
  unfolding serve_def
  by (rule follows_handlerD)
     (use assms in \<open>auto intro!: follows_RequestID follows_Recovery follows_Metrics follows_RateLimit\<close>)

section \<open>A seckill attempt\<close>

lemma silent_deduct: "makes (\<lambda>c. \<not> sends topic P c) (stockRedisRepo_DeductForUser b v n l)"
    "makes (\<lambda>c. \<not> sends topic P c) (stockRepoSQL_DeductForUser b v n l)"
  by (auto simp: stockRedisRepo_DeductForUser_def deduct_call_def stockRepoSQL_DeductForUser_def
      split: sum.splits)

lemmas silent_ports = silent_deduct silent_ambient [OF ambient_lookup] silent_ambient [OF ambient_nextID]
  silent_ambient [OF ambient_time_Now] silent_ambient [OF ambient_QueueService_New]

lemma silent_service:
  "makes (\<lambda>c. \<not> sends topic P c) (s_activities (api_service sw shards topic') b)"
  "makes (\<lambda>c. \<not> sends topic P c) (s_stock (api_service sw shards topic') b v n l)"
  "makes (\<lambda>c. \<not> sends topic P c) (s_now (api_service sw shards topic'))"
  "makes (\<lambda>c. \<not> sends topic P c) (s_nextID (api_service sw shards topic'))"
  by (simp_all add: api_service_eq silent_ports)

lemma silent_token: "makes (\<lambda>c. \<not> sends topic P c) (seckill_token (api_service sw shards topic') i)"
  by (auto simp: seckill_token_def api_service_eq intro!: makes_bindp silent_ports)

text \<open>Creating the order sends its message at most once, and no message of another order.\<close>

lemma follows_create:
  assumes "o_ActivityID x = a \<and> o_UserID x = u \<and> o_IdempotencyToken x = tok \<longrightarrow> ph = Won"
  shows "follows (token_discipline topic a u tok) ph (KafkaOrderCreator_CreateWithToken topic' x q) (\<lambda>_ _. True)"
  using assms
  by (cases ph) (auto simp: KafkaOrderCreator_CreateWithToken_def SendOrder_def
      dest!: order_message_for_Marshal split: sum.splits)

lemma silent_create:
  assumes "\<not> (o_ActivityID x = a \<and> o_UserID x = u \<and> o_IdempotencyToken x = tok)"
  shows "makes (\<lambda>c. \<not> sends topic (order_message_for a u tok) c) (KafkaOrderCreator_CreateWithToken topic' x q)"
  using assms
  by (auto simp: KafkaOrderCreator_CreateWithToken_def SendOrder_def
      dest!: order_message_for_Marshal split: sum.splits)

lemma silent_Seckill:
  assumes "KafkaOrder sw" and "\<not> (rq_ActivityID req = a \<and> rq_UserID req = u \<and> rq_IdempotencyToken req = tok)"
  shows "makes (\<lambda>c. \<not> sends topic (order_message_for a u tok) c) (Seckill (api_service sw shards topic') req)"
proof -
  let ?P = "\<lambda>c. \<not> sends topic (order_message_for a u tok) c" and ?s = "api_service sw shards topic'"
  have "makes ?P (seckill_create ?s (new_order req act now i) q)" for act now i q
    using assms by (auto simp: seckill_create_def api_service_eq new_order_def intro!: silent_create)
  then have "makes ?P (seckill_place ?s req act now rem)" for act now rem
    unfolding seckill_place_def using silent_ports silent_token
    by (intro makes_bindp) (auto simp: api_service_eq split: option.splits)
  then show ?thesis
    unfolding Seckill_def seckill_window_def seckill_deduct_def
    by (auto simp: api_service_eq intro!: makes_bindp silent_ports split: sum.splits)
qed

lemma won_Seckill:
  assumes "KafkaOrder sw"
  shows "follows (token_discipline topic a u tok) Won (Seckill (api_service sw shards topic') req) (\<lambda>_ _. True)"
proof -
  let ?D = "token_discipline topic a u tok" and ?s = "api_service sw shards topic'"
  note keeps = follows_keeps [where ph = Won, OF _ phase.distinct(2)]
  have create: "follows ?D Won (seckill_create ?s x q) (\<lambda>_ _. True)" for x q
    using assms by (simp add: seckill_create_def api_service_eq follows_create)
  have place: "follows ?D Won (seckill_place ?s req act now rem) (\<lambda>_ _. True)" for act now rem
    unfolding seckill_place_def follows_bindp
    by (rule keeps, rule silent_service, rule keeps, rule silent_token,
        rule follows_weaken [OF create]) (auto split: option.splits)
  have deduct: "follows ?D Won (seckill_deduct ?s req act now) (\<lambda>_ _. True)" for act now
    unfolding seckill_deduct_def follows_bindp
    by (rule keeps, rule silent_service) (simp add: place split: sum.split)
  have window: "follows ?D Won (seckill_window ?s req act) (\<lambda>_ _. True)" for act
    unfolding seckill_window_def follows_bindp
    by (rule keeps, rule silent_service) (simp add: deduct)
  show ?thesis
    unfolding Seckill_def follows_bindp
    by (rule keeps, rule silent_service) (simp add: window split: sum.split)
qed

section \<open>The idempotent route\<close>

text \<open>
  The middleware and the handler decode the same body; on a body without trailing data they see
  the same request.
\<close>

definition same_request :: "Probe \<Rightarrow> SeckillRequest \<Rightarrow> bool" where
  "same_request p q \<longleftrightarrow> p_ActivityID p = rq_ActivityID q \<and> p_UserID p = rq_UserID q \<and>
     p_IdempotencyToken p = rq_IdempotencyToken q"

fun same_decoded :: "Probe decoded \<Rightarrow> SeckillRequest decoded \<Rightarrow> bool" where
  "same_decoded (Stored p) (Stored q) = same_request p q"
| "same_decoded (Skipped e) (Skipped e') = (e = e')"
| "same_decoded (Aborted e) (Aborted e') = (e = e')"
| "same_decoded x y = False"

lemma same_decode: "same_request p q \<Longrightarrow> same_decoded (decode_probe key v p) (decode_request key v q)"
  by (cases v) (auto simp: decode_probe_def decode_request_def decode_defs same_request_def)

lemma same_fields:
  assumes "same_request p q"
  shows "same_request (fst (decode_fields decode_probe fs p e)) (fst (decode_fields decode_request fs q e)) \<and>
    snd (decode_fields decode_probe fs p e) = snd (decode_fields decode_request fs q e)"
  using assms
proof (induction fs arbitrary: p q e)
  case (Cons f fs)
  obtain key v where f: "f = (key, v)" by (cases f)
  from same_decode [OF Cons.prems, of key v] show ?case
    by (cases "decode_probe key v p"; cases "decode_request key v q")
       (use Cons f in \<open>auto split: option.splits\<close>)
qed simp

lemma same_Unmarshal:
  "same_request (fst (Unmarshal decode_probe zero_probe b)) (fst (Unmarshal decode_request zero_request b)) \<and>
   snd (Unmarshal decode_probe zero_probe b) = snd (Unmarshal decode_request zero_request b)"
proof -
  have zero: "same_request zero_probe zero_request"
    by (simp add: same_request_def zero_probe_def zero_request_def)
  show ?thesis
  proof (cases b)
    case (Valid j)
    then show ?thesis using zero same_fields [OF zero] by (cases j) (simp_all add: Unmarshal_def)
  qed (simp add: Unmarshal_def zero)
qed

text \<open>No text is read up to its first value only.\<close>

definition no_trailing_data :: "wire \<Rightarrow> bool" where
  "no_trailing_data W \<longleftrightarrow> (\<forall>s j. first_value W s = Some j \<longrightarrow> scan W s = Some j)"

lemma bound_probe:
  assumes "no_trailing_data W" and "cx_Body c = Inr body" and "bind_request W c = Inr req"
    and "Unmarshal decode_probe zero_probe (payload_of (scan W) body) = (p, jerr)"
  shows "jerr = None \<and> same_request p req \<and> p_IdempotencyToken p \<noteq> []"
proof -
  obtain q where q: "Unmarshal decode_request zero_request (payload_of (first_value W) body) = (q, None)"
    and req: "req = q" "missing_fields q = []"
    using assms(2,3) by (auto simp: bind_request_def split: prod.splits option.splits if_splits)
  then obtain j where j: "first_value W body = Some j"
    by (cases "first_value W body") (auto simp: payload_of_def Unmarshal_def)
  then have "scan W body = Some j" using assms(1) by (simp add: no_trailing_data_def)
  then have "payload_of (scan W) body = payload_of (first_value W) body"
    using j by (simp add: payload_of_def)
  then have "same_request p q \<and> jerr = None"
    using same_Unmarshal [of "payload_of (first_value W) body"] assms(4) q by simp
  then show ?thesis using req by (auto simp: missing_fields_def same_request_def split: if_splits)
qed

lemma silent_handler:
  assumes "\<And>req. bind_request W c = Inr req \<Longrightarrow> makes P (svc req)"
  shows "makes P (handler_Seckill W svc c)"
  using assms by (auto simp: handler_Seckill_def intro!: makes_bindp split: sum.splits)

lemma silent_replay: "makes (\<lambda>c. \<not> sends topic P c) (idem_replay W v c)"
  by (auto simp: idem_replay_def split: prod.splits option.splits)

lemma silent_idempotent:
  assumes "\<And>b. makes (\<lambda>c. \<not> sends topic P c) (nxt (c\<lparr>cx_bodyWriter := b\<rparr>))" and "makes (\<lambda>c. \<not> sends topic P c) (nxt c)"
  shows "makes (\<lambda>c. \<not> sends topic P c) (idem_first W key nxt c)"
    and "makes (\<lambda>c. \<not> sends topic P c) (idem_hit W key nxt c)"
  using assms
  by (auto simp: idem_first_def idem_hit_def intro!: makes_bindp silent_replay split: sum.splits)

lemma follows_idempotent:
  assumes "KafkaOrder sw" and "no_trailing_data W"
  shows "follows_handler (token_discipline topic a u tok)
    (Idempotency_mw W (handler_Seckill W (Seckill (api_service sw shards topic'))))"
  unfolding follows_handler_def
proof
  fix c
  let ?D = "token_discipline topic a u tok" and ?h = "handler_Seckill W (Seckill (api_service sw shards topic'))"
  let ?P = "\<lambda>k. \<not> sends topic (order_message_for a u tok) k"
  have won: "follows ?D Won (?h c') (\<lambda>_ _. True)" for c'
    by (auto simp: handler_Seckill_def follows_weaken [OF won_Seckill [OF assms(1)]] split: sum.split)
  show "follows ?D Fresh (Idempotency_mw W ?h c) (\<lambda>_ _. True)"
  proof (cases "cx_Body c")
    case (Inr body)
    obtain p jerr where p: "Unmarshal decode_probe zero_probe (payload_of (scan W) body) = (p, jerr)"
      by (cases "Unmarshal decode_probe zero_probe (payload_of (scan W) body)")
    define mine where "mine \<longleftrightarrow> jerr = None \<and> p_ActivityID p = a \<and> p_UserID p = u \<and>
      p_IdempotencyToken p = tok \<and> tok \<noteq> []"
    have silent: "makes ?P (?h c')" if "cx_Body c' = Inr body" "\<not> mine" for c'
      by (rule silent_handler, rule silent_Seckill [OF assms(1)])
         (use bound_probe [OF assms(2) that(1) _ p] that(2) in \<open>auto simp: mine_def same_request_def\<close>)
    show ?thesis
    proof (cases mine)
      case True
      have first: "follows ?D Won (idem_first W key ?h c) (\<lambda>_ _. True)" for key
        by (simp add: idem_first_def follows_weaken [OF won])
      have hit: "follows ?D Lost (idem_hit W (idem_key a u tok) ?h c) (\<lambda>_ _. True)"
        by (auto simp: idem_hit_def as_str_def follows_silent silent_replay)
      show ?thesis
        using True first [of "idem_key a u tok"] hit
        by (auto simp: Idempotency_mw_def Inr p mine_def as_bool_def Let_def split: if_splits)
    next
      case False
      have "makes ?P (?h c)" "\<And>b. makes ?P (?h (c\<lparr>cx_bodyWriter := b\<rparr>))"
        using silent [OF _ False] Inr by simp_all
      note quiet = this silent_idempotent [OF this(2,1)]
      have "makes ?P (Idempotency_mw W ?h c)"
        using quiet by (auto simp: Idempotency_mw_def Inr p Let_def split: sum.splits)
      then show ?thesis by (rule follows_silent)
    qed
  qed (simp add: Idempotency_mw_def)
qed

section \<open>The deployment\<close>

lemma follows_deployed:
  assumes "p \<in> deployed W A dlq allowed" and "KafkaOrder (api_switches A)" and "Idempotency (api_switches A)"
    and "no_trailing_data W" and "dlq \<noteq> api_OrderTopic A"
  shows "follows (token_discipline (api_OrderTopic A) a u tok) Fresh p (\<lambda>_ _. True)"
  using assms(1)
proof cases
  case (request rt c)
  have "follows_handler (token_discipline (api_OrderTopic A) a u tok) (api_handler W A rt)"
  proof (cases rt)
    case PostSeckill
    then show ?thesis
      using follows_idempotent [OF assms(2,4)] assms(3) by (simp add: follows_handler_def api_seckill_def [abs_def])
  next
    case (PostWarm q)
    have "makes (\<lambda>k. \<not> sends (api_OrderTopic A) (order_message_for a u tok) k)
        (AdminWarmActivity W AdminService_Warm (c\<lparr>cx_Param := q\<rparr>))" for c
      by (rule makes_mono [OF makes_AdminWarm]) (auto elim: sends.elims)
    then show ?thesis using PostWarm by (simp add: follows_handler_def follows_silent)
  qed (auto simp: follows_handler_def intro!: follows_silent silent_ambient makes_OrderByToken makes_AdminCreate)
  with request show ?thesis by (simp add: follows_serve)
next
  case (consumer fuel)
  have "makes (\<lambda>k. \<not> sends (api_OrderTopic A) (order_message_for a u tok) k)
      (Run fuel (order_consumer (api_switches A) (api_shards A) (api_OrderTopic A) dlq))"
    by (rule makes_mono [OF makes_order_consumer]) (use assms(5) in \<open>auto simp: consumer_call_def elim: sends.elims\<close>)
  with consumer show ?thesis by (simp add: follows_silent)
next
  case (sweeper fuel s acts)
  then show ?thesis by (simp add: follows_silent silent_ambient ambient_sweeper)
qed

section \<open>One order per token\<close>

text \<open>No command of the program deletes a key.\<close>

lemma set_ttl_present: "set_ttl k d ks = (b, ks') \<Longrightarrow> ks x \<noteq> None \<Longrightarrow> ks' x \<noteq> None"
  by (auto simp: set_ttl_def split: option.splits prod.splits if_splits)

lemma incr_by_present: "incr_by k d ks = (y, ks') \<Longrightarrow> ks x \<noteq> None \<Longrightarrow> ks' x \<noteq> None"
  by (auto simp: incr_by_def split: option.splits prod.splits if_splits)

lemma lua_sem_present: "lua_sem c ks = (y, ks') \<Longrightarrow> ks x \<noteq> None \<Longrightarrow> ks' x \<noteq> None"
  by (cases c) (auto split: prod.splits sum.splits dest: incr_by_present set_ttl_present)

lemma run_lua_present: "run_lua p ks = (y, ks') \<Longrightarrow> ks x \<noteq> None \<Longrightarrow> ks' x \<noteq> None"
proof (induction p arbitrary: ks)
  case (LCall c k)
  obtain z ks1 where l: "lua_sem c ks = (z, ks1)" by (cases "lua_sem c ks")
  with LCall.prems have "ks1 x \<noteq> None" by (simp add: lua_sem_present)
  then show ?case using LCall.prems(1) LCall.IH [OF rangeI, of _ ks1] l by (cases z) auto
qed auto

lemma redis_sem_present: "redis_sem c ks = (y, ks') \<Longrightarrow> ks x \<noteq> None \<Longrightarrow> ks' x \<noteq> None"
  by (cases c) (auto split: option.splits prod.splits sum.splits if_splits
      dest: incr_by_present set_ttl_present run_lua_present)

definition free :: "string \<Rightarrow> keyspace \<Rightarrow> nat" where
  "free key ks = (if ks key = None then 1 else 0)"

definition winning :: "phase \<Rightarrow> nat" where
  "winning ph = (if ph = Won then 1 else 0)"

context redis_services begin

lemma token_step:
  assumes S: "S c w = (r, w')" and present: "ph = Fresh \<or> ks w (idem_key a u tok) \<noteq> None"
    and allow: "allow (token_discipline topic a u tok) ph c"
  shows "may (token_discipline topic a u tok) ph c r \<and>
    (after (token_discipline topic a u tok) ph c r = Fresh \<or> ks w' (idem_key a u tok) \<noteq> None) \<and>
    free (idem_key a u tok) (ks w') + token_orders a u tok (log w' topic) +
      winning (after (token_discipline topic a u tok) ph c r)
    \<le> free (idem_key a u tok) (ks w) + token_orders a u tok (log w topic) + winning ph"
proof (cases c)
  case (Redis x)
  have sem: "redis_sem x (ks w) = (r, ks w')" and L: "log w' = log w"
    using redis_ok redis_call S Redis by auto
  have keep: "ks w' (idem_key a u tok) \<noteq> None" if "ks w (idem_key a u tok) \<noteq> None"
    using redis_sem_present [OF sem that] .
  then have le: "free (idem_key a u tok) (ks w') \<le> free (idem_key a u tok) (ks w)"
    by (auto simp: free_def)
  show ?thesis
  proof (cases "\<exists>v t. x = SETNX (idem_key a u tok) v t \<and> ph = Fresh")
    case True
    have "ks w' = snd (redis_sem x (ks w))" "r = fst (redis_sem x (ks w))" using sem by simp_all
    with True L Redis show ?thesis by (auto simp: free_def winning_def split: option.splits)
  next
    case False
    then have "token_after (idem_key a u tok) (sends topic (order_message_for a u tok)) ph c r = ph"
      using Redis by (cases ph; cases x) auto
    moreover have "token_may (idem_key a u tok) ph c r"
      using sem Redis present by (cases x) (auto split: option.splits)
    ultimately show ?thesis using le L present keep by auto
  qed
next
  case (KWrite tp key v t hs)
  then obtain n where L: "log w' = (log w)(tp := log w tp @ replicate n v)" and k: "ks w' = ks w"
    using kafka_write S by blast
  show ?thesis
    using card_filter_snoc [of "order_message_for a u tok" "log w topic" n v] KWrite L k allow present
    by (cases ph; cases "tp = topic")
       (auto simp: token_orders_def winning_def simp del: set_filter filter_append set_append)
qed (use other_frame [OF S] present in \<open>cases ph; auto\<close>)+

end

sublocale redis_services \<subseteq> token: machines S "token_discipline topic a u tok" Fresh
    "\<lambda>w ph. ph = Fresh \<or> ks w (idem_key a u tok) \<noteq> None" winning
    "\<lambda>w. free (idem_key a u tok) (ks w) + token_orders a u tok (log w topic)"
  for topic a u tok
proof
  fix c w r w' ph
  assume S: "S c w = (r, w')" and fits: "ph = Fresh \<or> ks w (idem_key a u tok) \<noteq> None"
  show "ph = Fresh \<or> ks w' (idem_key a u tok) \<noteq> None"
  proof (cases "\<exists>x. c = Redis x")
    case True
    then show ?thesis using fits redis_ok S redis_sem_present by (metis (no_types))
  next
    case False
    then show ?thesis using fits other_frame(1) [OF S] by simp
  qed
  assume "allow (token_discipline topic a u tok) ph c"
  from token_step [OF S fits this] show "may (token_discipline topic a u tok) ph c r \<and>
      (after (token_discipline topic a u tok) ph c r = Fresh \<or> ks w' (idem_key a u tok) \<noteq> None) \<and>
      free (idem_key a u tok) (ks w') + token_orders a u tok (log w' topic) +
        winning (after (token_discipline topic a u tok) ph c r)
      \<le> free (idem_key a u tok) (ks w) + token_orders a u tok (log w topic) + winning ph" .
qed (simp_all add: winning_def)

context redis_services begin

lemma deployment_orders_once:
  assumes "reachable S spawn env w0 (ps, w)"
    and "KafkaOrder (api_switches A)" and "Idempotency (api_switches A)" and "no_trailing_data W"
    and "\<forall>w. spawn w \<subseteq> deployed W A dlq allowed" and "dlq \<noteq> api_OrderTopic A"
    and env: "\<forall>w w'. env w w' \<longrightarrow>
      (ks w (idem_key a u tok) \<noteq> None \<longrightarrow> ks w' (idem_key a u tok) \<noteq> None) \<and> log w' = log w"
  shows "free (idem_key a u tok) (ks w) + token_orders a u tok (log w (api_OrderTopic A))
    \<le> free (idem_key a u tok) (ks w0) + token_orders a u tok (log w0 (api_OrderTopic A))"
proof (rule token.never_uses_more [OF assms(1)])
  show "follows (token_discipline (api_OrderTopic A) a u tok) Fresh p (\<lambda>_ _. True)" if "p \<in> spawn w" for w p
    using follows_deployed that assms(2-6) by blast
next
  fix w w'
  assume "env w w'"
  with env have "ks w (idem_key a u tok) \<noteq> None \<longrightarrow> ks w' (idem_key a u tok) \<noteq> None" "log w' = log w"
    by blast+
  then show "free (idem_key a u tok) (ks w') + token_orders a u tok (log w' (api_OrderTopic A))
      \<le> free (idem_key a u tok) (ks w) + token_orders a u tok (log w (api_OrderTopic A)) \<and>
      (\<forall>ph. ph = Fresh \<or> ks w (idem_key a u tok) \<noteq> None \<longrightarrow> ph = Fresh \<or> ks w' (idem_key a u tok) \<noteq> None)"
    by (auto simp: free_def)
qed

end

end
