(* ===== verification/Drift.thy ===== *)
theory Drift
  imports Provenance
begin

text \<open>
  The sweeper against the sale.  With the stock in Redis nothing the deployment runs changes an
  activity's total; so, whatever the interleaving, a check made between two calls never sees
  more stock and rows than the total, and reports no negative drift.
\<close>

section \<open>The total of an activity\<close>

fun retotals :: "call \<Rightarrow> bool" where
  "retotals (Sql d (UpdateDeduct n i m)) = True"
| "retotals c = False"

definition total_rules :: rules where
  "total_rules = \<lparr>possible = (\<lambda>_ _. True), grants = (\<lambda>_ _. False), spends = (\<lambda>_. False), forbidden = retotals\<rparr>"

lemma total_simps [simp]:
  "possible total_rules c r" "\<not> grants total_rules c r" "\<not> spends total_rules c"
  "forbidden total_rules = retotals"
  by (simp_all add: total_rules_def)

lemma ambient_total: "ambient_rules total_rules"
  unfolding ambient_rules_def neutral_def by (auto elim: retotals.elims)

sublocale services \<subseteq> totals: tickets S total_rules "\<lambda>w. total_stock (tbl w MainDB) a = Some n"
    "\<lambda>_. 0" "\<lambda>_. 0" for a n
proof
  fix c w r w'
  assume S: "S c w = (r, w')" and f: "\<not> forbidden total_rules c" and t: "total_stock (tbl w MainDB) a = Some n"
  have "total_stock (tbl w' MainDB) a = Some n"
  proof (cases "\<exists>s. c = Sql MainDB s")
    case True
    then obtain s where c: "c = Sql MainDB s" by blast
    obtain t' where law: "sql_law coll dt s (tbl w MainDB) r t'" and t': "tbl w' MainDB = t'"
      using sql_call [of MainDB s w r w'] S c by auto
    have "total_stock t0 a = Some n" if "sql_sem coll dt s (tbl w MainDB) = Some (r0, t0)" for r0 t0
      using that t f c by (cases s) (auto simp: total_stock_def stored_activity_def split: option.splits if_splits)
    then show ?thesis using law t t' by (auto simp: sql_law_def split: option.splits)
  next
    case no: False
    then have "tbl w' MainDB = tbl w MainDB"
      using S other_frame(2) [OF S] sql_call by (cases c) fastforce+
    then show ?thesis using t by simp
  qed
  then show "total_stock (tbl w' MainDB) a = Some n \<and> possible total_rules c r \<and>
      0 + 0 + (if grants total_rules c r then 1 else 0) \<le> 0 + 0 + (if spends total_rules c then 1 else (0::nat))"
    by simp
qed

interpretation total_client: seckill_ports total_rules "api_service (sw\<lparr>LuaStock := True\<rparr>) shards topic"
    "\<lambda>_ _. False" "\<lambda>_ _. True" for sw shards topic
proof
  let ?s = "api_service (sw\<lparr>LuaStock := True\<rparr>) shards topic"
  fix b u act x n tok new
  show "funded total_rules 0 (s_activities ?s b) (\<lambda>_ found. \<forall>act. found = Inr act \<longrightarrow> True)"
    by (rule ambient_funded [OF ambient_total]) (simp_all add: api_service_eq ambient_lookup)
  show "funded total_rules 0 (s_stock ?s b u 1 (a_PerUserLimit act)) (\<lambda>n res. \<forall>rem. res = Inr rem \<longrightarrow> False \<longrightarrow> 0 < n)"
    by (simp add: api_service_eq stockRedisRepo_DeductForUser_eq deduct_call_def split: sum.splits)
  show "funded total_rules 0 (s_now ?s) (\<lambda>_ _. True)"
    by (rule ambient_funded [OF ambient_total]) (simp_all add: api_service_eq ambient_time_Now)
  show "funded total_rules n (s_nextID ?s) (\<lambda>m _. n \<le> m)"
    by (rule ambient_funded [OF ambient_total]) (simp_all add: api_service_eq ambient_nextID)
  show "funded total_rules n new (\<lambda>m _. n \<le> m)" if "s_queue ?s = Some new"
    by (rule ambient_funded [OF ambient_total]) (use that in \<open>auto simp: api_service_eq ambient_QueueService_New\<close>)
  show "funded total_rules n (seckill_create ?s x tok) (\<lambda>_ _. True)"
    by (cases "KafkaOrder sw")
       (auto simp: seckill_create_def api_service_eq ambient_total
          intro!: Kafka_create_funded [where sel = "\<lambda>_ _. False"] sync_create_funded)
qed

lemma total_api_handler:
  assumes "LuaStock (api_switches A)"
  shows "funded_handler total_rules (api_handler W A rt)"
proof (cases rt)
  case PostSeckill
  have "funded_handler total_rules (handler_Seckill W (api_seckill A))"
    using total_client.handler_funded [of W "api_switches A"] LuaStock_on [OF assms] unfolding api_seckill_def by simp
  then show ?thesis
    using funded_Idempotency [OF ambient_middleware [OF ambient_total]] PostSeckill by (simp add: funded_handler_def)
next
  case (PostWarm p)
  have "makes (neutral total_rules) (AdminWarmActivity W AdminService_Warm (c\<lparr>cx_Param := p\<rparr>))" for c
    by (rule makes_mono [OF makes_AdminWarm]) (use ambient_total in \<open>auto simp: ambient_rules_def neutral_def\<close>)
  then show ?thesis using PostWarm by (simp add: funded_handler_def funded_neutral)
qed (auto simp: funded_handler_def intro!: ambient_funded [OF ambient_total] makes_OrderByToken makes_AdminCreate)

lemma total_deployed:
  assumes "p \<in> deployed W A dlq allowed" and "LuaStock (api_switches A)"
  shows "funded total_rules 0 p (\<lambda>_ _. True)"
  using assms(1)
proof cases
  case (request rt c)
  then show ?thesis using funded_serve [OF ambient_middleware [OF ambient_total] total_api_handler [OF assms(2)]] by simp
next
  case (consumer fuel)
  have "makes (neutral total_rules) (Run fuel (order_consumer (api_switches A) (api_shards A) (api_OrderTopic A) dlq))"
    by (rule makes_mono [OF makes_order_consumer])
       (use ambient_total in \<open>auto simp: ambient_rules_def neutral_def consumer_call_def\<close>)
  then show ?thesis using consumer by (simp add: funded_neutral)
next
  case (sweeper fuel s acts)
  then show ?thesis by (simp add: ambient_funded [OF ambient_total ambient_sweeper])
qed

section \<open>What a check reads\<close>

text \<open>The sweeper of the API process (\<open>cmd/api/main.go\<close>): no shards are opened when sharding is off.\<close>

definition api_reconcile :: "Api \<Rightarrow> ReconcileService" where
  "api_reconcile A =
     \<lparr>rs_shards = (if ShardedOrder (api_switches A) then api_shards A else []), rs_db = MainDB\<rparr>"

lemma counted_order_dbs: "counted_dbs (api_reconcile A) = order_dbs (api_switches A) (api_shards A)"
  by (simp add: api_reconcile_def counted_dbs_def order_dbs_def)

lemma rows_of_out:
  "distinct (order_dbs sw shards) \<Longrightarrow> rows_of t (order_dbs sw shards) a = int (rows_out sw shards (any_user a) t)"
  by (simp add: rows_of_def rows_out_def any_user_def sum_list_distinct_conv_sum_set)

context services begin

lemma read_call:
  assumes "S (Sql d s) w = (r, w')" and "sql_sem coll dt s (tbl w d) = Some (r0, tbl w d)" and "\<forall>e. r \<noteq> RErr e"
  shows "r = r0 \<and> ks w' = ks w \<and> tbl w' = tbl w"
  using sql_call [OF assms(1)] assms(2,3) by (auto simp: sql_law_def)

lemma count_shards_reads:
  assumes "run S (count_shards dbs a i subtotal) w = (Some (Inr n), w')"
    and "0 \<le> subtotal" and "in64 (subtotal + rows_of (tbl w) dbs a)"
  shows "n = subtotal + rows_of (tbl w) dbs a"
  using assms
proof (induction dbs arbitrary: i subtotal w)
  case (Cons d dbs)
  obtain r w1 where S: "S (Sql d (CountOrders a)) w = (r, w1)" by (cases "S (Sql d (CountOrders a)) w")
  let ?n = "int (length (filter (\<lambda>x. o_ActivityID x = a) (orders_0 (tbl w d))))"
  obtain k where r: "as_int r = Inr k" and rest: "run S (count_shards dbs a (Suc i) (add64 subtotal k)) w1 = (Some (Inr n), w')"
    using Cons.prems(1) by (auto simp: S split: sum.splits)
  have "r = RInt k" using as_int_InrD [OF r] .
  with read_call [OF S] have k: "k = ?n" and w1: "tbl w1 = tbl w" by auto
  have sum: "subtotal + rows_of (tbl w) (d # dbs) a = (subtotal + ?n) + rows_of (tbl w) dbs a"
    by (simp add: rows_of_def)
  have "in64 (subtotal + ?n)"
    using Cons.prems rows_of_nonneg [of "tbl w" dbs a] unfolding sum by (auto simp: in64_def)
  then have "add64 subtotal k = subtotal + ?n" unfolding k by (rule add64_exact)
  with Cons.IH [of "Suc i" "subtotal + ?n" w1] rest Cons.prems w1 show ?case
    unfolding sum by simp
qed (simp add: rows_of_def)

lemma Check_reads:
  assumes "run S (Check sv a) w = (Some (Inr f), w')" and "in64 (rows_of (tbl w) (counted_dbs sv) a)"
  shows "\<exists>act s. activities (tbl w MainDB) a = Some act \<and> stock_left (ks w) a = Some s \<and>
    f = \<lparr>f_ActivityID = a, f_InitStock = a_TotalStock act, f_Redis = s,
         f_OrdersCount = rows_of (tbl w) (counted_dbs sv) a,
         f_Drift = sub64 (a_TotalStock act) (add64 s (rows_of (tbl w) (counted_dbs sv) a))\<rparr>"
proof -
  obtain r w1 where S1: "S (Sql MainDB (SelectActivity a)) w = (r, w1)"
    by (cases "S (Sql MainDB (SelectActivity a)) w")
  obtain act where act: "as_activity r = Inr act"
    using assms(1) by (auto simp: Check_def run_bindp run_GetByID S1 split: sum.splits if_splits)
  then have "r = RActivity act" by (simp add: as_activity_Inr)
  with read_call [OF S1] have row: "activities (tbl w MainDB) a = Some act"
    and w1: "ks w1 = ks w" "tbl w1 = tbl w" by (auto split: option.splits)
  obtain r2 w2 where S2: "S (Redis (GET (stock_key a))) w1 = (r2, w2)"
    by (cases "S (Redis (GET (stock_key a))) w1")
  obtain s n w3 where s: "redis_Int r2 = Inr s" and n: "run S (countOrders sv a) w2 = (Some (Inr n), w3)"
    and f: "f = \<lparr>f_ActivityID = a, f_InitStock = a_TotalStock act, f_Redis = s, f_OrdersCount = n,
         f_Drift = sub64 (a_TotalStock act) (add64 s n)\<rparr>"
    using assms(1) act
    by (auto simp: Check_def run_bindp run_GetByID S1 S2 split: sum.splits prod.splits option.splits)
  have "stock_left (ks w) a = Some s" and w2: "tbl w2 = tbl w"
    using redis_call [OF S2] s w1
    by (auto simp: redis_law_def redis_Int_def as_str_def stock_left_def split: option.splits reply.splits)
  moreover have "n = rows_of (tbl w) (counted_dbs sv) a"
    using count_shards_reads [OF n [unfolded countOrders_def]] assms(2) w2 by simp
  ultimately show ?thesis using row f by blast
qed

lemma checked_drift:
  assumes "reachable S spawn env w0 (ps, w)" and sw: "LuaStock (api_switches A)" "KafkaOrder (api_switches A)"
    and dbs: "distinct (order_dbs (api_switches A) (api_shards A))"
    and spawn: "\<forall>w. spawn w \<subseteq> deployed W A dlq (no_restock A a)" and dlq: "dlq \<noteq> api_OrderTopic A"
    and env: "\<forall>w w'. env w w' \<longrightarrow> expiry (ks w) (ks w') \<and> tbl w' = tbl w \<and> log w' = log w"
    and init: "total_stock (tbl w0 MainDB) a = Some n" "in64 n" "0 \<le> n" "units (stock_left (ks w0) a) \<le> nat n"
      "\<forall>d. orders_0 (tbl w0 d) = []"
      "log w0 (api_OrderTopic A) = []"
    and check: "run S (Check (api_reconcile A) a) w = (Some (Inr f), w')"
  shows "f_InitStock f = n \<and> f_Redis f + f_OrdersCount f \<le> n \<and> (0 \<le> f_Redis f \<longrightarrow> 0 \<le> f_Drift f)"
proof -
  have total: "total_stock (tbl w MainDB) a = Some n"
  proof (rule conjunct1 [OF totals.never_exceeds [OF assms(1) init(1)]])
    show "funded total_rules 0 p (\<lambda>_ _. True)" if "p \<in> spawn w" for w p
      using total_deployed [OF _ sw(1)] that spawn by blast
  qed (use env in auto)
  have "stock_units (api_switches A) a (ks w) (tbl w) +
      orders_out (api_switches A) (api_shards A) (api_OrderTopic A) (any_user a) (tbl w) (log w)
    \<le> stock_units (api_switches A) a (ks w0) (tbl w0) +
      orders_out (api_switches A) (api_shards A) (api_OrderTopic A) (any_user a) (tbl w0) (log w0)"
    using deployment_conserves [OF assms(1) _ spawn dlq env] sw by (simp add: stock_there_def)
  moreover have "rows_out (api_switches A) (api_shards A) (any_user a) (tbl w)
      \<le> orders_out (api_switches A) (api_shards A) (api_OrderTopic A) (any_user a) (tbl w) (log w)"
    using rows_bounded [OF assms(1) sw(2) _ spawn] init(5) env sw(2)
    by (simp add: orders_out_def rows_backed_def)
  ultimately have le: "units (stock_left (ks w) a) + rows_out (api_switches A) (api_shards A) (any_user a) (tbl w) \<le> nat n"
    using init(4,6) sw by (simp add: stock_units_def orders_out_def)
  have rows: "rows_of (tbl w) (counted_dbs (api_reconcile A)) a
      = int (rows_out (api_switches A) (api_shards A) (any_user a) (tbl w))"
    unfolding counted_order_dbs by (rule rows_of_out [OF dbs])
  have bound: "in64 (rows_of (tbl w) (counted_dbs (api_reconcile A)) a)"
    using le init(2) rows by (auto simp: in64_def)
  obtain act s where f: "activities (tbl w MainDB) a = Some act" "stock_left (ks w) a = Some s"
    "f = \<lparr>f_ActivityID = a, f_InitStock = a_TotalStock act, f_Redis = s,
         f_OrdersCount = rows_of (tbl w) (counted_dbs (api_reconcile A)) a,
         f_Drift = sub64 (a_TotalStock act) (add64 s (rows_of (tbl w) (counted_dbs (api_reconcile A)) a))\<rparr>"
    using Check_reads [OF check bound] by blast
  have n: "a_TotalStock act = n" using f(1) total by (simp add: total_stock_def)
  let ?rows = "rows_of (tbl w) (counted_dbs (api_reconcile A)) a"
  have sum: "s + ?rows \<le> n" "0 \<le> ?rows" "?rows \<le> n"
    using le init(3) unfolding rows f(2) by simp_all
  have "0 \<le> n - (s + ?rows) \<and> sub64 n (add64 s ?rows) = n - (s + ?rows)" if "0 \<le> s"
  proof -
    have "in64 (s + ?rows)" "in64 (n - (s + ?rows))" using sum that init(2) by (auto simp: in64_def)
    then show ?thesis using sum by (simp add: add64_exact sub64_exact)
  qed
  then show ?thesis using sum by (simp add: f(3) n)
qed

end

end
