(* ===== verification/Example.thy ===== *)
theory Example
  imports Exclusive Drift
begin

text \<open>
  A small deployment on the in-memory service, for the witnesses: activity 7 with two units
  warmed and one unit per user, every switch on, four shards, and a wire syntax whose only text
  is the request of user 9.
\<close>

definition ex_activity :: Activity where
  "ex_activity = \<lparr>a_ID = 7, a_ProductID = 70, a_TotalStock = 2, a_StartAt = 0, a_EndAt = 1000,
     a_PerUserLimit = 1, a_Status = ActivityRunning\<rparr>"

definition ex_tables :: "dbid \<Rightarrow> tables" where
  "ex_tables d = (if d = MainDB then \<lparr>activities = [7 \<mapsto> ex_activity], orders_0 = []\<rparr> else empty_tables)"

definition ex_world :: mem where
  "ex_world = mem0\<lparr>mem_ks := [stock_key 7 \<mapsto> (''2'', None)], mem_tbl := ex_tables\<rparr>"

definition all_on :: Switches where
  "all_on = \<lparr>LuaStock = True, KafkaOrder = True, ShardedOrder = True, RateLimit = True,
     Idempotency = True, CircuitBreaker = True, Tracing = True, Metrics = True\<rparr>"

definition ex_shards :: "dbid list" where
  "ex_shards = [ShardDB 0, ShardDB 1, ShardDB 2, ShardDB 3]"

definition ex_api :: Api where
  "ex_api = \<lparr>api_switches = all_on, api_shards = ex_shards, api_OrderTopic = TopicSeckillOrders,
     api_PerUserPerMinute = 5\<rparr>"

definition ex_body :: json where
  "ex_body = JObj [(''activity_id'', JNum 7), (''user_id'', JNum 9), (''idempotency_token'', JStr ''t1'')]"

definition ex_wire :: wire where
  "ex_wire = \<lparr>scan = (\<lambda>s. Some ex_body), first_value = (\<lambda>s. Some ex_body), render = (\<lambda>d. ''{}'')\<rparr>"

definition ex_ctx :: Ctx where
  "ex_ctx = new_ctx ''r1'' ''9'' (Inr ''{}'') []"

definition ex_post :: "Ctx prog" where
  "ex_post = serve ex_wire ex_api PostSeckill ex_ctx"

definition ex_consume :: "nat \<Rightarrow> run_end prog" where
  "ex_consume fuel = Run fuel (order_consumer all_on ex_shards TopicSeckillOrders TopicSeckillDLQ)"

section \<open>Schedules of the example\<close>

abbreviation ex_spawn :: "(route \<Rightarrow> bool) \<Rightarrow> mem \<Rightarrow> unit prog set" where
  "ex_spawn allowed \<equiv> (\<lambda>_. deployed ex_wire ex_api TopicSeckillDLQ allowed)"

text \<open>Serving the request to its end is a schedule.\<close>

lemma ex_post_reaches:
  assumes "run mem_call (bindp ex_post (\<lambda>_. Ret ())) w = (r, w')" and "allowed PostSeckill"
    and "reachable mem_call (ex_spawn allowed) (\<lambda>_ _. False) ex_world (ps, w)"
  obtains ps' where "reachable mem_call (ex_spawn allowed) (\<lambda>_ _. False) ex_world (ps', w')"
proof -
  have "bindp ex_post (\<lambda>_. Ret ()) \<in> ex_spawn allowed w"
    using assms(2) unfolding ex_post_def by (rule deployed.request)
  from reachable_run [where spawn = "ex_spawn allowed", OF assms(3) this assms(1)] that show ?thesis by blast
qed

end
