(* ===== verification/Attempt.thy ===== *)
theory Attempt
  imports Example
begin

text \<open>
  Properties of one seckill attempt: the stages it goes through, what a refused attempt leaves
  alone, and, on services that do not fail, its result as a function of the state.
\<close>

definition ex_request :: SeckillRequest where
  "ex_request = \<lparr>rq_ActivityID = 7, rq_UserID = 9, rq_IdempotencyToken = ''t1''\<rparr>"

section \<open>Stages\<close>

text \<open>
  C14. An attempt answers queued only after, in this order, the activity was found, the clock
  was inside its window, one unit was deducted for the user, an id and a token were made, and
  the order with that id and token was created; the answer carries the remaining stock the
  deduction returned and the token the order was created with.
\<close>

theorem queued_stages:
  assumes "performs (Seckill s req) es (Some (out, err))" and "out_Outcome out = OutcomeQueued"
  shows "\<exists>es1 es2 es3 es4 es5 es6 a now orderID.
    es = es1 @ es2 @ es3 @ es4 @ es5 @ es6 \<and>
    performs (s_activities s (rq_ActivityID req)) es1 (Some (Inr a)) \<and>
    performs (s_now s) es2 (Some now) \<and> a_StartAt a \<le> now \<and> now < a_EndAt a \<and>
    performs (s_stock s (rq_ActivityID req) (rq_UserID req) 1 (a_PerUserLimit a)) es3
      (Some (Inr (out_Remaining out))) \<and>
    performs (s_nextID s) es4 (Some orderID) \<and>
    performs (seckill_token s orderID) es5 (Some (out_QueueToken out)) \<and>
    performs (seckill_create s (new_order req a now orderID) (out_QueueToken out)) es6 (Some None) \<and>
    err = None"
  using assms(1)
proof (cases rule: Seckill_stages)
  case (found es1 fs1 a)
  from found(3) show ?thesis
  proof (cases rule: seckill_window_stages)
    case (opened es2 fs2 now)
    from opened(5) show ?thesis
    proof (cases rule: seckill_deduct_stages)
      case (reserved es3 fs3 rem)
      from seckill_place_stages [OF reserved(3)] assms(2)
      obtain es4 es5 es6 orderID where placed: "err = None" "out_Remaining out = rem" "fs3 = es4 @ es5 @ es6"
        "performs (s_nextID s) es4 (Some orderID)"
        "performs (seckill_token s orderID) es5 (Some (out_QueueToken out))"
        "performs (seckill_create s (new_order req a now orderID) (out_QueueToken out)) es6 (Some None)"
        by blast
      have es: "es = es1 @ es2 @ es3 @ es4 @ es5 @ es6"
        unfolding found(1) opened(1) reserved(1) placed(3) ..
      show ?thesis
        using es found(2) opened(2-4) reserved(2) [folded placed(2)] placed(4-6) placed(1)
        by (intro exI conjI)
    qed (use assms(2) in auto)
  qed (use assms(2) in auto)
qed (use assms(2) in auto)

definition ex_events :: "event list" where
  "ex_events =
     [(Sql MainDB (SelectActivity 7), RActivity ex_activity), (Now, RInt 5), (deduct_call 7 9 1 1, RInt 1),
      (Now, RInt 6), (AddCounter, RInt 1), (NewUUIDv7, RStr ''q''),
      (Redis (SET (queue_key ''q'') ''queued'' queueTokenTTL), ROk), (Now, RInt 8)] @
     (case Marshal \<lparr>m_Version = 1, m_OrderID = 7, m_ActivityID = 7, m_UserID = 9, m_ProductID = 70,
        m_IdempotencyToken = ''t1'', m_QueueToken = ''q'', m_ProducedAt = 8\<rparr> of
        Inl e \<Rightarrow> [] | Inr v \<Rightarrow> [(InjectTrace, RFields []), (KWrite TopicSeckillOrders ''9'' v 8 [], ROk)])"

lemma ex_performs:
  "performs (api_seckill ex_api ex_request) ex_events
     (Some (\<lparr>out_Outcome = OutcomeQueued, out_QueueToken = ''q'', out_Remaining = 1\<rparr>, None))"
proof -
  have nine: "show_int 9 = ''9''" by code_simp
  have sum: "add64 6 1 = 7" by code_simp
  have year: "year_ok 8" by code_simp
  show ?thesis
    by (simp add: api_seckill_def ex_api_def all_on_def api_service_eq seckill_defs ex_request_def
        ex_events_def activityRepo_GetByID_def time_Now_def ex_activity_def
        stockRedisRepo_DeductForUser_eq nextID_def seckill_token_def QueueService_New_def
        seckill_create_def KafkaOrderCreator_CreateWithToken_def SendOrder_def new_order_def
        Marshal_def nine sum year performs_Call)
qed

theorem queued_stages_witness:
  "\<exists>es3 limit. performs (api_seckill ex_api ex_request) ex_events
       (Some (\<lparr>out_Outcome = OutcomeQueued, out_QueueToken = ''q'', out_Remaining = 1\<rparr>, None)) \<and>
     performs (stockRedisRepo_DeductForUser 7 9 1 limit) es3 (Some (Inr 1))"
  using ex_performs queued_stages [OF ex_performs [unfolded api_seckill_def]]
  by (auto simp: api_service_eq ex_api_def all_on_def ex_request_def)

text \<open>
  Outside its window an activity sells nothing: an attempt answered not started or ended has
  done nothing but the lookup and one reading of the clock, which was before the start, or at
  or after the end.
\<close>

theorem closed_window:
  assumes "performs (Seckill s req) es (Some (out, err))"
    and "out_Outcome out = OutcomeNotStarted \<or> out_Outcome out = OutcomeEnded"
  shows "\<exists>es1 es2 a now. es = es1 @ es2 \<and> err = None \<and>
    performs (s_activities s (rq_ActivityID req)) es1 (Some (Inr a)) \<and>
    performs (s_now s) es2 (Some now) \<and>
    (out_Outcome out = OutcomeNotStarted \<and> now < a_StartAt a \<or>
     out_Outcome out = OutcomeEnded \<and> a_StartAt a \<le> now \<and> a_EndAt a \<le> now)"
  using assms(1)
proof (cases rule: Seckill_stages)
  case (found es1 fs1 a)
  from found(3) show ?thesis
  proof (cases rule: seckill_window_stages)
    case (closed now)
    then show ?thesis using found by blast
  next
    case (opened es2 fs2 now)
    from opened(5) show ?thesis
      by (cases rule: seckill_deduct_stages) (use assms(2) seckill_place_stages in fastforce)+
  qed
qed (use assms(2) in auto)

theorem closed_window_witness:
  "performs (api_seckill ex_api ex_request)
     [(Sql MainDB (SelectActivity 7), RActivity ex_activity), (Now, RInt 1000)]
     (Some (outcome OutcomeEnded, None)) \<and>
   (\<exists>es1 a. performs (activityRepo_GetByID 7) es1 (Some (Inr a)) \<and> a_StartAt a \<le> a_StartAt a)"
proof -
  have p: "performs (api_seckill ex_api ex_request)
     [(Sql MainDB (SelectActivity 7), RActivity ex_activity), (Now, RInt 1000)]
     (Some (outcome OutcomeEnded, None))"
    by (simp add: api_seckill_def ex_api_def api_service_eq seckill_defs ex_request_def
        activityRepo_GetByID_def time_Now_def ex_activity_def performs_Call)
  from p closed_window [OF p [unfolded api_seckill_def]] show ?thesis
    by (auto simp: api_service_eq ex_request_def)
qed

text \<open>
  The status of an activity plays no part: with a lookup that reports another status for
  every activity (cancelled or draft, say), an attempt makes the same calls and gives the same
  answer.
\<close>

theorem status_ignored:
  "Seckill (s\<lparr>s_activities := (\<lambda>b. bindp (s_activities s b)
       (\<lambda>found. Ret (map_sum (\<lambda>e. e) (\<lambda>a. a\<lparr>a_Status := st\<rparr>) found)))\<rparr>) req = Seckill s req"
proof -
  let ?s = "s\<lparr>s_activities := (\<lambda>b. bindp (s_activities s b)
       (\<lambda>found. Ret (map_sum (\<lambda>e. e) (\<lambda>a. a\<lparr>a_Status := st\<rparr>) found)))\<rparr>"
  have ports: "s_orders ?s = s_orders s" "s_queue ?s = s_queue s" "s_nextID ?s = s_nextID s"
    "s_stock ?s = s_stock s" "s_now ?s = s_now s"
    by simp_all
  have fields: "a_StartAt (a\<lparr>a_Status := st\<rparr>) = a_StartAt a" "a_EndAt (a\<lparr>a_Status := st\<rparr>) = a_EndAt a"
    "a_PerUserLimit (a\<lparr>a_Status := st\<rparr>) = a_PerUserLimit a" for a :: Activity
    by simp_all
  have same: "new_order req (a\<lparr>a_Status := st\<rparr>) now i = new_order req a now i" for a now i
    by (simp add: new_order_def)
  have place: "seckill_place ?s req (a\<lparr>a_Status := st\<rparr>) now rem = seckill_place s req a now rem" for a now rem
    unfolding seckill_place_def seckill_token_def seckill_create_def ports same ..
  have "seckill_window ?s req (a\<lparr>a_Status := st\<rparr>) = seckill_window s req a" for a
    unfolding seckill_window_def seckill_deduct_def ports fields place ..
  then show ?thesis
    unfolding Seckill_def
    by (auto simp: bindp_assoc intro!: arg_cong [where f = "bindp (s_activities s (rq_ActivityID req))"]
        split: sum.splits)
qed

section \<open>An attempt on services that do not fail\<close>

text \<open>The abstract sale: the outcome and the new stock and purchases of the user.\<close>

definition seckill_spec ::
  "Activity option \<Rightarrow> int \<Rightarrow> int option \<times> int \<Rightarrow> SeckillOutcome \<times> (int option \<times> int)" where
  "seckill_spec act now st =
     (case act of
        None \<Rightarrow> (OutcomeNotFound, st)
      | Some a \<Rightarrow>
          if now < a_StartAt a then (OutcomeNotStarted, st)
          else if a_EndAt a \<le> now then (OutcomeEnded, st)
          else (case deduct_spec 1 (a_PerUserLimit a) st of
              (Deducted _, st') \<Rightarrow> (OutcomeQueued, st')
            | (NotEnough, st') \<Rightarrow> (OutcomeSoldOut, st')
            | (LimitExceeded, st') \<Rightarrow> (OutcomeUserLimit, st')
            | (NotWarmed, st') \<Rightarrow> (OutcomeNotWarmed, st')))"

lemma in64_year_ok: "in64 t \<Longrightarrow> year_ok t"
  by (auto simp: in64_def year_ok_def)

definition message_of :: "SeckillRequest \<Rightarrow> Activity \<Rightarrow> string \<Rightarrow> OrderMessage \<Rightarrow> bool" where
  "message_of req a tok m \<longleftrightarrow> m_ActivityID m = rq_ActivityID req \<and> m_UserID m = rq_UserID req \<and>
     m_ProductID m = a_ProductID a \<and> m_IdempotencyToken m = rq_IdempotencyToken req \<and> m_QueueToken m = tok \<and>
     m_Version m = 1 \<and> in64 (m_OrderID m)"

context reliable_services begin

lemma read_clock:
  obtains t w' where "S Now w = (RInt t, w')" "in64 t" "ks w' = ks w" "tbl w' = tbl w" "log w' = log w"
  using now_int [of w] local_frame [of Now w] by (cases "S Now w") fastforce

lemma make_id:
  obtains i w' where "run S nextID w = (Some i, w')" "in64 i" "ks w' = ks w" "tbl w' = tbl w" "log w' = log w"
proof -
  obtain t w1 where now: "S Now w = (RInt t, w1)" "ks w1 = ks w" "tbl w1 = tbl w" "log w1 = log w"
    by (rule read_clock)
  obtain r w2 where cnt: "S AddCounter w1 = (r, w2)" by (cases "S AddCounter w1")
  show thesis
    using local_frame [OF cnt] now cnt
    by (intro that [of "add64 t (val_int r)" w2]) (simp_all add: nextID_def, simp add: add64_def)
qed

lemma make_token:
  obtains tok w' where "run S QueueService_New w = (Some (Inr tok), w')"
    "ks w' = (ks w)(queue_key tok \<mapsto> (''queued'', Some queueTokenTTL))" "tbl w' = tbl w" "log w' = log w"
proof -
  obtain r w1 where u: "S NewUUIDv7 w = (r, w1)" by (cases "S NewUUIDv7 w")
  obtain tok where tok: "r = RStr tok" using uuid_ok [OF u] by blast
  obtain r2 w2 where s: "S (Redis (SET (queue_key tok) ''queued'' queueTokenTTL)) w1 = (r2, w2)"
    by (cases "S (Redis (SET (queue_key tok) ''queued'' queueTokenTTL)) w1")
  have "r2 = ROk" "ks w2 = (ks w1)(queue_key tok \<mapsto> (''queued'', Some queueTokenTTL))"
    using redis_ok [OF s] by (auto simp: queueTokenTTL_def minute_def)
  then show thesis
    using local_frame [OF u] redis_call [OF s] u tok s
    by (intro that [of tok w2]) (simp_all add: QueueService_New_def)
qed

lemma send_order:
  obtains m v w' where "run S (KafkaOrderCreator_CreateWithToken topic x tok) w = (Some None, w')"
    "Marshal m = Inr v" "m_OrderID m = o_ID x" "m_ActivityID m = o_ActivityID x" "m_UserID m = o_UserID x"
    "m_ProductID m = o_ProductID x" "m_IdempotencyToken m = o_IdempotencyToken x" "m_QueueToken m = tok"
    "m_Version m = 1"
    "ks w' = ks w" "tbl w' = tbl w" "log w' = (log w)(topic := log w topic @ [v])"
proof -
  obtain t w1 where now: "S Now w = (RInt t, w1)" "in64 t" "ks w1 = ks w" "tbl w1 = tbl w" "log w1 = log w"
    by (rule read_clock)
  let ?m = "\<lparr>m_Version = 1, m_OrderID = o_ID x, m_ActivityID = o_ActivityID x, m_UserID = o_UserID x,
          m_ProductID = o_ProductID x, m_IdempotencyToken = o_IdempotencyToken x,
          m_QueueToken = tok, m_ProducedAt = t\<rparr>"
  obtain v where v: "Marshal ?m = Inr v" using in64_year_ok [OF now(2)] by (simp add: Marshal_def)
  obtain fields w2 where trace: "S InjectTrace w1 = (fields, w2)" by (cases "S InjectTrace w1")
  let ?send = "KWrite topic (show_int (o_UserID x)) v t (carrier_Inject [] (val_fields fields))"
  obtain r w3 where k: "S ?send w2 = (r, w3)" by (cases "S ?send w2")
  show thesis
    using kafka_ok [OF k] kafka_write [OF k] now local_frame [OF trace] v k trace
    by (intro that [of w3 ?m v]) (simp_all add: KafkaOrderCreator_CreateWithToken_def SendOrder_def Let_def)
qed

lemma stock_left_queue: "stock_left (m(queue_key tok \<mapsto> x)) a = stock_left m a"
  by (simp add: stock_left_def key_simps)

lemma bought_queue: "bought (m(queue_key tok \<mapsto> x)) a u = bought m a u"
  by (simp add: bought_def key_simps)

lemma place_order:
  assumes "KafkaOrder sw"
  obtains tok m v w' where
    "run S (seckill_place (api_service sw shards topic) req a now rem) w =
       (Some (\<lparr>out_Outcome = OutcomeQueued, out_QueueToken = tok, out_Remaining = rem\<rparr>, None), w')"
    "Marshal m = Inr v" "message_of req a tok m"
    "stock_left (ks w') = stock_left (ks w)" "bought (ks w') = bought (ks w)" "tbl w' = tbl w"
    "log w' = (log w)(topic := log w topic @ [v])"
proof -
  obtain i w1 where ident: "run S nextID w = (Some i, w1)" "in64 i" "ks w1 = ks w" "tbl w1 = tbl w" "log w1 = log w"
    by (rule make_id)
  obtain tok w2 where tok: "run S QueueService_New w1 = (Some (Inr tok), w2)"
    "ks w2 = (ks w1)(queue_key tok \<mapsto> (''queued'', Some queueTokenTTL))" "tbl w2 = tbl w1" "log w2 = log w1"
    by (rule make_token)
  obtain m v w3 where sent:
    "run S (KafkaOrderCreator_CreateWithToken topic (new_order req a now i) tok) w2 = (Some None, w3)"
    "Marshal m = Inr v" "message_of req a tok m"
    "ks w3 = ks w2" "tbl w3 = tbl w2" "log w3 = (log w2)(topic := log w2 topic @ [v])"
    by (rule send_order [of topic "new_order req a now i" tok w2]) (use ident(2) in \<open>auto simp: new_order_def message_of_def\<close>)
  show thesis
  proof (rule that)
    show "run S (seckill_place (api_service sw shards topic) req a now rem) w =
       (Some (\<lparr>out_Outcome = OutcomeQueued, out_QueueToken = tok, out_Remaining = rem\<rparr>, None), w3)"
      using assms ident tok sent
      by (simp add: seckill_place_def api_service_eq seckill_token_def seckill_create_def run_bindp)
  qed (use ident tok sent in \<open>auto simp: stock_left_queue bought_queue intro!: ext\<close>)
qed

lemma deduct_unit:
  assumes "counters_ok (ks w)" and "small limit"
    and "deduct_spec 1 limit (stock_left (ks w) a, bought (ks w) a u) = (res, st')"
  obtains w' where "run S (stockRedisRepo_DeductForUser a u 1 limit) w = (Some (result_of res), w')"
    "(stock_left (ks w') a, bought (ks w') a u) = st'" "tbl w' = tbl w" "log w' = log w"
proof -
  obtain r w1 where S: "S (deduct_call a u 1 limit) w = (r, w1)" by (cases "S (deduct_call a u 1 limit) w")
  have lua: "(r, ks w1) = (RInt (result_code res), case res of Deducted _ \<Rightarrow> deducted (ks w) a u 1 | _ \<Rightarrow> ks w)"
    using redis_ok [OF S [unfolded deduct_call_def]]
      run_stock_deduct [OF assms(1) small_1 zero_less_one assms(2), of a u] assms(3) by simp
  have frame: "tbl w1 = tbl w" "log w1 = log w" using redis_call [OF S [unfolded deduct_call_def]] by auto
  have res: "lua_result r = result_of res \<and> (stock_left (ks w1) a, bought (ks w1) a u) = st'"
  proof (cases "stock_left (ks w) a")
    case None
    then show ?thesis using lua assms(3) by auto
  next
    case (Some s)
    have "small s" by (rule stock_key_cases [OF assms(1), of a]) (use Some in auto)
    moreover have "small (bought (ks w) a u)" using assms(1) by (rule bought_small)
    ultimately have "small (s - 1)" "small (bought (ks w) a u + 1)" if "1 \<le> s" "bought (ks w) a u + 1 \<le> limit"
      using that assms(2) by (auto simp: small_def)
    then show ?thesis
      using lua assms(3) Some stock_left_deducted [OF Some, of 1] bought_deducted [of "ks w" a u 1]
      by (auto split: if_splits)
  qed
  show thesis
    by (rule that [of w1]) (use S frame res in \<open>simp_all add: stockRedisRepo_DeductForUser_eq\<close>)
qed

lemma run_Seckill:
  assumes "LuaStock sw" and "KafkaOrder sw" and "counters_ok (ks w)"
    and "\<forall>act. activities (tbl w MainDB) (rq_ActivityID req) = Some act \<longrightarrow> small (a_PerUserLimit act)"
  shows "\<exists>out now w'. run S (Seckill (api_service sw shards topic) req) w = (Some (out, None), w') \<and>
    (\<exists>v. fst (S Now v) = RInt now) \<and>
    (out_Outcome out, stock_left (ks w') (rq_ActivityID req), bought (ks w') (rq_ActivityID req) (rq_UserID req)) =
      seckill_spec (activities (tbl w MainDB) (rq_ActivityID req)) now
        (stock_left (ks w) (rq_ActivityID req), bought (ks w) (rq_ActivityID req) (rq_UserID req)) \<and>
    tbl w' = tbl w \<and>
    (if out_Outcome out = OutcomeQueued
     then \<exists>act m v. activities (tbl w MainDB) (rq_ActivityID req) = Some act \<and>
       Marshal m = Inr v \<and> message_of req act (out_QueueToken out) m \<and>
       log w' = (log w)(topic := log w topic @ [v])
     else log w' = log w)"
proof -
  let ?a = "rq_ActivityID req" and ?u = "rq_UserID req" and ?s = "api_service sw shards topic"
  obtain w1 where w1: "run S (activityRepo_GetByID ?a) w =
      (Some (case activities (tbl w MainDB) ?a of None \<Rightarrow> Inl ErrActivityNotFound | Some x \<Rightarrow> Inr x), w1)"
    "ks w1 = ks w" "tbl w1 = tbl w" "log w1 = log w"
    using run_lookup [of ?a w] by blast
  obtain now0 v0 where "fst (S Now v0) = RInt now0" using read_clock [of w] by (metis fst_conv)
  then have some_now: "\<exists>now v. fst (S Now v) = RInt now" by blast
  show ?thesis
  proof (cases "activities (tbl w MainDB) ?a")
    case None
    have "run S (Seckill ?s req) w = (Some (outcome OutcomeNotFound, None), w1)"
      using w1(1) None by (simp add: Seckill_def api_service_eq run_bindp)
    then show ?thesis using some_now w1 None by (auto simp: seckill_spec_def)
  next
    case (Some act)
    obtain now w2 where now: "S Now w1 = (RInt now, w2)" "ks w2 = ks w1" "tbl w2 = tbl w1" "log w2 = log w1"
      by (rule read_clock)
    have clock: "\<exists>v. fst (S Now v) = RInt now" using now by (intro exI [of _ w1]) simp
    have window: "run S (Seckill ?s req) w =
        (if now < a_StartAt act then (Some (outcome OutcomeNotStarted, None), w2)
         else if a_EndAt act \<le> now then (Some (outcome OutcomeEnded, None), w2)
         else run S (seckill_deduct ?s req act now) w2)"
      using w1(1) Some now by (simp add: Seckill_def seckill_window_def api_service_eq time_Now_def run_bindp not_less)
    show ?thesis
    proof (cases "now < a_StartAt act \<or> a_EndAt act \<le> now")
      case True
      then show ?thesis using window clock w1 now Some
        by (intro exI [of _ "if now < a_StartAt act then outcome OutcomeNotStarted else outcome OutcomeEnded"]
            exI [of _ now] exI [of _ w2]) (auto simp: seckill_spec_def)
    next
      case False
      obtain res st' where spec: "deduct_spec 1 (a_PerUserLimit act) (stock_left (ks w) ?a, bought (ks w) ?a ?u) = (res, st')"
        by (cases "deduct_spec 1 (a_PerUserLimit act) (stock_left (ks w) ?a, bought (ks w) ?a ?u)")
      obtain w3 where w3: "run S (stockRedisRepo_DeductForUser ?a ?u 1 (a_PerUserLimit act)) w2 = (Some (result_of res), w3)"
        "(stock_left (ks w3) ?a, bought (ks w3) ?a ?u) = st'" "tbl w3 = tbl w2" "log w3 = log w2"
        by (rule deduct_unit [of w2 "a_PerUserLimit act" ?a ?u res st'])
           (use assms(3,4) Some spec now w1 in auto)
      have deducted: "run S (seckill_deduct ?s req act now) w2 =
          (case res of
             Deducted rem \<Rightarrow> run S (seckill_place ?s req act now rem) w3
           | NotEnough \<Rightarrow> (Some (outcome OutcomeSoldOut, None), w3)
           | LimitExceeded \<Rightarrow> (Some (outcome OutcomeUserLimit, None), w3)
           | NotWarmed \<Rightarrow> (Some (outcome OutcomeNotWarmed, None), w3))"
        using w3(1) assms(1)
        by (simp add: seckill_deduct_def run_bindp api_service_eq split: deduct_result.splits)
      show ?thesis
      proof (cases res)
        case (Deducted rem)
        obtain tok m v w4 where placed: "run S (seckill_place ?s req act now rem) w3 =
             (Some (\<lparr>out_Outcome = OutcomeQueued, out_QueueToken = tok, out_Remaining = rem\<rparr>, None), w4)"
          "Marshal m = Inr v" "message_of req act tok m"
          "stock_left (ks w4) = stock_left (ks w3)" "bought (ks w4) = bought (ks w3)" "tbl w4 = tbl w3"
          "log w4 = (log w3)(topic := log w3 topic @ [v])"
          by (rule place_order [OF assms(2), of shards topic req act now rem w3])
        show ?thesis
          using window False deducted placed w3 now w1 clock spec Deducted Some
          by (intro exI [of _ "\<lparr>out_Outcome = OutcomeQueued, out_QueueToken = tok, out_Remaining = rem\<rparr>"]
              exI [of _ now] exI [of _ w4]) (auto simp: seckill_spec_def)
      next
        case NotEnough
        then show ?thesis using window False deducted w3 now w1 clock spec Some
          by (intro exI [of _ "outcome OutcomeSoldOut"] exI [of _ now] exI [of _ w3]) (auto simp: seckill_spec_def)
      next
        case LimitExceeded
        then show ?thesis using window False deducted w3 now w1 clock spec Some
          by (intro exI [of _ "outcome OutcomeUserLimit"] exI [of _ now] exI [of _ w3]) (auto simp: seckill_spec_def)
      next
        case NotWarmed
        then show ?thesis using window False deducted w3 now w1 clock spec Some
          by (intro exI [of _ "outcome OutcomeNotWarmed"] exI [of _ now] exI [of _ w3]) (auto simp: seckill_spec_def)
      qed
    qed
  qed
qed

end

text \<open>
  C15. With the stock in Redis and orders through Kafka, on services that do not fail, an attempt
  always answers, and it refines the abstract sale: its outcome, the stock left and the user's
  purchases are those of \<open>seckill_spec\<close> at a time the clock showed; the tables are unchanged;
  one message for the order is appended to the topic when the answer is queued, none otherwise.
\<close>

theorem Seckill_refines_spec:
  assumes "reliable_services S ks tbl logs coll dt"
    and "LuaStock sw" and "KafkaOrder sw" and "counters_ok (ks w)"
    and "\<forall>act. activities (tbl w MainDB) (rq_ActivityID req) = Some act \<longrightarrow> small (a_PerUserLimit act)"
  shows "\<exists>out now w'. run S (Seckill (api_service sw shards topic) req) w = (Some (out, None), w') \<and>
    (\<exists>v. fst (S Now v) = RInt now) \<and>
    (out_Outcome out, stock_left (ks w') (rq_ActivityID req), bought (ks w') (rq_ActivityID req) (rq_UserID req)) =
      seckill_spec (activities (tbl w MainDB) (rq_ActivityID req)) now
        (stock_left (ks w) (rq_ActivityID req), bought (ks w) (rq_ActivityID req) (rq_UserID req)) \<and>
    tbl w' = tbl w \<and>
    (if out_Outcome out = OutcomeQueued
     then \<exists>act m v. activities (tbl w MainDB) (rq_ActivityID req) = Some act \<and>
       Marshal m = Inr v \<and> message_of req act (out_QueueToken out) m \<and>
       logs w' = (logs w)(topic := logs w topic @ [v])
     else logs w' = logs w)"
  using reliable_services.run_Seckill [OF assms] .

lemma ex_counters: "counters_ok (mem_ks ex_world)"
proof -
  have two: "ParseInt ''2'' = Some 2" by code_simp
  show ?thesis by (auto simp: counters_ok_def counter_ok_def ex_world_def key_simps two small_def)
qed

theorem Seckill_refines_spec_witness:
  "\<exists>out w'. run mem_call (Seckill (api_service all_on ex_shards TopicSeckillOrders) ex_request) ex_world =
      (Some (out, None), w') \<and> mem_tbl w' = mem_tbl ex_world"
  using Seckill_refines_spec [OF memory.reliable_services_axioms, of all_on ex_world ex_request ex_shards
      TopicSeckillOrders] ex_counters
  by (auto simp: all_on_def ex_world_def ex_tables_def ex_request_def ex_activity_def small_def)

end
