(* ===== verification/Delivery.thy ===== *)
theory Delivery
  imports Attempt
begin

text \<open>
  Properties of the asynchronous half: how often a message is tried, when it is committed, when
  the loop returns, what materializing and dead-lettering do, when the breaker trips.
\<close>

section \<open>Retries and commits\<close>

text \<open>
  \<open>tried h i es outs\<close>: the events \<open>es\<close> are runs of \<open>h\<close> with the outcomes \<open>outs\<close>, the first
  being attempt number \<open>i\<close>, each attempt but number 0 after a pause of 100 ms times its number.
\<close>

definition paused :: "nat \<Rightarrow> event list \<Rightarrow> bool" where
  "paused i es \<longleftrightarrow> (if i = 0 then es = [] else \<exists>r. es = [(Sleep (int i * (100 * millisecond)), r)])"

fun tried :: "goerr option prog \<Rightarrow> nat \<Rightarrow> event list \<Rightarrow> goerr option list \<Rightarrow> bool" where
  "tried h i es [] = (es = [])"
| "tried h i es (x # xs) =
     (\<exists>pause fs rest. es = pause @ fs @ rest \<and> paused i pause \<and>
        performs h fs (Some x) \<and> tried h (Suc i) rest xs)"

lemma paused_run:
  assumes "performs (if 0 < i then Call (Sleep (int i * (100 * millisecond))) (\<lambda>_. h) else h) es a"
  obtains pause fs where "es = pause @ fs" "paused i pause" "performs h fs a"
proof (cases "i = 0")
  case True
  then show thesis using that [of "[]" es] assms by (simp add: paused_def)
next
  case False
  then obtain r fs where "es = (Sleep (int i * (100 * millisecond)), r) # fs" "performs h fs a"
    using assms by auto
  then show thesis using that [of "[(Sleep (int i * (100 * millisecond)), r)]" fs] False
    by (simp add: paused_def)
qed

lemma attempts_from_tried:
  "performs (attempts_from h i further) es (Some res) \<Longrightarrow>
     \<exists>outs. tried h i es outs \<and> outs \<noteq> [] \<and> length outs \<le> Suc further \<and>
       (\<forall>x\<in>set (butlast outs). x \<noteq> None) \<and> last outs = res \<and>
       (res \<noteq> None \<longrightarrow> length outs = Suc further)"
proof (induction further arbitrary: i es)
  case 0
  from 0 [unfolded attempts_from.simps [of h i 0]] obtain pause fs x where
    "es = pause @ fs" "paused i pause"
    "performs h fs (Some x)" "res = x"
    by (auto elim!: performs_bindpE paused_run split: option.splits)
  then show ?case by (intro exI [of _ "[x]"]) auto
next
  case (Suc further)
  from Suc.prems [unfolded attempts_from.simps [of h i "Suc further"] nat.case] obtain pause fs x rest where
    es: "es = pause @ fs @ rest" "paused i pause"
    "performs h fs (Some x)" and
    rest: "performs (case x of None \<Rightarrow> Ret None | Some e \<Rightarrow> attempts_from h (Suc i) further) rest (Some res)"
    by (elim performs_bindpE paused_run) auto
  show ?case
  proof (cases x)
    case None
    then show ?thesis using es rest by (intro exI [of _ "[x]"]) auto
  next
    case (Some e)
    then have "performs (attempts_from h (Suc i) further) rest (Some res)" using rest by simp
    from Suc.IH [OF this] obtain outs where "tried h (Suc i) rest outs" "outs \<noteq> []" "length outs \<le> Suc further"
      "\<forall>x\<in>set (butlast outs). x \<noteq> None" "last outs = res" "res \<noteq> None \<longrightarrow> length outs = Suc further"
      by blast
    then show ?thesis using es Some by (intro exI [of _ "x # outs"]) auto
  qed
qed

text \<open>
  C18. Bounded retries.  A message is handled at least once and at most \<open>maxRetries + 1\<close> times;
  all attempts but the last failed; the last decides the result; a failure is only reported
  after the full number of attempts; the pauses grow linearly.
\<close>

theorem retry_attempts:
  assumes "0 \<le> maxRetries" and "performs (retry maxRetries h) es (Some res)"
  shows "\<exists>outs. tried h 0 es outs \<and> 1 \<le> length outs \<and> int (length outs) \<le> maxRetries + 1 \<and>
    (\<forall>x\<in>set (butlast outs). x \<noteq> None) \<and> last outs = res \<and>
    (res \<noteq> None \<longrightarrow> int (length outs) = maxRetries + 1)"
proof -
  from assms obtain outs where "tried h 0 es outs" "outs \<noteq> []" "length outs \<le> Suc (nat maxRetries)"
    "\<forall>x\<in>set (butlast outs). x \<noteq> None" "last outs = res"
    "res \<noteq> None \<longrightarrow> length outs = Suc (nat maxRetries)"
    using attempts_from_tried [of h 0 "nat maxRetries" es res] by (auto simp: retry_def)
  then show ?thesis using assms(1) by (intro exI [of _ outs]) (auto simp: Suc_le_eq)
qed

theorem retry_attempts_witness:
  "\<exists>outs. tried (Call BreakerAsk (\<lambda>r. Ret (as_unit r))) 0
     [(BreakerAsk, RErr RedisNil), (Sleep 100000000, ROk), (BreakerAsk, ROk)] outs \<and>
     1 \<le> length outs \<and> last outs = None"
proof -
  have "performs (retry 3 (Call BreakerAsk (\<lambda>r. Ret (as_unit r))))
     [(BreakerAsk, RErr RedisNil), (Sleep 100000000, ROk), (BreakerAsk, ROk)] (Some None)"
    by (simp add: retry_def attempts_from.simps performs_Call numeral_3_eq_3 millisecond_def)
  from retry_attempts [OF _ this] show ?thesis by auto
qed

text \<open>
  C17. Commit last.  The offset of a message is committed as the last call of its processing,
  after the handler succeeded, or after its attempts were used up and the dead-letter handler
  ran, or, for an undecodable message, after the dead-letter handler ran.
\<close>

theorem commit_after_processing:
  assumes "performs (process_message c msg) es (Some stop)"
  shows "\<exists>es' r. es = es' @ [(KCommit msg, r)] \<and>
    (case UnmarshalOrderMessage (msg_value msg) of
       (om, Some err) \<Rightarrow> stop = None \<and> performs (dead_letter c (msg_value msg) err) es' (Some ())
     | (om, None) \<Rightarrow> stop = as_unit r \<and>
         (performs (retry (c_maxRetries c) (c_handler c om)) es' (Some None) \<or>
          (\<exists>es1 es2 e. es' = es1 @ es2 \<and>
             performs (retry (c_maxRetries c) (c_handler c om)) es1 (Some (Some e)) \<and>
             performs (dead_letter c (msg_value msg) e) es2 (Some ()))))"
proof (cases "UnmarshalOrderMessage (msg_value msg)")
  case (Pair om jerr)
  show ?thesis
  proof (cases jerr)
    case (Some err)
    then show ?thesis
      using assms Pair by (auto simp: process_message_def elim!: performs_bindpE)
  next
    case None
    with assms Pair have p: "performs (bindp (retry (c_maxRetries c) (c_handler c om)) (\<lambda>lastErr.
        bindp (case lastErr of None \<Rightarrow> Ret () | Some e \<Rightarrow> dead_letter c (msg_value msg) e) (\<lambda>_.
          Call (KCommit msg) (\<lambda>r. Ret (as_unit r))))) es (Some stop)"
      by (simp add: process_message_def)
    obtain es1 es2 r lastErr where es: "es = es1 @ es2 @ [(KCommit msg, r)]" "stop = as_unit r"
      and retry: "performs (retry (c_maxRetries c) (c_handler c om)) es1 (Some lastErr)"
      and dl: "performs (case lastErr of None \<Rightarrow> Ret () | Some e \<Rightarrow> dead_letter c (msg_value msg) e) es2 (Some ())"
      using p by (elim performs_bindpE) auto
    show ?thesis using es retry dl None Pair by (cases lastErr) auto
  qed
qed

theorem commit_after_processing_witness:
  "\<exists>es'. performs (process_message (order_consumer all_on ex_shards TopicSeckillOrders TopicSeckillDLQ)
       (KMsg 3 (Malformed ''x'')))
     [(CountMetric DLQTotal [''invalid character''], ROk), (KCommit (KMsg 3 (Malformed ''x'')), ROk)]
     (Some None) \<and>
     es' @ [(KCommit (KMsg 3 (Malformed ''x'')), ROk)] =
       [(CountMetric DLQTotal [''invalid character''], ROk), (KCommit (KMsg 3 (Malformed ''x'')), ROk)]"
proof -
  have p: "performs (process_message (order_consumer all_on ex_shards TopicSeckillOrders TopicSeckillDLQ)
       (KMsg 3 (Malformed ''x'')))
     [(CountMetric DLQTotal [''invalid character''], ROk), (KCommit (KMsg 3 (Malformed ''x'')), ROk)]
     (Some None)"
    by (simp add: process_message_def UnmarshalOrderMessage_def Unmarshal_def syntax_error_def
        dead_letter_def order_consumer_def consumer_dlq_def zero_message_def performs_Call)
  from commit_after_processing [OF p] p show ?thesis by auto
qed

section \<open>The loop\<close>

fun is_fetched :: "event \<Rightarrow> bool" where
  "is_fetched (KFetch t, RMsg m) = True"
| "is_fetched e = False"

definition no_fetch :: "call \<Rightarrow> bool" where
  "no_fetch c \<longleftrightarrow> \<not> (\<exists>t. c = KFetch t)"

lemma no_fetch_events:
  assumes "performs p es a" and "makes no_fetch p"
  shows "filter is_fetched es = []"
proof -
  have "\<not> is_fetched (c, r)" if "(c, r) \<in> set es" for c r
    using performs_makes [OF assms that] by (cases "(c, r)" rule: is_fetched.cases) (auto simp: no_fetch_def)
  then show ?thesis by (auto simp: filter_empty_conv)
qed

lemma no_fetch_process:
  assumes "\<And>om. makes no_fetch (c_handler c om)" and "\<And>raw e. makes no_fetch (dead_letter c raw e)"
  shows "makes no_fetch (process_message c msg)"
  unfolding process_message_def
  by (auto simp: no_fetch_def [of "KCommit msg"] intro!: makes_bindp assms makes_retry split: prod.splits option.splits)
     (simp add: no_fetch_def)

lemma Run_fetches:
  assumes "\<And>om. makes no_fetch (c_handler c om)" and "\<And>raw e. makes no_fetch (dead_letter c raw e)"
  shows "performs (Run fuel c) es (Some OutOfFuel) \<Longrightarrow> length (filter is_fetched es) = fuel"
proof (induction fuel arbitrary: es)
  case (Suc fuel)
  from Suc.prems obtain r1 r2 msg es1 es2 stop where
    es: "es = (CtxDone, r1) # (KFetch (c_topic c), r2) # es1 @ es2" and m: "as_msg r2 = Inr msg"
    and p: "performs (process_message c msg) es1 (Some stop)"
    and rest: "performs (case stop of None \<Rightarrow> Run fuel c | Some err \<Rightarrow> Ret (Returned (Some err))) es2 (Some OutOfFuel)"
    by (auto elim!: performs_bindpE split: if_splits sum.splits)
  have r2: "r2 = RMsg msg" using m by (cases r2) (auto simp: as_msg_def)
  have "filter is_fetched es1 = []"
    using no_fetch_events [OF p no_fetch_process [OF assms]] .
  moreover have "length (filter is_fetched es2) = fuel"
    using rest Suc.IH by (cases stop) auto
  ultimately show ?case by (simp add: es r2)
qed auto

text \<open>
  C19. The loop makes progress.  Every round that does not end the loop takes one message; so if
  fewer messages are fetched than there are rounds allowed, the loop has returned.
\<close>

theorem Run_returns:
  assumes "\<forall>om. makes no_fetch (c_handler c om)" and "\<forall>raw e. makes no_fetch (dead_letter c raw e)"
    and "performs (Run fuel c) es (Some res)" and "length (filter is_fetched es) < fuel"
  shows "\<exists>err. res = Returned err"
  using assms Run_fetches [of c fuel es] by (cases res) auto

lemma order_consumer_no_fetch:
  "makes no_fetch (c_handler (order_consumer sw shards topic dlq) om)"
  "makes no_fetch (dead_letter (order_consumer sw shards topic dlq) raw e)"
proof -
  show "makes no_fetch (c_handler (order_consumer sw shards topic dlq) om)"
    by (auto simp: order_consumer_def materializer_eq no_fetch_def
        intro!: makes_Handle makes_mono [OF makes_order_create])
  show "makes no_fetch (dead_letter (order_consumer sw shards topic dlq) raw e)"
    by (auto simp: dead_letter_def order_consumer_def consumer_dlq_def MarkFailed_def no_fetch_def
        intro!: makes_bindp makes_SendOrder split: prod.splits)
qed

theorem Run_returns_witness:
  "\<exists>res err. performs (Run 2 (order_consumer all_on ex_shards TopicSeckillOrders TopicSeckillDLQ))
     [(CtxDone, RBool False), (KFetch TopicSeckillOrders, RErr RedisNil), (CtxDone, RBool True)] (Some res) \<and>
     res = Returned err"
proof -
  let ?es = "[(CtxDone, RBool False), (KFetch TopicSeckillOrders, RErr RedisNil), (CtxDone, RBool True)]"
  have p: "performs (Run 2 (order_consumer all_on ex_shards TopicSeckillOrders TopicSeckillDLQ)) ?es
      (Some (Returned None))"
    by (simp add: numeral_2_eq_2 performs_Call order_consumer_def)
  from Run_returns [OF _ _ p] order_consumer_no_fetch p show ?thesis by auto
qed

section \<open>Materializing an order\<close>

lemma order_create_at:
  "insert_db sw shards x = Some d \<Longrightarrow>
     order_create sw shards x = Call (Sql d (InsertOrder x)) (\<lambda>r. Ret (insert_result r))"
  by (auto simp: order_create_eq insert_db_def shardedOrderRepo_Create_def orderRepo_Create_def
      split: if_splits)

definition with_row :: "(int \<Rightarrow> int) \<Rightarrow> dbid \<Rightarrow> Order \<Rightarrow> (dbid \<Rightarrow> tables) \<Rightarrow> dbid \<Rightarrow> tables" where
  "with_row dt d x t = t(d := (t d)\<lparr>orders_0 := orders_0 (t d) @ [stored_order dt x]\<rparr>)"

context working_services begin

lemma run_insert:
  assumes "insert_db sw shards x = Some d"
  obtains w' where "run S (order_create sw shards x) w =
      (Some (if order_conflict coll x (orders_0 (tbl w d)) then Some ErrOrderDuplicate else None), w')"
    "tbl w' = (if order_conflict coll x (orders_0 (tbl w d)) then tbl w else with_row dt d x (tbl w))"
    "ks w' = ks w" "log w' = log w"
proof -
  obtain r w1 where S: "S (Sql d (InsertOrder x)) w = (r, w1)" by (cases "S (Sql d (InsertOrder x)) w")
  have frame: "ks w1 = ks w" "log w1 = log w" using sql_call [OF S] by auto
  show thesis
  proof (cases "order_conflict coll x (orders_0 (tbl w d))")
    case True
    then obtain m where "r = RErr (GoErr m)" "duplicate_text m" using sql_ok [OF S] by auto
    moreover have "tbl w1 = tbl w" using sql_duplicate [OF S] True by simp
    ultimately show ?thesis
      using frame S True by (intro that [of w1]) (simp_all add: order_create_at [OF assms])
  next
    case False
    then have "r = ROk" "tbl w1 = with_row dt d x (tbl w)" using sql_ok [OF S] by (simp_all add: with_row_def)
    then show ?thesis
      using frame S False by (intro that [of w1]) (simp_all add: order_create_at [OF assms])
  qed
qed

end

context reliable_services begin

lemma run_guarded_insert:
  assumes "insert_db sw shards x = Some d"
  obtains w' where "run S (if b then CB_Do (order_create sw shards x) else order_create sw shards x) w =
      (Some (if order_conflict coll x (orders_0 (tbl w d)) then Some ErrOrderDuplicate else None), w')"
    "tbl w' = (if order_conflict coll x (orders_0 (tbl w d)) then tbl w else with_row dt d x (tbl w))"
    "ks w' = ks w" "log w' = log w"
proof (cases b)
  case False
  obtain w' where "run S (order_create sw shards x) w =
      (Some (if order_conflict coll x (orders_0 (tbl w d)) then Some ErrOrderDuplicate else None), w')"
    "tbl w' = (if order_conflict coll x (orders_0 (tbl w d)) then tbl w else with_row dt d x (tbl w))"
    "ks w' = ks w" "log w' = log w" by (rule run_insert [OF assms])
  then show ?thesis using False by (intro that [of w']) simp_all
next
  case True
  obtain r w1 where ask: "S BreakerAsk w = (r, w1)" by (cases "S BreakerAsk w")
  have r: "r = ROk" using breaker_ok [OF ask] .
  have f1: "ks w1 = ks w" "tbl w1 = tbl w" "log w1 = log w" using local_frame [OF ask] by auto
  let ?res = "if order_conflict coll x (orders_0 (tbl w d)) then Some ErrOrderDuplicate else None"
  obtain w2 where ins: "run S (order_create sw shards x) w1 = (Some ?res, w2)"
    "tbl w2 = (if order_conflict coll x (orders_0 (tbl w d)) then tbl w else with_row dt d x (tbl w))"
    "ks w2 = ks w" "log w2 = log w"
    by (rule run_insert [OF assms, of w1]) (use f1 in simp)
  obtain r3 w3 where tell: "S (BreakerTell (?res = None)) w2 = (r3, w3)" by (cases "S (BreakerTell (?res = None)) w2")
  have f3: "ks w3 = ks w2" "tbl w3 = tbl w2" "log w3 = log w2" using local_frame [OF tell] by auto
  show ?thesis
    using True f3 ins tell by (intro that [of w3]) (simp_all add: CB_Do_def ask r run_bindp)
qed

lemma run_Handle:
  assumes "insert_db sw shards (order_of msg) = Some d"
  obtains w' where "run S (Handle (materializer sw shards) msg) w = (Some None, w')"
    "tbl w' = (if order_conflict coll (order_of msg) (orders_0 (tbl w d)) then tbl w
               else with_row dt d (order_of msg) (tbl w))"
    "ks w' = (ks w)(queue_key (m_QueueToken msg) \<mapsto> (''success:'' @ show_int (m_OrderID msg), Some hour))"
    "log w' = log w"
proof -
  let ?x = "order_of msg"
  let ?set = "Redis (SET (queue_key (m_QueueToken msg)) (''success:'' @ show_int (m_OrderID msg)) hour)"
  obtain w1 where ins: "run S (if CircuitBreaker sw then CB_Do (order_create sw shards ?x) else order_create sw shards ?x) w =
      (Some (if order_conflict coll ?x (orders_0 (tbl w d)) then Some ErrOrderDuplicate else None), w1)"
    "tbl w1 = (if order_conflict coll ?x (orders_0 (tbl w d)) then tbl w else with_row dt d ?x (tbl w))"
    "ks w1 = ks w" "log w1 = log w"
    by (rule run_guarded_insert [OF assms, of "CircuitBreaker sw" w])
  obtain r w2 where st: "S ?set w1 = (r, w2)" by (cases "S ?set w1")
  have r: "r = ROk" "ks w2 = (ks w1)(queue_key (m_QueueToken msg) \<mapsto> (''success:'' @ show_int (m_OrderID msg), Some hour))"
    using redis_ok [OF st] by (auto simp: hour_def minute_def)
  have f: "tbl w2 = tbl w1" "log w2 = log w1" using redis_call [OF st] by auto
  have "run S (Handle (materializer sw shards) msg) w = (Some None, w2)"
    using ins(1) st r(1)
    by (cases "order_conflict coll ?x (orders_0 (tbl w d))")
       (simp_all add: Handle_def materializer_eq run_bindp cong: if_cong split del: if_split)
  then show thesis using that r(2) f ins by simp
qed

end

text \<open>
  Materializing a message, on services that do not fail: the handler reports success and
  the queue token resolves to the message's order id; the row is added to the database the user
  is routed to, unless a row with the same id or the same activity, user and token is there
  already, in which case nothing is written.
\<close>

theorem Handle_materializes:
  assumes "reliable_services S ks tbl logs coll dt"
    and "insert_db sw shards (order_of msg) = Some d"
  shows "\<exists>w'. run S (Handle (materializer sw shards) msg) w = (Some None, w') \<and>
    tbl w' = (if order_conflict coll (order_of msg) (orders_0 (tbl w d)) then tbl w
              else with_row dt d (order_of msg) (tbl w)) \<and>
    ks w' = (ks w)(queue_key (m_QueueToken msg) \<mapsto> (''success:'' @ show_int (m_OrderID msg), Some hour)) \<and>
    logs w' = logs w"
  by (rule reliable_services.run_Handle [OF assms, of w]) blast

definition ex_message :: OrderMessage where
  "ex_message = \<lparr>m_Version = 1, m_OrderID = 42, m_ActivityID = 7, m_UserID = 9, m_ProductID = 70,
     m_IdempotencyToken = ''t1'', m_QueueToken = ''q'', m_ProducedAt = 8\<rparr>"

lemma ex_insert_db: "insert_db all_on ex_shards (order_of (ex_message\<lparr>m_OrderID := i\<rparr>)) = Some (ShardDB 1)"
proof -
  have "shard_of ex_shards 9 = Some (ShardDB 1)" by code_simp
  then show ?thesis by (simp add: insert_db_def all_on_def ex_shards_def order_of_def ex_message_def)
qed

theorem Handle_materializes_witness:
  "\<exists>w'. run mem_call (Handle (materializer all_on ex_shards) (ex_message\<lparr>m_OrderID := 42\<rparr>)) ex_world = (Some None, w') \<and>
     mem_log w' = mem_log ex_world"
  using Handle_materializes [OF memory.reliable_services_axioms ex_insert_db [of 42], of ex_world] by blast



text \<open>
  C34. A second purchase under the same activity, user and idempotency token is taken for a
  redelivery: its unit of stock stays deducted, no row is written, and its queue token resolves
  to its own order id although no order with that id exists.
\<close>

theorem duplicate_token_reports_missing_order:
  assumes "reliable_services S ks tbl logs coll dt"
    and "insert_db sw shards (order_of msg) = Some d"
    and "y \<in> set (orders_0 (tbl w d))" and "uk_idem coll y = uk_idem coll (order_of msg)"
    and "\<forall>z\<in>set (orders_0 (tbl w d)). o_ID z \<noteq> m_OrderID msg"
  shows "\<exists>w'. run S (Handle (materializer sw shards) msg) w = (Some None, w') \<and> tbl w' = tbl w \<and>
    ks w' (queue_key (m_QueueToken msg)) = Some (''success:'' @ show_int (m_OrderID msg), Some hour) \<and>
    \<not> (\<exists>z\<in>set (orders_0 (tbl w' d)). o_ID z = m_OrderID msg)"
proof -
  have "order_conflict coll (order_of msg) (orders_0 (tbl w d))"
    using assms(3,4) by (auto simp: order_conflict_iff)
  moreover obtain w' where "run S (Handle (materializer sw shards) msg) w = (Some None, w')"
    "tbl w' = (if order_conflict coll (order_of msg) (orders_0 (tbl w d)) then tbl w
              else with_row dt d (order_of msg) (tbl w))"
    "ks w' = (ks w)(queue_key (m_QueueToken msg) \<mapsto> (''success:'' @ show_int (m_OrderID msg), Some hour))"
    by (rule reliable_services.run_Handle [OF assms(1,2), of w])
  ultimately show ?thesis using assms(5) by (intro exI [of _ w']) auto
qed

theorem duplicate_token_reports_missing_order_witness:
  "\<exists>w w' :: mem. run mem_call (Handle (materializer all_on ex_shards) (ex_message\<lparr>m_OrderID := 43\<rparr>)) w = (Some None, w') \<and>
     mem_tbl w' = mem_tbl w \<and>
     mem_ks w' (queue_key ''q'') = Some (''success:43'', Some hour)"
proof -
  obtain w :: mem where w: "mem_tbl w = with_row (\<lambda>t. t) (ShardDB 1) (order_of (ex_message\<lparr>m_OrderID := 42\<rparr>)) (mem_tbl ex_world)"
  proof (rule memory.run_Handle [OF ex_insert_db [of 42], of ex_world])
    fix w1 :: mem
    assume "mem_tbl w1 = (if order_conflict (\<lambda>x. x) (order_of (ex_message\<lparr>m_OrderID := 42\<rparr>)) (orders_0 (mem_tbl ex_world (ShardDB 1)))
        then mem_tbl ex_world else with_row (\<lambda>t. t) (ShardDB 1) (order_of (ex_message\<lparr>m_OrderID := 42\<rparr>)) (mem_tbl ex_world))"
    then show thesis
      using that [of w1] by (simp add: order_conflict_def ex_world_def ex_tables_def empty_tables_def)
  qed
  have rows: "orders_0 (mem_tbl w (ShardDB 1)) = [order_of (ex_message\<lparr>m_OrderID := 42\<rparr>)]"
    by (simp add: w with_row_def ex_world_def ex_tables_def empty_tables_def stored_order_def)
  have id43: "show_int 43 = ''43''" by code_simp
  have tok: "m_QueueToken (ex_message\<lparr>m_OrderID := 43\<rparr>) = ''q''"
    "m_OrderID (ex_message\<lparr>m_OrderID := 43\<rparr>) = 43" by (simp_all add: ex_message_def)
  have "\<exists>w'. run mem_call (Handle (materializer all_on ex_shards) (ex_message\<lparr>m_OrderID := 43\<rparr>)) w = (Some None, w') \<and>
     mem_tbl w' = mem_tbl w \<and>
     mem_ks w' (queue_key ''q'') = Some (''success:'' @ show_int 43, Some hour) \<and>
     \<not> (\<exists>z\<in>set (orders_0 (mem_tbl w' (ShardDB 1))). o_ID z = 43)"
    using duplicate_token_reports_missing_order [OF memory.reliable_services_axioms ex_insert_db [of 43],
        of "order_of (ex_message\<lparr>m_OrderID := 42\<rparr>)" w, unfolded tok rows]
    by (simp add: uk_idem_def order_of_def ex_message_def)
  then show ?thesis unfolding id43 append.simps by blast
qed

section \<open>Dead letters\<close>

text \<open>
  A message that is not JSON leaves no trace but a counter: it is counted, not published to
  the dead-letter topic, and committed.
\<close>

theorem malformed_message_lost:
  "performs (process_message (order_consumer sw shards topic dlq) (KMsg n (Malformed s))) es (Some stop) \<longleftrightarrow>
     stop = None \<and> (\<exists>r1 r2. es = [(CountMetric DLQTotal [''invalid character''], r1),
                                 (KCommit (KMsg n (Malformed s)), r2)])"
  by (auto simp: process_message_def UnmarshalOrderMessage_def Unmarshal_def syntax_error_def
      dead_letter_def order_consumer_def consumer_dlq_def zero_message_def performs_Call)





section \<open>The circuit breaker\<close>

text \<open>
  When the breaker trips.  With the default threshold of one half and a division rounded
  like IEEE doubles (monotone, exact on one half, within \<open>2 ^ -53\<close> of the ratio), for 32-bit
  counts the breaker trips exactly when there were at least five requests and at least half of
  them failed.
\<close>

theorem ReadyToTrip_half:
  assumes "mono rnd" and "rnd (1 / 2) = 1 / 2" and "\<forall>x. 0 \<le> x \<and> x \<le> 1 \<longrightarrow> rnd x \<le> x + 1 / 2 ^ 53"
    and "TotalFailures counts \<le> Requests counts" and "Requests counts < 2 ^ 32"
  shows "ReadyToTrip rnd (breaker_threshold 0) counts \<longleftrightarrow>
    5 \<le> Requests counts \<and> Requests counts \<le> 2 * TotalFailures counts"
proof (cases "Requests counts < 5")
  case False
  let ?n = "of_nat (Requests counts) :: rat" and ?f = "of_nat (TotalFailures counts) :: rat"
  have n: "0 < ?n" using False by simp
  show ?thesis
  proof (cases "Requests counts \<le> 2 * TotalFailures counts")
    case True
    then have "?n \<le> of_nat (2 * TotalFailures counts)" by (simp only: of_nat_le_iff)
    then have "?n \<le> 2 * ?f" by simp
    then have "1 / 2 \<le> ?f / ?n" using n by (simp add: field_simps)
    from monoD [OF assms(1) this] show ?thesis
      using assms(2) False True by (simp add: ReadyToTrip_def breaker_threshold_def)
  next
    case no: False
    then have "2 * TotalFailures counts + 1 \<le> Requests counts" by simp
    then have "of_nat (2 * TotalFailures counts + 1) \<le> ?n" by (simp only: of_nat_le_iff)
    then have "2 * ?f + 1 \<le> ?n" by simp
    then have "?f / ?n \<le> 1 / 2 - 1 / (2 * ?n)" using n by (simp add: field_simps)
    moreover have "?n < of_nat (2 ^ 32)" using assms(5) by (simp only: of_nat_less_iff)
    then have "?n < 2 ^ 32" by simp
    then have "(1::rat) / 2 ^ 53 < 1 / (2 * ?n)" using n by (simp add: field_simps)
    moreover have "0 \<le> ?f / ?n \<and> ?f / ?n \<le> 1" using n assms(4) by simp
    then have "rnd (?f / ?n) \<le> ?f / ?n + 1 / 2 ^ 53" using assms(3) by blast
    ultimately have "rnd (?f / ?n) < 1 / 2" by linarith
    then show ?thesis using False no by (simp add: ReadyToTrip_def breaker_threshold_def)
  qed
qed (simp add: ReadyToTrip_def)

theorem ReadyToTrip_half_witness:
  "ReadyToTrip (\<lambda>x. x) (breaker_threshold 0) \<lparr>Requests = 6, TotalFailures = 3\<rparr>"
  using ReadyToTrip_half [of "\<lambda>x. x" "\<lparr>Requests = 6, TotalFailures = 3\<rparr>"]
  by (simp add: mono_def)

end
