(* ===== verification/Web.thy ===== *)
theory Web
  imports Delivery
begin

text \<open>
  Properties of the HTTP layer: statuses, what an error discloses, rate limiting, idempotent
  replay and the bodies that bypass it, resolving a queue token, and the list of watched activities.
\<close>

section \<open>Statuses\<close>

fun http_status :: "SeckillOutcome \<Rightarrow> int" where
  "http_status OutcomeQueued = 202"
| "http_status OutcomeSoldOut = 410"
| "http_status OutcomeUserLimit = 409"
| "http_status OutcomeDuplicate = 409"
| "http_status OutcomeNotStarted = 403"
| "http_status OutcomeEnded = 410"
| "http_status OutcomeNotFound = 404"
| "http_status OutcomeInternal = 500"
| "http_status OutcomeNotWarmed = 500"

lemma c_JSON_status:
  "cx_Written c = [] \<Longrightarrow> 0 < st \<Longrightarrow> cx_Status (c_JSON W st doc c) = st"
  "cx_Written c = [] \<Longrightarrow> cx_Written (c_JSON W st doc c) = render W doc"
  by (simp_all add: c_JSON_def write_bytes_def write_status_def)

text \<open>
  A well-formed request reaches the service once and its outcome alone decides the status;
  stock that is not warmed is answered like an internal error.
\<close>

theorem seckill_status:
  assumes "bind_request W c = Inr req" and "performs (svc req) es (Some (out, err))"
    and "cx_Written c = []"
  shows "performs (handler_Seckill W svc c) es (Some (seckill_response W (out, err) c)) \<and>
    cx_Status (seckill_response W (out, err) c) = http_status (out_Outcome out)"
proof
  have "performs p fs (Some a) \<Longrightarrow> performs (bindp p (\<lambda>x. Ret (f x))) fs (Some (f a))" for p :: "'x prog" and f :: "'x \<Rightarrow> Ctx" and fs a
    by (induction p arbitrary: fs) (auto intro: performs.call)
  then show "performs (handler_Seckill W svc c) es (Some (seckill_response W (out, err) c))"
    using assms(1,2) by (simp add: handler_Seckill_def)
  show "cx_Status (seckill_response W (out, err) c) = http_status (out_Outcome out)"
    using assms(3) by (cases "out_Outcome out") (simp_all add: seckill_response_def writeError_def c_JSON_status)
qed

theorem seckill_status_witness:
  "cx_Status (seckill_response ex_wire (outcome OutcomeNotWarmed, None) ex_ctx) = 500 \<and>
   performs (handler_Seckill ex_wire (\<lambda>req. Ret (outcome OutcomeNotWarmed, None)) ex_ctx) []
     (Some (seckill_response ex_wire (outcome OutcomeNotWarmed, None) ex_ctx))"
proof -
  have "bind_request ex_wire ex_ctx = Inr ex_request" by code_simp
  from seckill_status [OF this, of "\<lambda>req. Ret (outcome OutcomeNotWarmed, None)" "[]" "outcome OutcomeNotWarmed" None]
  show ?thesis by (simp add: ex_ctx_def new_ctx_def)
qed


section \<open>Rate limiting\<close>

text \<open>How many of \<open>n\<close> requests of one user get through the limiter.\<close>

fun admitted ::
  "(call \<Rightarrow> 'w \<Rightarrow> reply \<times> 'w) \<Rightarrow> wire \<Rightarrow> int \<Rightarrow> Ctx \<Rightarrow> nat \<Rightarrow> 'w \<Rightarrow> nat \<times> 'w" where
  "admitted S W limit c 0 w = (0, w)"
| "admitted S W limit c (Suc n) w =
     (case run S (RateLimit_mw W limit (\<lambda>c. Ret c) c) w of
        (res, w1) \<Rightarrow> (case admitted S W limit c n w1 of
          (k, w2) \<Rightarrow> (case res of
              Some c' \<Rightarrow> (if cx_Status c' = 429 then k else Suc k, w2)
            | None \<Rightarrow> (k, w2))))"

definition hits :: "keyspace \<Rightarrow> string \<Rightarrow> int option" where
  "hits ks u = (case ks (ratelimit_key u) of None \<Rightarrow> Some 0 | Some (v, _) \<Rightarrow> ParseInt v)"

context reliable_services begin

lemma run_RateLimit:
  assumes u: "cx_UserIdHeader c \<noteq> []" and h: "hits (ks w) (cx_UserIdHeader c) = Some j"
    and j: "in64 (j + 1)" and c: "cx_Written c = []" "cx_Status c = 200"
  obtains c' w' where "run S (RateLimit_mw W limit (\<lambda>c. Ret c) c) w = (Some c', w')"
    "cx_Status c' = (if j + 1 > limit then 429 else 200)" "hits (ks w') (cx_UserIdHeader c) = Some (j + 1)"
proof -
  let ?u = "cx_UserIdHeader c" and ?k = "ratelimit_key (cx_UserIdHeader c)"
  obtain r w1 where allow: "S LimiterAllow w = (r, w1)" by (cases "S LimiterAllow w")
  have r: "r = RBool True" "ks w1 = ks w" using limiter_ok [OF allow] local_frame [OF allow] by auto
  obtain r2 w2 where incr: "S (Redis (INCR ?k)) w1 = (r2, w2)" by (cases "S (Redis (INCR ?k)) w1")
  obtain ttl where count: "incr_by ?k 1 (ks w) = (Inr (j + 1), (ks w)(?k \<mapsto> (show_int (j + 1), ttl)))"
    using h j by (auto simp: hits_def incr_by_def split: option.splits)
  have r2: "r2 = RInt (j + 1)" and ks2: "ks w2 = (ks w)(?k \<mapsto> (show_int (j + 1), ttl))"
    using redis_ok [OF incr] count r(2) by simp_all
  obtain w3 where ttl3: "run S (if j + 1 = 1 then Call (Redis (EXPIRE ?k rate_window)) (\<lambda>_. Ret ()) else Ret ()) w2 = (Some (), w3)"
    and ks3: "\<exists>ttl. ks w3 ?k = Some (show_int (j + 1), ttl)"
  proof (cases "j + 1 = 1")
    case True
    obtain r3 w3 where e: "S (Redis (EXPIRE ?k rate_window)) w2 = (r3, w3)" by (cases "S (Redis (EXPIRE ?k rate_window)) w2")
    have "ks w3 ?k = Some (show_int (j + 1), Some rate_window)"
      using redis_ok [OF e] ks2 by (simp add: set_ttl_def)
    then show thesis using that [of w3] e True by simp
  next
    case False
    then show thesis using that [of w2] ks2 by simp
  qed
  have hit3: "hits (ks w3) ?u = Some (j + 1)"
    using ks3 by (auto simp: hits_def ParseInt_show_int j)
  show thesis
  proof (cases "j + 1 > limit")
    case False
    then show thesis
      using that [of c w3] hit3 u r r2 allow incr ttl3 c(2)
      by (simp add: RateLimit_mw_def Let_def run_bindp split del: if_split)
  next
    case True
    obtain r4 w4 where m: "S (CountMetric RateLimitTotal [''per_user'']) w3 = (r4, w4)"
      by (cases "S (CountMetric RateLimitTotal [''per_user'']) w3")
    have "ks w4 = ks w3" using local_frame [OF m] by simp
    then show thesis
      using that [of "writeRateLimit W ''per_user'' (set_header ''Retry-After'' ''60'' c)" w4]
        hit3 u r r2 allow incr ttl3 True m c(1)
      by (simp add: RateLimit_mw_def Let_def run_bindp writeRateLimit_def c_JSON_status set_header_def
          split del: if_split)
  qed
qed

lemma admitted_eq:
  assumes "cx_UserIdHeader c \<noteq> []" and "cx_Written c = []" and "cx_Status c = 200"
    and "hits (ks w) (cx_UserIdHeader c) = Some j" and "0 \<le> j" and "in64 (j + int n)"
  shows "fst (admitted S W limit c n w) = min n (nat (limit - j))"
  using assms(4-6)
proof (induction n arbitrary: w j)
  case (Suc n)
  have "in64 (j + 1)" using Suc.prems(2,3) by (auto simp: in64_def)
  then obtain c' w' where r: "run S (RateLimit_mw W limit (\<lambda>c. Ret c) c) w = (Some c', w')"
    "cx_Status c' = (if j + 1 > limit then 429 else 200)" "hits (ks w') (cx_UserIdHeader c) = Some (j + 1)"
    using run_RateLimit [OF assms(1) Suc.prems(1) _ assms(2,3)] by blast
  have ih: "fst (admitted S W limit c n w') = min n (nat (limit - (j + 1)))"
    by (rule Suc.IH [OF r(3)]) (use Suc.prems in \<open>auto simp: algebra_simps\<close>)
  obtain k w2 where k: "admitted S W limit c n w' = (k, w2)" by (cases "admitted S W limit c n w'")
  have "fst (admitted S W limit c (Suc n) w) = (if j + 1 > limit then k else Suc k)"
    using r(1,2) k by simp
  also have "\<dots> = min (Suc n) (nat (limit - j))"
    using ih k Suc.prems(2) by auto
  finally show ?case .
qed simp

end

text \<open>
  C24. The per-user rate limit, on services that do not fail: of \<open>n\<close> requests of a user in one
  window, starting from a fresh counter, exactly the first \<open>limit\<close> get through.
\<close>

theorem rate_limit_exact:
  assumes "reliable_services S ks tbl logs coll dt"
    and "cx_UserIdHeader c \<noteq> []" and "cx_Written c = []" and "cx_Status c = 200"
    and "ks w (ratelimit_key (cx_UserIdHeader c)) = None" and "in64 (int n)"
  shows "fst (admitted S W limit c n w) = min n (nat limit)"
  using reliable_services.admitted_eq [OF assms(1-4), of w 0 n W limit] assms(5,6) by (simp add: hits_def)

theorem rate_limit_exact_witness: "fst (admitted mem_call ex_wire 5 ex_ctx 8 ex_world) = 5"
  using rate_limit_exact [OF memory.reliable_services_axioms, of ex_ctx ex_world 8 ex_wire 5]
  by (simp add: ex_ctx_def new_ctx_def ex_world_def key_simps in64_def)

section \<open>Idempotent replay\<close>

definition tee :: "Ctx \<Rightarrow> Ctx" where
  "tee c = c\<lparr>cx_bodyWriter := Some \<lparr>bw_buf = None, bw_max = maxCachedBody, bw_overflow = False\<rparr>\<rparr>"

definition envelope :: "int \<Rightarrow> json \<Rightarrow> json" where
  "envelope st doc = JObj [(''body'', doc), (''status'', JNum st)]"

text \<open>A request the middleware takes part in, and its key.\<close>

definition idem_request :: "wire \<Rightarrow> Ctx \<Rightarrow> Probe \<Rightarrow> bool" where
  "idem_request W c p \<longleftrightarrow> (\<exists>body. cx_Body c = Inr body \<and> length body \<le> maxBodyBytes \<and>
     Unmarshal decode_probe zero_probe (payload_of (scan W) body) = (p, None)) \<and> p_IdempotencyToken p \<noteq> []"

definition probe_key :: "Probe \<Rightarrow> string" where
  "probe_key p = idem_key (p_ActivityID p) (p_UserID p) (p_IdempotencyToken p)"

lemma Idempotency_request:
  assumes "idem_request W c p"
  shows "Idempotency_mw W nxt c = Call (Redis (SETNX (probe_key p) ''processing'' idemTTL)) (\<lambda>r.
     case as_bool r of
       Inl serr \<Rightarrow> nxt c
     | Inr won \<Rightarrow> if \<not> won then idem_hit W (probe_key p) nxt c else idem_first W (probe_key p) nxt c)"
proof -
  obtain body where "cx_Body c = Inr body" "length body \<le> maxBodyBytes"
    "Unmarshal decode_probe zero_probe (payload_of (scan W) body) = (p, None)" "p_IdempotencyToken p \<noteq> []"
    using assms by (auto simp: idem_request_def)
  then show ?thesis unfolding probe_key_def by (simp add: Idempotency_mw_def Let_def)
qed

lemma lower_cached [simp]: "map lower ''status'' = ''status''" "map lower ''body'' = ''body''"
  by code_simp+

lemma decode_envelope:
  "in64 st \<Longrightarrow> Unmarshal decode_cached \<lparr>ca_Status = 0, ca_Body = None\<rparr> (Valid (envelope st doc)) =
     (\<lparr>ca_Status = st, ca_Body = Some doc\<rparr>, None)"
proof -
  assume st: "in64 st"
  have b: "decode_cached ''body'' v x = Stored (x\<lparr>ca_Body := Some v\<rparr>)" for v x
    unfolding decode_cached_def field_is_def lower_cached by simp
  have s: "decode_cached ''status'' v x = decode_int v (\<lambda>i. x\<lparr>ca_Status := i\<rparr>) x" for v x
    unfolding decode_cached_def field_is_def lower_cached by simp
  show ?thesis by (simp add: Unmarshal_def envelope_def b s st)
qed

text \<open>The bytes of a JSON response are what the body writer keeps of them.\<close>

lemma tee_c_JSON:
  assumes "render W doc \<noteq> []" and "length (render W doc) \<le> maxCachedBody"
  shows "Option.bind (cx_bodyWriter (c_JSON W st doc (tee c))) bw_buf = Some (render W doc)"
  using assms by (simp add: c_JSON_def tee_def write_bytes_def write_status_def bw_Write_def Let_def)

context redis_services begin

lemma run_first:
  assumes req: "idem_request W c p" and fresh: "ks w (probe_key p) = None"
    and "S (Redis (SETNX (probe_key p) ''processing'' idemTTL)) w = (r, v)"
    and answer: "run S (nxt (tee c)) v = (Some (c_JSON W st doc (tee c)), v')"
    and doc: "render W doc \<noteq> []" "length (render W doc) \<le> maxCachedBody" "scan W (render W doc) = Some doc"
    and c: "cx_Written c = []" "0 < st"
  obtains w' where "run S (Idempotency_mw W nxt c) w = (Some (c_JSON W st doc (tee c)), w')"
    "ks w' = (ks v')(probe_key p \<mapsto> (render W (envelope st doc), Some idemTTL))"
    "tbl w' = tbl v'" "log w' = log v'"
proof -
  have "r = RBool True" using redis_ok [OF assms(3)] fresh by simp
  have status: "cx_Status (c_JSON W st doc (tee c)) = st"
    using c by (simp add: c_JSON_status tee_def)
  have kept: "cached_text W st (Some (render W doc)) = render W (envelope st doc)"
    using doc by (simp add: cached_text_def envelope_def)
  let ?set = "Redis (SET (probe_key p) (render W (envelope st doc)) idemTTL)"
  obtain r2 w2 where s: "S ?set v' = (r2, w2)" by (cases "S ?set v'")
  have "ks w2 = (ks v')(probe_key p \<mapsto> (render W (envelope st doc), Some idemTTL))"
    using redis_ok [OF s] by (auto simp: idemTTL_def)
  moreover have "run S (Idempotency_mw W nxt c) w = (Some (c_JSON W st doc (tee c)), w2)"
    using assms(3) \<open>r = RBool True\<close> answer s tee_c_JSON [OF doc(1,2), of st c] kept status
    by (simp add: Idempotency_request [OF req] idem_first_def run_bindp tee_def)
  ultimately show thesis using that redis_call [OF s] by simp
qed

lemma run_hit:
  assumes req: "idem_request W c p" and key: "ks w (probe_key p) = Some (x, ttl)"
  obtains v where "run S (Idempotency_mw W nxt c) w =
      (if x = ''processing''
       then (Some (c_JSON W 409 (error_doc c ''IDEMPOTENT_REPLAY'' ''still processing'')
               (set_header ''Retry-After'' ''1'' c)), v)
       else run S (idem_replay W x c) v)"
    "ks v = ks w" "tbl v = tbl w" "log v = log w"
proof -
  let ?nx = "Redis (SETNX (probe_key p) ''processing'' idemTTL)"
  obtain r w1 where s: "S ?nx w = (r, w1)" by (cases "S ?nx w")
  have r: "r = RBool False" "ks w1 = ks w" using redis_ok [OF s] key by simp_all
  obtain r2 w2 where g: "S (Redis (GET (probe_key p))) w1 = (r2, w2)" by (cases "S (Redis (GET (probe_key p))) w1")
  have r2: "r2 = RStr x" "ks w2 = ks w" using redis_ok [OF g] key r by simp_all
  show thesis
    using redis_call [OF s] redis_call [OF g] r r2 s g
    by (intro that [of w2]) (simp_all add: Idempotency_request [OF req] idem_hit_def)
qed

end

text \<open>
  C21. Idempotent replay, while Redis does not fail.  The first request of a token is handled
  and its JSON answer is kept; any later request with the token, as long as the key is kept,
  is answered with the same status and the same bytes, without running its handler: tables,
  keys and logs stay as they are.
\<close>

theorem idempotent_replay:
  assumes "redis_services S ks tbl logs coll dt"
    and "idem_request W c1 p" and "idem_request W c2 p"
    and "ks w (probe_key p) = None"
    and "S (Redis (SETNX (probe_key p) ''processing'' idemTTL)) w = (r, v)"
    and "run S (nxt (tee c1)) v = (Some (c_JSON W st doc (tee c1)), v')"
    and "cx_Written c1 = []" and "cx_Written c2 = []" and "0 < st" and "in64 st"
    and "render W doc \<noteq> []" and "length (render W doc) \<le> maxCachedBody"
    and "scan W (render W doc) = Some doc"
    and "scan W (render W (envelope st doc)) = Some (envelope st doc)"
    and "render W (envelope st doc) \<noteq> ''processing''"
  shows "\<exists>c1' w1. run S (Idempotency_mw W nxt c1) w = (Some c1', w1) \<and>
    cx_Status c1' = st \<and> cx_Written c1' = render W doc \<and>
    (\<forall>w2 nxt'. ks w2 (probe_key p) = ks w1 (probe_key p) \<longrightarrow>
      (\<exists>c2' w3. run S (Idempotency_mw W nxt' c2) w2 = (Some c2', w3) \<and>
         cx_Status c2' = st \<and> cx_Written c2' = render W doc \<and>
         ks w3 = ks w2 \<and> tbl w3 = tbl w2 \<and> logs w3 = logs w2))"
proof -
  obtain w1 where first: "run S (Idempotency_mw W nxt c1) w = (Some (c_JSON W st doc (tee c1)), w1)"
    "ks w1 = (ks v')(probe_key p \<mapsto> (render W (envelope st doc), Some idemTTL))"
    by (rule redis_services.run_first [where nxt = nxt, OF assms(1,2,4,5,6,11,12,13,7,9)])
  have answer: "cx_Status (c_JSON W st doc (tee c1)) = st" "cx_Written (c_JSON W st doc (tee c1)) = render W doc"
    using assms(7,9) by (simp_all add: c_JSON_status tee_def)
  have "\<exists>c2' w3. run S (Idempotency_mw W nxt' c2) w2 = (Some c2', w3) \<and>
         cx_Status c2' = st \<and> cx_Written c2' = render W doc \<and>
         ks w3 = ks w2 \<and> tbl w3 = tbl w2 \<and> logs w3 = logs w2"
    if same: "ks w2 (probe_key p) = ks w1 (probe_key p)" for w2 nxt'
  proof -
    have key: "ks w2 (probe_key p) = Some (render W (envelope st doc), Some idemTTL)"
      using same first(2) by simp
    obtain v2 where hit: "run S (Idempotency_mw W nxt' c2) w2 = run S (idem_replay W (render W (envelope st doc)) c2) v2"
      "ks v2 = ks w2" "tbl v2 = tbl w2" "logs v2 = logs w2"
      by (rule redis_services.run_hit [where nxt = nxt', OF assms(1,3) key]) (use assms(15) in auto)
    obtain r3 w3 where m: "S (CountMetric IdempotentReplayTotal []) v2 = (r3, w3)"
      by (cases "S (CountMetric IdempotentReplayTotal []) v2")
    have frame: "ks w3 = ks v2 \<and> tbl w3 = tbl v2 \<and> logs w3 = logs v2"
      using services.local_frame [OF redis_services.axioms(1) [OF assms(1)] m] by simp
    have "run S (idem_replay W (render W (envelope st doc)) c2) v2 =
        (Some (write_bytes (render W doc) (write_status st c2)), w3)"
      using m by (simp add: idem_replay_def payload_of_def assms(14) decode_envelope [OF assms(10)])
    then show ?thesis
      using hit frame assms(8,9) by (auto simp: write_bytes_def write_status_def)
  qed
  then show ?thesis using first(1) answer by blast
qed

definition replay_wire :: wire where
  "replay_wire =
     \<lparr>scan = (\<lambda>s. Some (if s = ''D'' then JNull else if s = ''E'' then envelope 202 JNull else ex_body)),
      first_value = (\<lambda>s. Some ex_body),
      render = (\<lambda>d. if d = JNull then ''D'' else ''E'')\<rparr>"

lemma replay_request:
  "idem_request replay_wire ex_ctx \<lparr>p_ActivityID = 7, p_UserID = 9, p_IdempotencyToken = ''t1''\<rparr>"
proof -
  have "Unmarshal decode_probe zero_probe (payload_of (scan replay_wire) ''{}'') =
      (\<lparr>p_ActivityID = 7, p_UserID = 9, p_IdempotencyToken = ''t1''\<rparr>, None)" by code_simp
  then show ?thesis by (simp add: idem_request_def ex_ctx_def new_ctx_def maxBodyBytes_def)
qed

theorem idempotent_replay_witness:
  "\<exists>c1' w1. run mem_call (Idempotency_mw replay_wire (\<lambda>c. Ret (c_JSON replay_wire 202 JNull c)) ex_ctx) ex_world =
      (Some c1', w1) \<and>
     (\<exists>c2' w3. run mem_call (Idempotency_mw replay_wire (\<lambda>c. Panic) ex_ctx) w1 = (Some c2', w3) \<and>
        cx_Status c2' = 202 \<and> cx_Written c2' = ''D'')"
proof -
  let ?p = "\<lparr>p_ActivityID = 7, p_UserID = 9, p_IdempotencyToken = ''t1''\<rparr>"
  let ?nxt = "\<lambda>c. Ret (c_JSON replay_wire 202 JNull c)"
  obtain r v where s: "mem_call (Redis (SETNX (probe_key ?p) ''processing'' idemTTL)) ex_world = (r, v)"
    by (cases "mem_call (Redis (SETNX (probe_key ?p) ''processing'' idemTTL)) ex_world")
  have "mem_ks ex_world (probe_key ?p) = None"
    by (simp add: ex_world_def probe_key_def key_simps)
  moreover have "cx_Written ex_ctx = []" by (simp add: ex_ctx_def new_ctx_def)
  ultimately show ?thesis
    using idempotent_replay [where nxt = ?nxt and v' = v, OF memory.redis_services_axioms replay_request replay_request _ s,
        of 202 JNull]
    by (fastforce simp: replay_wire_def envelope_def in64_def maxCachedBody_def)
qed

text \<open>
  C23. One handler at a time, while Redis does not fail: while a token is being processed,
  another request with it is told to retry, and its handler does not run.
\<close>

theorem in_flight_conflict:
  assumes "redis_services S ks tbl logs coll dt"
    and "idem_request W c p" and "ks w (probe_key p) = Some (''processing'', ttl)" and "cx_Written c = []"
  shows "\<exists>c' w'. run S (Idempotency_mw W nxt c) w = (Some c', w') \<and> cx_Status c' = 409 \<and>
    cx_Header c' ''Retry-After'' = Some ''1'' \<and> ks w' = ks w \<and> tbl w' = tbl w \<and> logs w' = logs w"
proof (rule redis_services.run_hit [where nxt = nxt, OF assms(1-3)])
  fix v
  assume "run S (Idempotency_mw W nxt c) w =
      (if ''processing'' = ''processing''
       then (Some (c_JSON W 409 (error_doc c ''IDEMPOTENT_REPLAY'' ''still processing'')
               (set_header ''Retry-After'' ''1'' c)), v)
       else run S (idem_replay W ''processing'' c) v)"
    and "ks v = ks w" "tbl v = tbl w" "logs v = logs w"
  then show ?thesis
    using assms(4) by (auto simp: c_JSON_def write_bytes_def write_status_def set_header_def)
qed

theorem in_flight_conflict_witness:
  "\<exists>c' w'. run mem_call (Idempotency_mw replay_wire (\<lambda>c. Panic) ex_ctx)
      (ex_world\<lparr>mem_ks := [idem_key 7 9 ''t1'' \<mapsto> (''processing'', Some idemTTL)]\<rparr>) = (Some c', w') \<and>
     cx_Status c' = 409"
  using in_flight_conflict [where nxt = "\<lambda>c. Panic", OF memory.redis_services_axioms replay_request,
      of "ex_world\<lparr>mem_ks := [idem_key 7 9 ''t1'' \<mapsto> (''processing'', Some idemTTL)]\<rparr>" "Some idemTTL"]
  by (auto simp: probe_key_def ex_ctx_def new_ctx_def)

text \<open>
  C22. Trailing data gets a request past the middleware.  The middleware reads the body as one
  JSON text, the handler only its first value: on a body with anything after that value the
  middleware hands over without taking the key, and the handler serves the request.
\<close>

theorem trailing_data_bypasses:
  assumes "cx_Body c = Inr body" and "length body \<le> maxBodyBytes"
    and "scan W body = None" and "first_value W body = Some j"
    and "Unmarshal decode_request zero_request (Valid j) = (req, None)" and "missing_fields req = []"
  shows "Idempotency_mw W (handler_Seckill W svc) c = bindp (svc req) (\<lambda>res. Ret (seckill_response W res c))"
proof -
  have "bind_request W c = Inr req"
    using assms by (simp add: bind_request_def payload_of_def)
  then show ?thesis
    using assms(1-3) by (simp add: Idempotency_mw_def payload_of_def Unmarshal_def handler_Seckill_def)
qed

theorem trailing_data_bypasses_witness:
  "Idempotency_mw (ex_wire\<lparr>scan := \<lambda>s. None\<rparr>) (handler_Seckill (ex_wire\<lparr>scan := \<lambda>s. None\<rparr>) (api_seckill ex_api)) ex_ctx =
     bindp (api_seckill ex_api \<lparr>rq_ActivityID = 7, rq_UserID = 9, rq_IdempotencyToken = ''t1''\<rparr>)
       (\<lambda>res. Ret (seckill_response (ex_wire\<lparr>scan := \<lambda>s. None\<rparr>) res ex_ctx))"
proof -
  have "Unmarshal decode_request zero_request (Valid ex_body) =
      (\<lparr>rq_ActivityID = 7, rq_UserID = 9, rq_IdempotencyToken = ''t1''\<rparr>, None)"
    by code_simp
  from trailing_data_bypasses [OF _ _ _ _ this, of ex_ctx "''{}''" "ex_wire\<lparr>scan := \<lambda>s. None\<rparr>" "api_seckill ex_api"]
  show ?thesis by (simp add: ex_ctx_def new_ctx_def maxBodyBytes_def ex_wire_def missing_fields_def)
qed

section \<open>Resolving a queue token\<close>

text \<open>
  From message to answer: once the consumer has handled a message, asking for its queue token
  answers success with the message's order id, as long as the key is left alone.
\<close>

lemma resolve_token:
  assumes "reliable_services S ks tbl logs coll dt"
    and "ks w1 (queue_key tok) = Some (''success:'' @ show_int i, ttl)" and "tok \<noteq> []"
  shows "\<exists>w2. run S (OrderByToken W QueueService_Get (c\<lparr>cx_Param := tok\<rparr>)) w1 =
    (Some (c_JSON W 200 (JObj [(''order_id'', JStr (show_int i)),
        (''queue_token'', JStr tok), (''state'', JStr ''success'')])
      (c\<lparr>cx_Param := tok\<rparr>)), w2)"
proof -
  obtain r w2 where g: "S (Redis (GET (queue_key tok))) w1 = (r, w2)"
    by (cases "S (Redis (GET (queue_key tok))) w1")
  have r: "r = RStr (''success:'' @ show_int i)"
    using redis_services.redis_ok [OF reliable_parts(1) [OF assms(1)] g] assms(2) by simp
  have doc: "order_state_doc tok (''success:'' @ show_int i) =
      JObj [(''order_id'', JStr (show_int i)), (''queue_token'', JStr tok), (''state'', JStr ''success'')]" for tok
    unfolding order_state_doc_def HasPrefix_append TrimPrefix_append by simp
  show ?thesis
    using assms(3) g r by (simp add: OrderByToken_def QueueService_Get_def Let_def doc del: append.simps append_Cons)
qed

section \<open>Watched activities\<close>

fun join_commas :: "string list \<Rightarrow> string" where
  "join_commas [] = []"
| "join_commas [x] = x"
| "join_commas (x # xs) = x @ '','' @ join_commas xs"

lemma Split_plain: "CHR '','' \<notin> set s \<Longrightarrow> Split s acc = [rev acc @ s]"
  by (induction s arbitrary: acc) auto

lemma Split_comma: "CHR '','' \<notin> set s \<Longrightarrow> Split (s @ '','' @ t) acc = (rev acc @ s) # Split t []"
  by (induction s arbitrary: acc) auto

lemma Split_join:
  "xs \<noteq> [] \<Longrightarrow> \<forall>x\<in>set xs. CHR '','' \<notin> set x \<Longrightarrow> Split (join_commas xs) [] = xs"
  by (induction xs rule: join_commas.induct) (simp_all add: Split_plain Split_comma del: append.simps append_Cons)

lemma show_int_chars: "c \<in> set (show_int i) \<Longrightarrow> c = CHR ''-'' \<or> (\<exists>d<10. c = digit d)"
  by (auto simp: show_int_def dest: show_nat_chars split: if_splits)

lemma digit_plain: "d < 10 \<Longrightarrow> \<not> is_space (digit d) \<and> digit d \<noteq> CHR '',''"
  by (auto simp: is_space_def digit_def dest!: arg_cong [where f = "of_char :: char \<Rightarrow> nat"])

lemma show_int_plain: "c \<in> set (show_int i) \<Longrightarrow> \<not> is_space c \<and> c \<noteq> CHR '',''"
  using show_int_chars [of c i] digit_plain by (auto simp: is_space_def)

lemma dropWhile_plain: "\<forall>c\<in>set s. \<not> P c \<Longrightarrow> dropWhile P s = s"
  by (cases s) auto

lemma TrimSpace_plain: "\<forall>c\<in>set s. \<not> is_space c \<Longrightarrow> TrimSpace s = s"
  by (simp add: TrimSpace_def dropWhile_plain)

lemma map_filter_total: "\<forall>x\<in>set xs. f (g x) = Some x \<Longrightarrow> List.map_filter f (map g xs) = xs"
  by (induction xs) (auto simp: map_filter_def)

text \<open>
  Every list of 64-bit activity ids, written with commas between, is read back by
  \<open>parseInt64List\<close>.
\<close>

theorem parseInt64List_roundtrip:
  assumes "\<forall>i\<in>set acts. in64 i"
  shows "parseInt64List (join_commas (map show_int acts)) = acts"
proof (cases "acts = []")
  case True
  then show ?thesis by (simp add: parseInt64List_def parse_token_def TrimSpace_def map_filter_def)
next
  case False
  have "Split (join_commas (map show_int acts)) [] = map show_int acts"
    by (rule Split_join) (use False show_int_plain in auto)
  moreover have "parse_token (show_int i) = Some i" if "in64 i" for i
  proof -
    have "TrimSpace (show_int i) = show_int i" by (rule TrimSpace_plain) (use show_int_plain in auto)
    then show ?thesis using that by (simp add: parse_token_def Let_def ParseInt_show_int)
  qed
  ultimately show ?thesis
    using assms by (simp add: parseInt64List_def map_filter_total)
qed

theorem parseInt64List_roundtrip_witness:
  "parseInt64List (join_commas (map show_int [1001, - 2, 0])) = [1001, - 2, 0]"
  using parseInt64List_roundtrip [of "[1001, - 2, 0]"] by (simp add: in64_def)

end
