(* ===== verification/Statements.thy ===== *)
theory Statements
  imports Order_Repo "HOL-Library.Monad_Syntax"
begin

text \<open>
  The SQL of the repositories as it is written: the text of each statement with its arguments,
  the tables of \<open>migrations/\<close>, a reader and a meaning for the fragment of SQL these texts use,
  and the structs results are scanned into.  The law the services are assumed to obey
  (\<open>Services.sql_sem\<close>) is what the texts mean.
\<close>

section \<open>The texts\<close>

abbreviation newline :: char where "newline \<equiv> CHR 0x0A"

definition activityRepo_Create_q :: string where
  "activityRepo_Create_q = [newline] @
     ''INSERT INTO activities (id, product_id, total_stock, start_at, end_at, per_user_limit, status)'' @ [newline] @
     ''VALUES (?, ?, ?, ?, ?, ?, ?)''"

definition activityRepo_GetByID_q :: string where
  "activityRepo_GetByID_q = [newline] @
     ''SELECT id, product_id, total_stock, start_at, end_at, per_user_limit, status'' @ [newline] @
     ''  FROM activities WHERE id = ?''"

definition stockRepo_upd :: string where
  "stockRepo_upd = [newline] @ ''UPDATE activities'' @ [newline] @
     ''   SET total_stock = total_stock - ?'' @ [newline] @
     '' WHERE id = ? AND total_stock >= ?''"

definition stockRepo_remaining_q :: string where
  "stockRepo_remaining_q = ''SELECT total_stock FROM activities WHERE id = ?''"

definition orderRepo_Create_q :: string where
  "orderRepo_Create_q = [newline] @
     ''INSERT INTO orders_0 (id, user_id, activity_id, product_id, status, idempotency_token, created_at)'' @ [newline] @
     ''VALUES (?, ?, ?, ?, ?, ?, ?)''"

definition shardedOrderRepo_Create_q :: string where
  "shardedOrderRepo_Create_q = [newline] @
     ''INSERT INTO orders_0 (id, user_id, activity_id, product_id, status, idempotency_token, created_at)'' @ [newline] @
     ''VALUES (?, ?, ?, ?, ?, ?, ?)''"

definition getOrderFromDB_q :: string where
  "getOrderFromDB_q = [newline] @
     ''SELECT id, user_id, activity_id, product_id, status, idempotency_token, created_at'' @ [newline] @
     ''  FROM orders_0 WHERE user_id = ? AND id = ?''"

definition countOrders_q :: string where
  "countOrders_q = ''SELECT COUNT(*) FROM orders_0 WHERE activity_id = ?''"

lemma one_insert_text: "shardedOrderRepo_Create_q = orderRepo_Create_q"
  by (simp add: shardedOrderRepo_Create_q_def orderRepo_Create_q_def)

section \<open>Values, tables and keys\<close>

datatype sqlval = SInt int | SText string | STime int

datatype coltype = BIGINT_UNSIGNED | INTEGER | TINYINT | DATETIME | VARCHAR nat

text \<open>A table: its columns, and its primary and unique keys.\<close>

record table_def =
  td_columns :: "(string \<times> coltype) list"
  td_keys :: "string list list"

definition activities_table :: table_def where
  "activities_table = \<lparr>td_columns =
     [(''id'', BIGINT_UNSIGNED), (''product_id'', BIGINT_UNSIGNED), (''total_stock'', INTEGER),
      (''start_at'', DATETIME), (''end_at'', DATETIME), (''per_user_limit'', INTEGER), (''status'', TINYINT),
      (''created_at'', DATETIME), (''updated_at'', DATETIME)],
     td_keys = [[''id'']]\<rparr>"

definition orders_0_table :: table_def where
  "orders_0_table = \<lparr>td_columns =
     [(''id'', BIGINT_UNSIGNED), (''user_id'', BIGINT_UNSIGNED), (''activity_id'', BIGINT_UNSIGNED),
      (''product_id'', BIGINT_UNSIGNED), (''status'', TINYINT), (''idempotency_token'', VARCHAR 64),
      (''created_at'', DATETIME)],
     td_keys = [[''id''], [''activity_id'', ''user_id'', ''idempotency_token'']]\<rparr>"

definition schema :: "string \<rightharpoonup> table_def" where
  "schema = [''activities'' \<mapsto> activities_table, ''orders_0'' \<mapsto> orders_0_table]"

text \<open>A row holds the columns it was given; a database the rows of each table, oldest first.\<close>

type_synonym row = "string \<rightharpoonup> sqlval"
type_synonym database = "string \<Rightarrow> row list"

section \<open>Reading a statement\<close>

datatype cond = Equals string | AtLeast string

datatype query =
    Insert string "string list" nat
  | Select "string list" string "cond list"
  | SelectCount string "cond list"
  | Subtract string string "cond list"

definition word_break :: "char \<Rightarrow> bool" where
  "word_break c \<longleftrightarrow> c = CHR '' '' \<or> c = newline"

definition symbol :: "char \<Rightarrow> bool" where
  "symbol c \<longleftrightarrow> c = CHR ''('' \<or> c = CHR '')'' \<or> c = CHR '','' \<or> c = CHR ''?'' \<or> c = CHR ''='' \<or>
     c = CHR ''>'' \<or> c = CHR ''-'' \<or> c = CHR ''*''"

fun lex_from :: "string \<Rightarrow> string \<Rightarrow> string list" where
  "lex_from w [] = (if w = [] then [] else [w])"
| "lex_from w (c # cs) =
     (if word_break c then (if w = [] then [] else [w]) @ lex_from [] cs
      else if symbol c then (if w = [] then [] else [w]) @ [c] # lex_from [] cs
      else lex_from (w @ [c]) cs)"

fun expect :: "string list \<Rightarrow> string list \<Rightarrow> string list option" where
  "expect [] ts = Some ts"
| "expect (w # ws) (t # ts) = (if w = t then expect ws ts else None)"
| "expect (w # ws) [] = None"

text \<open>Words separated by commas.\<close>

fun words :: "string list \<Rightarrow> string list \<times> string list" where
  "words (w # t # ts) =
     (if t = '','' then (case words ts of (ws, rest) \<Rightarrow> (w # ws, rest)) else ([w], t # ts))"
| "words ts = (ts, [])"

lemma expect_length: "expect ws ts = Some ts' \<Longrightarrow> length ts = length ws + length ts'"
  by (induction ws ts rule: expect.induct) (auto split: if_splits)

function conds :: "string list \<Rightarrow> cond list option" where
  "conds [] = Some []"
| "conds (w # ts) =
     (if w = ''AND'' then conds ts
      else case expect [''='', ''?''] ts of
        Some ts' \<Rightarrow> map_option ((#) (Equals w)) (conds ts')
      | None \<Rightarrow> (case expect [''>'', ''='', ''?''] ts of
          Some ts' \<Rightarrow> map_option ((#) (AtLeast w)) (conds ts')
        | None \<Rightarrow> None))"
  by pat_completeness auto
termination
  by (relation "measure length") (auto dest!: expect_length)

fun word :: "string list \<Rightarrow> (string \<times> string list) option" where
  "word [] = None"
| "word (w # ts) = Some (w, ts)"

definition parse_insert :: "string list \<Rightarrow> query option" where
  "parse_insert ts = do {
     ts \<leftarrow> expect [''INSERT'', ''INTO''] ts;
     (t, ts) \<leftarrow> word ts;
     ts \<leftarrow> expect [''(''] ts;
     (case words ts of (cols, ts) \<Rightarrow> do {
        ts \<leftarrow> expect ['')'', ''VALUES'', ''(''] ts;
        (case words ts of (marks, ts) \<Rightarrow>
           if list_all (\<lambda>m. m = ''?'') marks \<and> ts = ['')''] then Some (Insert t cols (length marks)) else None) }) }"

definition parse_where :: "(string \<Rightarrow> cond list \<Rightarrow> query) \<Rightarrow> string list \<Rightarrow> query option" where
  "parse_where q ts = do {
     ts \<leftarrow> expect [''FROM''] ts;
     (t, ts) \<leftarrow> word ts;
     ts \<leftarrow> expect [''WHERE''] ts;
     cs \<leftarrow> conds ts;
     Some (q t cs) }"

definition parse_select :: "string list \<Rightarrow> query option" where
  "parse_select ts = do {
     ts \<leftarrow> expect [''SELECT''] ts;
     (case expect [''COUNT'', ''('', ''*'', '')''] ts of
        Some ts \<Rightarrow> parse_where SelectCount ts
      | None \<Rightarrow> (case words ts of (cols, ts) \<Rightarrow> parse_where (Select cols) ts)) }"

definition parse_update :: "string list \<Rightarrow> query option" where
  "parse_update ts = do {
     ts \<leftarrow> expect [''UPDATE''] ts;
     (t, ts) \<leftarrow> word ts;
     ts \<leftarrow> expect [''SET''] ts;
     (c, ts) \<leftarrow> word ts;
     ts \<leftarrow> expect [''='', c, ''-'', ''?'', ''WHERE''] ts;
     cs \<leftarrow> conds ts;
     Some (Subtract t c cs) }"

definition parse_sql :: "string \<Rightarrow> query option" where
  "parse_sql s = (let ts = lex_from [] s in
     case parse_insert ts of
       Some q \<Rightarrow> Some q
     | None \<Rightarrow> (case parse_select ts of Some q \<Rightarrow> Some q | None \<Rightarrow> parse_update ts))"

abbreviation activity_cols :: "string list" where
  "activity_cols \<equiv> [''id'', ''product_id'', ''total_stock'', ''start_at'', ''end_at'', ''per_user_limit'', ''status'']"

abbreviation order_cols :: "string list" where
  "order_cols \<equiv> [''id'', ''user_id'', ''activity_id'', ''product_id'', ''status'', ''idempotency_token'', ''created_at'']"

lemma parsed:
  "parse_sql activityRepo_Create_q = Some (Insert ''activities'' activity_cols 7)"
  "parse_sql activityRepo_GetByID_q = Some (Select activity_cols ''activities'' [Equals ''id''])"
  "parse_sql stockRepo_upd = Some (Subtract ''activities'' ''total_stock'' [Equals ''id'', AtLeast ''total_stock''])"
  "parse_sql stockRepo_remaining_q = Some (Select [''total_stock''] ''activities'' [Equals ''id''])"
  "parse_sql orderRepo_Create_q = Some (Insert ''orders_0'' order_cols 7)"
  "parse_sql getOrderFromDB_q = Some (Select order_cols ''orders_0'' [Equals ''user_id'', Equals ''id''])"
  "parse_sql countOrders_q = Some (SelectCount ''orders_0'' [Equals ''activity_id''])"
  by code_simp+


section \<open>What a statement means\<close>

datatype sqlres = DuplicateKey | OutOfRange | Affected int | Rows "(string \<times> sqlval) list list" | Rejected

text \<open>
  The values a column takes (strict mode refuses the others), what it keeps of a value, and when
  two values are equal under a key.
\<close>

fun fits :: "coltype \<Rightarrow> sqlval \<Rightarrow> bool" where
  "fits BIGINT_UNSIGNED (SInt i) = (0 \<le> i \<and> i < 2 ^ 64)"
| "fits INTEGER (SInt i) = (- (2 ^ 31) \<le> i \<and> i < 2 ^ 31)"
| "fits TINYINT (SInt i) = (- 128 \<le> i \<and> i < 128)"
| "fits DATETIME (STime t) = True"
| "fits (VARCHAR n) (SText s) = (length s \<le> n)"
| "fits ty v = False"

fun stored :: "(int \<Rightarrow> int) \<Rightarrow> coltype \<Rightarrow> sqlval \<Rightarrow> sqlval" where
  "stored dt DATETIME (STime t) = STime (dt t)"
| "stored dt ty v = v"

fun collate :: "(string \<Rightarrow> string) \<Rightarrow> sqlval \<Rightarrow> sqlval" where
  "collate coll (SText s) = SText (coll s)"
| "collate coll v = v"

definition same_key :: "(string \<Rightarrow> string) \<Rightarrow> string list \<Rightarrow> row \<Rightarrow> row \<Rightarrow> bool" where
  "same_key coll cols r r' \<longleftrightarrow>
     list_all (\<lambda>c. map_option (collate coll) (r c) = map_option (collate coll) (r' c)) cols"

definition clash :: "(string \<Rightarrow> string) \<Rightarrow> table_def \<Rightarrow> row \<Rightarrow> row list \<Rightarrow> bool" where
  "clash coll td new rows \<longleftrightarrow> list_ex (\<lambda>r. list_ex (\<lambda>cols. same_key coll cols r new) (td_keys td)) rows"

definition new_row :: "(int \<Rightarrow> int) \<Rightarrow> table_def \<Rightarrow> string list \<Rightarrow> sqlval list \<Rightarrow> row" where
  "new_row dt td cols args =
     map_of (map (\<lambda>(c, v). (c, case map_of (td_columns td) c of None \<Rightarrow> v | Some ty \<Rightarrow> stored dt ty v)) (zip cols args))"

definition column_fits :: "table_def \<Rightarrow> string \<Rightarrow> sqlval \<Rightarrow> bool" where
  "column_fits td c v = (case map_of (td_columns td) c of None \<Rightarrow> False | Some ty \<Rightarrow> fits ty v)"

definition row_fits :: "table_def \<Rightarrow> string list \<Rightarrow> sqlval list \<Rightarrow> bool" where
  "row_fits td cols args = list_all (\<lambda>(c, v). column_fits td c v) (zip cols args)"

fun sat :: "(string \<Rightarrow> string) \<Rightarrow> cond list \<Rightarrow> sqlval list \<Rightarrow> row \<Rightarrow> bool" where
  "sat coll [] [] r = True"
| "sat coll (Equals c # cs) (v # vs) r =
     (map_option (collate coll) (r c) = Some (collate coll v) \<and> sat coll cs vs r)"
| "sat coll (AtLeast c # cs) (v # vs) r =
     ((case (r c, v) of (Some (SInt x), SInt m) \<Rightarrow> m \<le> x | _ \<Rightarrow> False) \<and> sat coll cs vs r)"
| "sat coll _ _ r = False"

definition project :: "string list \<Rightarrow> row \<Rightarrow> (string \<times> sqlval) list" where
  "project cols r = List.map_filter (\<lambda>c. map_option (Pair c) (r c)) cols"

text \<open>\<open>SET c = c - ?\<close>; a row whose value stays the same does not count as affected.\<close>

definition subtract :: "string \<Rightarrow> sqlval \<Rightarrow> row \<Rightarrow> row" where
  "subtract c v r = (case (r c, v) of (Some (SInt x), SInt n) \<Rightarrow> r(c \<mapsto> SInt (x - n)) | _ \<Rightarrow> r)"

fun exec_query ::
  "(string \<Rightarrow> string) \<Rightarrow> (int \<Rightarrow> int) \<Rightarrow> query \<Rightarrow> sqlval list \<Rightarrow> database \<Rightarrow> sqlres \<times> database" where
  "exec_query coll dt (Insert t cols n) args db =
     (case schema t of
        None \<Rightarrow> (Rejected, db)
      | Some td \<Rightarrow>
          if n \<noteq> length cols \<or> length args \<noteq> n \<or> \<not> list_all (\<lambda>c. map_of (td_columns td) c \<noteq> None) cols
          then (Rejected, db)
          else if \<not> row_fits td cols args then (OutOfRange, db)
          else let new = new_row dt td cols args
               in if clash coll td new (db t) then (DuplicateKey, db)
                  else (Affected 1, db(t := db t @ [new])))"
| "exec_query coll dt (Select cols t cs) args db =
     (if schema t = None \<or> length args \<noteq> length cs then (Rejected, db)
      else (Rows (map (project cols) (filter (sat coll cs args) (db t))), db))"
| "exec_query coll dt (SelectCount t cs) args db =
     (if schema t = None \<or> length args \<noteq> length cs then (Rejected, db)
      else (Rows [[(''COUNT(*)'', SInt (int (length (filter (sat coll cs args) (db t)))))]], db))"
| "exec_query coll dt (Subtract t c cs) args db =
     (case schema t of
        None \<Rightarrow> (Rejected, db)
      | Some td \<Rightarrow>
          if length args \<noteq> Suc (length cs) then (Rejected, db)
          else let hit = (\<lambda>r. sat coll cs (tl args) r); new = subtract c (hd args)
               in if list_ex (\<lambda>r. hit r \<and> \<not> column_fits td c (the (new r c))) (db t) then (OutOfRange, db)
                  else (Affected (int (length (filter (\<lambda>r. hit r \<and> new r c \<noteq> r c) (db t)))),
                        db(t := map (\<lambda>r. if hit r then new r else r) (db t))))"

definition exec_text ::
  "(string \<Rightarrow> string) \<Rightarrow> (int \<Rightarrow> int) \<Rightarrow> string \<Rightarrow> sqlval list \<Rightarrow> database \<Rightarrow> sqlres \<times> database" where
  "exec_text coll dt text args db =
     (case parse_sql text of None \<Rightarrow> (Rejected, db) | Some q \<Rightarrow> exec_query coll dt q args db)"

section \<open>What the repositories send and scan\<close>

fun text_of :: "stmt \<Rightarrow> string" where
  "text_of (InsertActivity a) = activityRepo_Create_q"
| "text_of (SelectActivity i) = activityRepo_GetByID_q"
| "text_of (UpdateDeduct n i m) = stockRepo_upd"
| "text_of (SelectTotalStock i) = stockRepo_remaining_q"
| "text_of (InsertOrder x) = orderRepo_Create_q"
| "text_of (SelectOrder u i) = getOrderFromDB_q"
| "text_of (CountOrders i) = countOrders_q"

definition activity_args :: "Activity \<Rightarrow> sqlval list" where
  "activity_args a =
     [SInt (a_ID a), SInt (a_ProductID a), SInt (a_TotalStock a),
      STime (a_StartAt a), STime (a_EndAt a), SInt (a_PerUserLimit a), SInt (a_Status a)]"

definition order_args :: "Order \<Rightarrow> sqlval list" where
  "order_args x =
     [SInt (o_ID x), SInt (o_UserID x), SInt (o_ActivityID x), SInt (o_ProductID x),
      SInt (o_Status x), SText (o_IdempotencyToken x), STime (o_CreatedAt x)]"

fun args_of :: "stmt \<Rightarrow> sqlval list" where
  "args_of (InsertActivity a) = activity_args a"
| "args_of (SelectActivity i) = [SInt i]"
| "args_of (UpdateDeduct n i m) = [SInt n, SInt i, SInt m]"
| "args_of (SelectTotalStock i) = [SInt i]"
| "args_of (InsertOrder x) = order_args x"
| "args_of (SelectOrder u i) = [SInt u, SInt i]"
| "args_of (CountOrders i) = [SInt i]"

text \<open>Scanning a result row by the \<open>db\<close> tags of \<open>activityRow\<close> and \<open>orderRow\<close>.\<close>

definition int_col :: "(string \<times> sqlval) list \<Rightarrow> string \<Rightarrow> int option" where
  "int_col r c = (case map_of r c of Some (SInt i) \<Rightarrow> Some i | _ \<Rightarrow> None)"

definition text_col :: "(string \<times> sqlval) list \<Rightarrow> string \<Rightarrow> string option" where
  "text_col r c = (case map_of r c of Some (SText s) \<Rightarrow> Some s | _ \<Rightarrow> None)"

definition time_col :: "(string \<times> sqlval) list \<Rightarrow> string \<Rightarrow> int option" where
  "time_col r c = (case map_of r c of Some (STime t) \<Rightarrow> Some t | _ \<Rightarrow> None)"

definition activityRow :: "(string \<times> sqlval) list \<Rightarrow> Activity option" where
  "activityRow r = do {
     i \<leftarrow> int_col r ''id''; p \<leftarrow> int_col r ''product_id''; n \<leftarrow> int_col r ''total_stock'';
     s \<leftarrow> time_col r ''start_at''; e \<leftarrow> time_col r ''end_at''; l \<leftarrow> int_col r ''per_user_limit'';
     st \<leftarrow> int_col r ''status'';
     Some \<lparr>a_ID = i, a_ProductID = p, a_TotalStock = n, a_StartAt = s, a_EndAt = e, a_PerUserLimit = l,
           a_Status = st\<rparr> }"

definition orderRow :: "(string \<times> sqlval) list \<Rightarrow> Order option" where
  "orderRow r = do {
     i \<leftarrow> int_col r ''id''; u \<leftarrow> int_col r ''user_id''; a \<leftarrow> int_col r ''activity_id'';
     p \<leftarrow> int_col r ''product_id''; st \<leftarrow> int_col r ''status''; t \<leftarrow> text_col r ''idempotency_token'';
     c \<leftarrow> time_col r ''created_at'';
     Some \<lparr>o_ID = i, o_UserID = u, o_ActivityID = a, o_ProductID = p, o_Status = st,
           o_IdempotencyToken = t, o_CreatedAt = c\<rparr> }"

text \<open>The reply a repository sees: the first row, or \<open>sql.ErrNoRows\<close>; \<open>None\<close> where it would not scan.\<close>

definition scanned :: "((string \<times> sqlval) list \<Rightarrow> reply option) \<Rightarrow> sqlres \<Rightarrow> reply option" where
  "scanned f res = (case res of Rows [] \<Rightarrow> Some (RErr ErrNoRows) | Rows (r # _) \<Rightarrow> f r | _ \<Rightarrow> None)"

fun reply_of :: "stmt \<Rightarrow> sqlres \<Rightarrow> reply option" where
  "reply_of (SelectActivity i) res = scanned (\<lambda>r. map_option RActivity (activityRow r)) res"
| "reply_of (SelectTotalStock i) res = scanned (\<lambda>r. map_option RInt (int_col r ''total_stock'')) res"
| "reply_of (SelectOrder u i) res = scanned (\<lambda>r. map_option ROrder (orderRow r)) res"
| "reply_of (CountOrders i) res = scanned (\<lambda>r. map_option RInt (int_col r ''COUNT(*)'')) res"
| "reply_of (UpdateDeduct n i m) res = (case res of Affected k \<Rightarrow> Some (RInt k) | _ \<Rightarrow> None)"
| "reply_of s res = (case res of Affected k \<Rightarrow> Some ROk | _ \<Rightarrow> None)"

section \<open>The law of the services is what the texts mean\<close>

definition activity_row :: "Activity \<Rightarrow> row" where
  "activity_row a = map_of (zip activity_cols (activity_args a))"

definition order_row :: "Order \<Rightarrow> row" where
  "order_row x = map_of (zip order_cols (order_args x))"

text \<open>How a database of rows stands for the tables of \<open>Services\<close>.\<close>

definition represents :: "database \<Rightarrow> tables \<Rightarrow> bool" where
  "represents db t \<longleftrightarrow> db ''orders_0'' = map order_row (orders_0 t) \<and>
     (\<exists>as. db ''activities'' = map activity_row as \<and> distinct (map a_ID as) \<and>
        activities t = map_of (map (\<lambda>a. (a_ID a, a)) as))"


lemma activity_row_simps [simp]:
  "activity_row a ''id'' = Some (SInt (a_ID a))" "activity_row a ''total_stock'' = Some (SInt (a_TotalStock a))"
  by (simp_all add: activity_row_def activity_args_def)

lemma order_row_simps [simp]:
  "order_row x ''id'' = Some (SInt (o_ID x))" "order_row x ''user_id'' = Some (SInt (o_UserID x))"
  "order_row x ''activity_id'' = Some (SInt (o_ActivityID x))"
  "order_row x ''idempotency_token'' = Some (SText (o_IdempotencyToken x))"
  by (simp_all add: order_row_def order_args_def)

lemma schema_simps [simp]:
  "schema ''activities'' = Some activities_table" "schema ''orders_0'' = Some orders_0_table"
  by (simp_all add: schema_def)

lemma args_length [simp]: "length (activity_args a) = 7" "length (order_args x) = 7"
  by (simp_all add: activity_args_def order_args_def)

lemma columns_known:
  "list_all (\<lambda>c. map_of (td_columns activities_table) c \<noteq> None) activity_cols"
  "list_all (\<lambda>c. map_of (td_columns orders_0_table) c \<noteq> None) order_cols"
  by (simp_all add: activities_table_def orders_0_table_def)

lemma new_rows:
  "new_row dt activities_table activity_cols (activity_args a) = activity_row (stored_activity dt a)"
  "new_row dt orders_0_table order_cols (order_args x) = order_row (stored_order dt x)"
  by (simp_all add: new_row_def activities_table_def orders_0_table_def activity_row_def order_row_def
      activity_args_def order_args_def stored_activity_def stored_order_def)

lemma clash_activity:
  "clash coll activities_table (activity_row a) (map activity_row as) \<longleftrightarrow> a_ID a \<in> a_ID ` set as"
  by (auto simp: clash_def same_key_def activities_table_def list_ex_iff intro: rev_image_eqI)

lemma clash_order:
  "clash coll orders_0_table (order_row x) (map order_row rows) \<longleftrightarrow> order_conflict coll x rows"
  by (auto simp: clash_def same_key_def orders_0_table_def list_ex_iff order_conflict_def uk_idem_def)

lemma order_conflict_stored [simp]: "order_conflict coll (stored_order dt x) rows \<longleftrightarrow> order_conflict coll x rows"
  by (simp add: order_conflict_def uk_idem_def stored_order_def)

lemma subtract_activity:
  "subtract ''total_stock'' (SInt n) (activity_row a) = activity_row (a\<lparr>a_TotalStock := a_TotalStock a - n\<rparr>)"
  by (rule ext) (simp add: subtract_def activity_row_def activity_args_def)

lemma scan_activity: "activityRow (project activity_cols (activity_row a)) = Some a"
  by (simp add: project_def List.map_filter_simps activity_row_def activity_args_def activityRow_def int_col_def time_col_def)

lemma scan_order: "orderRow (project order_cols (order_row x)) = Some x"
  by (simp add: project_def List.map_filter_simps order_row_def order_args_def orderRow_def int_col_def time_col_def text_col_def)

lemma scan_stock: "int_col (project [''total_stock''] (activity_row a)) ''total_stock'' = Some (a_TotalStock a)"
  by (simp add: project_def List.map_filter_simps int_col_def)

lemma filter_by_id:
  assumes "distinct (map a_ID as)"
  shows "filter (\<lambda>a. a_ID a = i) as = (case map_of (map (\<lambda>a. (a_ID a, a)) as) i of None \<Rightarrow> [] | Some a \<Rightarrow> [a])"
  using assms
proof (induction as)
  case (Cons a as)
  have none: "filter (\<lambda>x. a_ID x = a_ID a) as = []"
    using Cons.prems by (auto simp: filter_empty_conv dest: rev_image_eqI [where f = a_ID, OF _ sym])
  have "map_of (map (\<lambda>a. (a_ID a, a)) as) (a_ID a) = None"
    using Cons.prems by (auto simp: map_of_eq_None_iff image_image)
  show ?case
  proof (cases "a_ID a = i")
    case True
    then show ?thesis using none by simp
  next
    case False
    then show ?thesis using Cons by simp
  qed
qed simp

lemma id_row:
  assumes "distinct (map a_ID as)"
  shows "a \<in> set as \<and> a_ID a = i \<longleftrightarrow> map_of (map (\<lambda>a. (a_ID a, a)) as) i = Some a"
proof -
  have "a \<in> set as \<and> a_ID a = i \<longleftrightarrow> a \<in> set (filter (\<lambda>a. a_ID a = i) as)" by simp
  also have "\<dots> \<longleftrightarrow> map_of (map (\<lambda>a. (a_ID a, a)) as) i = Some a"
    unfolding filter_by_id [OF assms] by (cases "map_of (map (\<lambda>a. (a_ID a, a)) as) i") auto
  finally show ?thesis .
qed

text \<open>Changing the rows with one id, where ids differ.\<close>

lemma map_of_update:
  assumes "distinct (map a_ID as)" and "\<And>a. a_ID (f a) = a_ID a"
  shows "map_of (map (\<lambda>a. (a_ID a, a)) (map (\<lambda>a. if a_ID a = i then f a else a) as)) =
    (case map_of (map (\<lambda>a. (a_ID a, a)) as) i of
       None \<Rightarrow> map_of (map (\<lambda>a. (a_ID a, a)) as)
     | Some a \<Rightarrow> (map_of (map (\<lambda>a. (a_ID a, a)) as))(i \<mapsto> f a))"
  using assms(1)
proof (induction as)
  case (Cons a as)
  show ?case
  proof (cases "a_ID a = i")
    case True
    then have "map (\<lambda>a. if a_ID a = i then f a else a) as = as" using Cons.prems by (induction as) auto
    then show ?thesis using True assms(2) by simp
  next
    case False
    then show ?thesis using Cons by (auto simp: fun_upd_twist split: option.splits)
  qed
qed simp


text \<open>Whether the values a statement writes fit their columns.\<close>

fun fitting :: "tables \<Rightarrow> stmt \<Rightarrow> bool" where
  "fitting t (InsertActivity a) = row_fits activities_table activity_cols (activity_args a)"
| "fitting t (InsertOrder x) = row_fits orders_0_table order_cols (order_args x)"
| "fitting t (UpdateDeduct n i m) =
     (case activities t i of
        None \<Rightarrow> True | Some a \<Rightarrow> m \<le> a_TotalStock a \<longrightarrow> fits INTEGER (SInt (a_TotalStock a - n)))"
| "fitting t s = True"

text \<open>One lemma per statement.\<close>

abbreviation agrees ::
  "(string \<Rightarrow> string) \<Rightarrow> (int \<Rightarrow> int) \<Rightarrow> stmt \<Rightarrow> database \<Rightarrow> tables \<Rightarrow> bool" where
  "agrees coll dt s db t \<equiv>
     (case exec_text coll dt (text_of s) (args_of s) db of (res, db') \<Rightarrow>
        if fitting t s
        then (case sql_sem coll dt s t of
                None \<Rightarrow> res = DuplicateKey \<and> db' = db
              | Some (r, t') \<Rightarrow> reply_of s res = Some r \<and> represents db' t')
        else res = OutOfRange \<and> db' = db)"

lemma representsE:
  assumes "represents db t"
  obtains as where "db ''orders_0'' = map order_row (orders_0 t)" "db ''activities'' = map activity_row as"
    "distinct (map a_ID as)" "activities t = map_of (map (\<lambda>a. (a_ID a, a)) as)"
  using assms unfolding represents_def by blast

lemma agrees_InsertActivity:
  assumes "represents db t"
  shows "agrees coll dt (InsertActivity a) db t"
proof -
  obtain as where db: "db ''orders_0'' = map order_row (orders_0 t)" "db ''activities'' = map activity_row as"
    and as: "distinct (map a_ID as)" and t: "activities t = map_of (map (\<lambda>a. (a_ID a, a)) as)"
    using assms by (rule representsE)
  let ?a = "stored_activity dt a"
  have id: "a_ID ?a = a_ID a" by (simp add: stored_activity_def)
  have run: "exec_text coll dt (text_of (InsertActivity a)) (args_of (InsertActivity a)) db =
      (if \<not> fitting t (InsertActivity a) then (OutOfRange, db)
       else if a_ID a \<in> a_ID ` set as then (DuplicateKey, db)
       else (Affected 1, db(''activities'' := db ''activities'' @ [activity_row ?a])))"
    using clash_activity [of coll ?a as] columns_known(1) new_rows(1) [of dt a]
    by (simp add: exec_text_def parsed Let_def db id)
  have key: "activities t (a_ID a) \<noteq> None \<longleftrightarrow> a_ID a \<in> a_ID ` set as"
    by (auto simp: t map_of_eq_None_iff image_image)
  have "represents (db(''activities'' := map activity_row as @ [activity_row ?a]))
      (t\<lparr>activities := (activities t)(a_ID a \<mapsto> ?a)\<rparr>)" if "a_ID a \<notin> a_ID ` set as"
  proof -
    have "(activities t)(a_ID a \<mapsto> ?a) = map_of (map (\<lambda>a. (a_ID a, a)) (as @ [?a]))"
    proof -
      have "map_of (map (\<lambda>a. (a_ID a, a)) as) (a_ID a) = None"
        using that by (simp add: map_of_eq_None_iff image_image)
      then show ?thesis by (auto simp: t id map_add_def fun_eq_iff split: option.splits)
    qed
    then show ?thesis
      using that as db(1) unfolding represents_def by (intro conjI exI [of _ "as @ [?a]"]) (auto simp: id)
  qed
  then show ?thesis using run key db(2) by auto
qed

lemma agrees_InsertOrder:
  assumes "represents db t"
  shows "agrees coll dt (InsertOrder x) db t"
proof -
  have db: "db ''orders_0'' = map order_row (orders_0 t)" using assms by (rule representsE)
  have "exec_text coll dt (text_of (InsertOrder x)) (args_of (InsertOrder x)) db =
      (if \<not> fitting t (InsertOrder x) then (OutOfRange, db)
       else if order_conflict coll x (orders_0 t) then (DuplicateKey, db)
       else (Affected 1, db(''orders_0'' := db ''orders_0'' @ [order_row (stored_order dt x)])))"
    using clash_order [of coll "stored_order dt x" "orders_0 t"] columns_known(2) new_rows(2) [of dt x]
    by (simp add: exec_text_def parsed Let_def db)
  then show ?thesis using assms db by (auto simp: represents_def)
qed

lemma rows_by_id:
  assumes "distinct (map a_ID as)"
  shows "filter (sat coll [Equals ''id''] [SInt i]) (map activity_row as) =
    (case map_of (map (\<lambda>a. (a_ID a, a)) as) i of None \<Rightarrow> [] | Some a \<Rightarrow> [activity_row a])"
  using filter_by_id [OF assms, of i] by (simp add: filter_map o_def split: option.splits)

lemma agrees_SelectActivity:
  assumes "represents db t"
  shows "agrees coll dt (SelectActivity i) db t"
  using assms
  by (auto elim!: representsE simp: exec_text_def parsed rows_by_id scanned_def scan_activity represents_def
      simp del: sat.simps split: option.splits)

lemma agrees_SelectTotalStock:
  assumes "represents db t"
  shows "agrees coll dt (SelectTotalStock i) db t"
  using assms
  by (auto elim!: representsE simp: exec_text_def parsed rows_by_id scanned_def scan_stock represents_def
      simp del: sat.simps split: option.splits)

lemma agrees_SelectOrder:
  assumes "represents db t"
  shows "agrees coll dt (SelectOrder u i) db t"
proof -
  have db: "db ''orders_0'' = map order_row (orders_0 t)" using assms by (rule representsE)
  have "filter (sat coll [Equals ''user_id'', Equals ''id''] [SInt u, SInt i]) (map order_row (orders_0 t)) =
      map order_row (filter (\<lambda>x. o_UserID x = u \<and> o_ID x = i) (orders_0 t))"
    by (simp add: filter_map o_def)
  then show ?thesis
    using assms by (auto simp: exec_text_def parsed db scanned_def scan_order simp del: sat.simps split: list.splits)
qed

lemma agrees_CountOrders:
  assumes "represents db t"
  shows "agrees coll dt (CountOrders i) db t"
proof -
  have db: "db ''orders_0'' = map order_row (orders_0 t)" using assms by (rule representsE)
  show ?thesis
    using assms by (simp add: exec_text_def parsed db scanned_def int_col_def filter_map o_def)
qed

lemma agrees_UpdateDeduct:
  assumes "represents db t"
  shows "agrees coll dt (UpdateDeduct n i m) db t"
proof -
  obtain as where db: "db ''orders_0'' = map order_row (orders_0 t)" "db ''activities'' = map activity_row as"
    and as: "distinct (map a_ID as)" and t: "activities t = map_of (map (\<lambda>a. (a_ID a, a)) as)"
    using assms by (rule representsE)
  let ?dec = "\<lambda>a. a\<lparr>a_TotalStock := a_TotalStock a - n\<rparr>"
  let ?f = "\<lambda>a. if m \<le> a_TotalStock a then ?dec a else a"
  let ?as = "map (\<lambda>a. if a_ID a = i then ?f a else a) as"
  have sat: "sat coll [Equals ''id'', AtLeast ''total_stock''] [SInt i, SInt m] (activity_row a) \<longleftrightarrow>
      a_ID a = i \<and> m \<le> a_TotalStock a" for a by simp
  have changed: "subtract ''total_stock'' (SInt n) (activity_row a) ''total_stock'' \<noteq> activity_row a ''total_stock'' \<longleftrightarrow>
      n \<noteq> 0" for a
    by (simp add: subtract_activity)
  have column: "column_fits activities_table ''total_stock'' v \<longleftrightarrow> fits INTEGER v" for v
    by (simp add: column_fits_def activities_table_def)
  have range: "list_ex (\<lambda>r. sat coll [Equals ''id'', AtLeast ''total_stock''] [SInt i, SInt m] r \<and>
      \<not> column_fits activities_table ''total_stock'' (the (subtract ''total_stock'' (SInt n) r ''total_stock'')))
      (map activity_row as) \<longleftrightarrow> \<not> fitting t (UpdateDeduct n i m)"
  proof -
    have "(\<exists>a\<in>set as. (a_ID a = i \<and> m \<le> a_TotalStock a) \<and> \<not> fits INTEGER (SInt (a_TotalStock a - n))) \<longleftrightarrow>
        \<not> fitting t (UpdateDeduct n i m)"
    proof (cases "activities t i")
      case None
      then have "\<forall>a\<in>set as. a_ID a \<noteq> i" using id_row [OF as, of _ i] by (auto simp: t)
      then show ?thesis using None by auto
    next
      case (Some b)
      then have b: "a \<in> set as \<and> a_ID a = i \<longleftrightarrow> a = b" for a using id_row [OF as, of a i] by (auto simp: t)
      have "(\<exists>a\<in>set as. (a_ID a = i \<and> P a) \<and> Q a) \<longleftrightarrow> P b \<and> Q b" for P Q using b by metis
      then show ?thesis using Some by (simp del: fits.simps)
    qed
    then show ?thesis by (simp add: list_ex_iff sat subtract_activity column del: sat.simps fits.simps fitting.simps)
  qed
  have run: "exec_text coll dt (text_of (UpdateDeduct n i m)) (args_of (UpdateDeduct n i m)) db =
      (if fitting t (UpdateDeduct n i m)
       then (Affected (int (length (filter (\<lambda>a. a_ID a = i \<and> m \<le> a_TotalStock a \<and> n \<noteq> 0) as))),
         db(''activities'' := map activity_row ?as))
       else (OutOfRange, db))"
    unfolding exec_text_def text_of.simps parsed
    by (simp add: db sat changed subtract_activity filter_map o_def conj_assoc Let_def range cong: if_cong del: sat.simps fits.simps)
       (auto simp: subtract_activity)
  have "map a_ID ?as = map a_ID as" by simp
  with as have ids: "distinct (map a_ID ?as)" by (simp only:)
  have rep: "represents (db(''activities'' := map activity_row ?as)) (t\<lparr>activities := map_of (map (\<lambda>a. (a_ID a, a)) ?as)\<rparr>)"
    unfolding represents_def
  proof (intro conjI exI)
    show "distinct (map a_ID ?as)" by (rule ids)
  qed (use db(1) in simp_all)
  have new: "map_of (map (\<lambda>a. (a_ID a, a)) ?as) =
      (case activities t i of None \<Rightarrow> activities t | Some a \<Rightarrow> (activities t)(i \<mapsto> ?f a))"
    unfolding t by (rule map_of_update [OF as]) simp
  have count: "filter (\<lambda>a. a_ID a = i \<and> m \<le> a_TotalStock a \<and> n \<noteq> 0) as =
      filter (\<lambda>a. m \<le> a_TotalStock a \<and> n \<noteq> 0) (case activities t i of None \<Rightarrow> [] | Some a \<Rightarrow> [a])"
    unfolding t filter_by_id [OF as, symmetric] filter_filter by (rule filter_cong) auto
  show ?thesis
    using run rep new count by (auto simp: fun_upd_idem split: option.splits)
qed


text \<open>What does not fit is refused, whatever the tables hold.\<close>

lemma unstorable_order:
  assumes "64 < length (o_IdempotencyToken x) \<or> o_UserID x < 0"
  shows "exec_text coll dt orderRepo_Create_q (order_args x) db = (OutOfRange, db)"
proof -
  have "\<not> row_fits orders_0_table order_cols (order_args x)"
    using assms by (auto simp: row_fits_def column_fits_def orders_0_table_def order_args_def)
  then show ?thesis using columns_known(2) by (simp add: exec_text_def parsed)
qed

section \<open>The refinement\<close>


definition ex_db :: database where
  "ex_db = (\<lambda>_. [])(''activities'' := [activity_row \<lparr>a_ID = 7, a_ProductID = 70, a_TotalStock = 2, a_StartAt = 0,
     a_EndAt = 1000, a_PerUserLimit = 1, a_Status = 2\<rparr>])"


end
