(* ===== verification/Scenarios.thy ===== *)
theory Scenarios
  imports Web Statements
begin

text \<open>
  Properties of the repositories and of the sweeper on any services, and behaviours of the
  program worth knowing, as concrete runs of the model.
\<close>

section \<open>Orders and reconciliation\<close>

text \<open>
  C28. Reading one's own write through the shards, whatever calls fail in between: once an order
  was created without error, looking it up by its user and id never says not found, and an
  order it returns has these ids.
\<close>

theorem sharded_read_own_write:
  assumes "services S ks tbl logs coll dt"
    and "run S (shardedOrderRepo_Create shards x) w = (Some None, w1)"
    and "run S (shardedOrderRepo_GetByID shards (o_UserID x) (o_ID x)) w1 = (Some res, w2)"
  shows "res \<noteq> Inl ErrOrderNotFound \<and> (\<forall>y. res = Inr y \<longrightarrow> o_UserID y = o_UserID x \<and> o_ID y = o_ID x)"
  using services.shards_hold_created [OF assms] .

definition ex_order :: Order where
  "ex_order = order_of ex_message"

theorem sharded_read_own_write_witness:
  "\<exists>w1 w2 :: mem. run mem_call (shardedOrderRepo_Create ex_shards ex_order) ex_world = (Some None, w1) \<and>
     run mem_call (shardedOrderRepo_GetByID ex_shards 9 42) w1 = (Some (Inr ex_order), w2) \<and>
     Inr ex_order \<noteq> Inl ErrOrderNotFound"
proof -
  obtain w1 w2 :: mem where run: "run mem_call (shardedOrderRepo_Create ex_shards ex_order) ex_world = (Some None, w1)"
    "run mem_call (shardedOrderRepo_GetByID ex_shards (o_UserID ex_order) (o_ID ex_order)) w1 = (Some (Inr ex_order), w2)"
  proof -
    have "(case run mem_call (shardedOrderRepo_Create ex_shards ex_order) ex_world of
        (Some None, w1) \<Rightarrow> (case run mem_call (shardedOrderRepo_GetByID ex_shards (o_UserID ex_order) (o_ID ex_order)) w1 of
          (Some (Inr y), _) \<Rightarrow> y = ex_order | _ \<Rightarrow> False) | _ \<Rightarrow> False)"
      by code_simp
    then show thesis using that by (auto split: prod.splits option.splits sum.splits)
  qed
  have "o_UserID ex_order = 9" "o_ID ex_order = 42"
    by (simp_all add: ex_order_def order_of_def ex_message_def)
  with run sharded_read_own_write [OF memory.services_axioms run] show ?thesis by auto
qed

text \<open>
  An order is created once, whatever calls fail: after a creation without error, creating
  the same order again never succeeds and leaves the rows as they are.
\<close>

theorem sharded_create_once:
  assumes "services S ks tbl logs coll dt"
    and "run S (shardedOrderRepo_Create shards x) w = (Some None, w1)"
    and "run S (shardedOrderRepo_Create shards x) w1 = (Some res, w2)"
  shows "res \<noteq> None \<and> sharded_rows shards (tbl w2) = sharded_rows shards (tbl w1)"
  using services.shards_create_once [OF assms] .

theorem sharded_create_once_witness:
  "\<exists>w1 w2 :: mem. run mem_call (shardedOrderRepo_Create ex_shards ex_order) ex_world = (Some None, w1) \<and>
     run mem_call (shardedOrderRepo_Create ex_shards ex_order) w1 = (Some (Some ErrOrderDuplicate), w2) \<and>
     sharded_rows ex_shards (mem_tbl w2) = sharded_rows ex_shards (mem_tbl w1)"
proof -
  obtain w1 w2 :: mem where run: "run mem_call (shardedOrderRepo_Create ex_shards ex_order) ex_world = (Some None, w1)"
    "run mem_call (shardedOrderRepo_Create ex_shards ex_order) w1 = (Some (Some ErrOrderDuplicate), w2)"
  proof -
    have "(case run mem_call (shardedOrderRepo_Create ex_shards ex_order) ex_world of
        (Some None, w1) \<Rightarrow> (case run mem_call (shardedOrderRepo_Create ex_shards ex_order) w1 of
          (Some (Some e), _) \<Rightarrow> e = ErrOrderDuplicate | _ \<Rightarrow> False) | _ \<Rightarrow> False)"
      by code_simp
    then show thesis using that by (auto split: prod.splits option.splits)
  qed
  with sharded_create_once [OF memory.services_axioms run] show ?thesis by blast
qed

text \<open>
  A sequence of deductions, with the stock in Redis or in MySQL, on services that may fail:
  the deductions reported as successes, plus the stock left, never exceed the stock there was.
\<close>

theorem deductions_bounded:
  assumes "services S ks tbl logs coll dt" and "counters_ok (ks w)" and "small limit" and "0 \<le> s"
    and "lua \<and> stock_left (ks w) a = Some s \<or> \<not> lua \<and> total_stock (tbl w MainDB) a = Some s"
    and "attempts S (if lua then stockRedisRepo_DeductForUser else stockRepoSQL_DeductForUser) a limit us w = (k, w')"
  shows "\<exists>s'. (if lua then stock_left (ks w') a else total_stock (tbl w' MainDB) a) = Some s' \<and>
    0 \<le> s' \<and> int k + s' \<le> s"
proof (cases lua)
  case True
  then show ?thesis
    using services.lua_attempts_bounded [OF assms(1-3) _ assms(4), of a us k w'] assms(5,6) by simp
next
  case False
  then show ?thesis
    using services.sql_attempts_bounded [OF assms(1,3) _ assms(4), of w a us k w'] assms(5,6) by simp
qed

theorem deductions_bounded_witness:
  "fst (attempts mem_call stockRedisRepo_DeductForUser 7 1 [9, 9, 8, 6] ex_world) \<le> 2"
proof -
  obtain k w' where a: "attempts mem_call stockRedisRepo_DeductForUser 7 1 [9, 9, 8, 6] ex_world = (k, w')"
    by (cases "attempts mem_call stockRedisRepo_DeductForUser 7 1 [9, 9, 8, 6] ex_world")
  have "stock_left (mem_ks ex_world) 7 = Some 2" by code_simp
  with deductions_bounded [OF memory.services_axioms ex_counters, of 1 2 True 7 "[9, 9, 8, 6]" k w'] a
  show ?thesis by (auto simp: small_def)
qed

text \<open>
  The sweeper only observes: whatever the services answer, a round over any activities
  leaves keyspace, tables and logs as they were.
\<close>

theorem sweeper_observes:
  assumes "services S ks tbl logs coll dt"
  shows "ks (snd (run S (tick s acts) w)) = ks w \<and> tbl (snd (run S (tick s acts) w)) = tbl w \<and>
    logs (snd (run S (tick s acts) w)) = logs w"
  by (rule services.run_read_only [OF assms]) (rule makes_tick, simp_all)

theorem sweeper_observes_witness:
  "mem_ks (snd (run mem_call (tick \<lparr>rs_shards = ex_shards, rs_db = MainDB\<rparr> [7, 8]) ex_world)) = mem_ks ex_world"
  using sweeper_observes [OF memory.services_axioms, of "\<lparr>rs_shards = ex_shards, rs_db = MainDB\<rparr>" "[7, 8]" ex_world]
  by blast

text \<open>
  C33. What the sweeper reports, on services that do not fail: the drift is the activity's total
  stock less the stock in Redis and the rows counted over all databases, exactly.
\<close>

theorem Check_drift:
  assumes "reliable_services S ks tbl logs coll dt"
    and "activities (tbl w MainDB) a = Some act" and "stock_left (ks w) a = Some s"
    and "0 \<le> s" and "in64 (s + rows_of (tbl w) (counted_dbs sv) a)"
    and "in64 (a_TotalStock act)" and "0 \<le> a_TotalStock act"
  shows "fst (run S (Check sv a) w) = Some (Inr
    \<lparr>f_ActivityID = a, f_InitStock = a_TotalStock act, f_Redis = s,
     f_OrdersCount = rows_of (tbl w) (counted_dbs sv) a,
     f_Drift = a_TotalStock act - (s + rows_of (tbl w) (counted_dbs sv) a)\<rparr>)"
  using reliable_services.run_Check [OF assms] .

theorem Check_drift_witness:
  "fst (run mem_call (Check \<lparr>rs_shards = ex_shards, rs_db = MainDB\<rparr> 7) ex_world) = Some (Inr
    \<lparr>f_ActivityID = 7, f_InitStock = 2, f_Redis = 2, f_OrdersCount = 0, f_Drift = 0\<rparr>)"
proof -
  have "activities (mem_tbl ex_world MainDB) 7 = Some ex_activity"
    by (simp add: ex_world_def ex_tables_def)
  moreover have "stock_left (mem_ks ex_world) 7 = Some 2" by code_simp
  moreover have "rows_of (mem_tbl ex_world) (counted_dbs \<lparr>rs_shards = ex_shards, rs_db = MainDB\<rparr>) 7 = 0"
    by code_simp
  ultimately show ?thesis
    using Check_drift [OF memory.reliable_services_axioms, of ex_world 7 ex_activity 2
        "\<lparr>rs_shards = ex_shards, rs_db = MainDB\<rparr>"]
    by (simp add: ex_activity_def in64_def)
qed

section \<open>Behaviours to know\<close>

definition sell :: "int \<Rightarrow> mem \<Rightarrow> mem" where
  "sell user w = snd (run mem_call
     (api_seckill ex_api \<lparr>rq_ActivityID = 7, rq_UserID = user, rq_IdempotencyToken = ''t''\<rparr>) w)"

definition ex_single :: mem where
  "ex_single = ex_world\<lparr>mem_ks := [stock_key 7 \<mapsto> (''1'', None)],
     mem_tbl := (\<lambda>d. \<lparr>activities = [7 \<mapsto> ex_activity\<lparr>a_TotalStock := 1\<rparr>], orders_0 = []\<rparr>)\<rparr>"

text \<open>
  Warming restocks in full: on services that do not fail it sets the stock in Redis to the
  activity's total, whatever was sold before, and the orders already out stay out.  Warming an
  activity of which anything was sold therefore leaves more units and orders than the total.
\<close>

theorem warming_restocks:
  assumes "reliable_services S ks tbl logs coll dt" and "LuaStock sw"
    and "activities (tbl w MainDB) a = Some act" and "in64 (a_TotalStock act)" and "0 \<le> a_TotalStock act"
    and "run S (AdminService_Warm a) w = (res, w')"
  shows "res = Some (Inr (a_TotalStock act)) \<and>
    int (stock_units sw a (ks w') (tbl w') + orders_out sw shards topic sel (tbl w') (logs w'))
      = a_TotalStock act + int (orders_out sw shards topic sel (tbl w) (logs w))"
proof -
  from reliable_services.run_Warm [OF assms(1,3,4)] assms(6)
  have "res = Some (Inr (a_TotalStock act))" "tbl w' = tbl w" "logs w' = logs w"
    and "stock_left (ks w') = (stock_left (ks w))(a \<mapsto> a_TotalStock act)"
    by auto
  with assms(2,5) show ?thesis by (simp add: stock_units_def units_def)
qed

theorem warming_restocks_witness:
  "(case run mem_call (AdminService_Warm 7) (sell 1 ex_single) of (res, w) \<Rightarrow>
      stock_units all_on 7 (mem_ks w) (mem_tbl w) +
      orders_out all_on ex_shards TopicSeckillOrders (any_user 7) (mem_tbl w) (mem_log w)) = 2"
proof -
  obtain res w where run: "run mem_call (AdminService_Warm 7) (sell 1 ex_single) = (res, w)"
    by (cases "run mem_call (AdminService_Warm 7) (sell 1 ex_single)")
  have act: "activities (mem_tbl (sell 1 ex_single) MainDB) 7 = Some (ex_activity\<lparr>a_TotalStock := 1\<rparr>)"
    by code_simp
  have out: "orders_out all_on ex_shards TopicSeckillOrders (any_user 7) (mem_tbl (sell 1 ex_single))
      (mem_log (sell 1 ex_single)) = 1"
    by code_simp
  have "LuaStock all_on" by (simp add: all_on_def)
  from warming_restocks [OF memory.reliable_services_axioms this act _ _ run, of ex_shards TopicSeckillOrders "any_user 7"]
  show ?thesis by (simp add: run out in64_def)
qed

text \<open>
  Order ids are not unique: two attempts of one process that read the clock one nanosecond
  apart get the same id when the later reader increments the counter first.
\<close>

theorem nextID_collides:
  "performs nextID [(Now, RInt t), (AddCounter, RInt 2)] (Some (add64 t 2)) \<and>
   performs nextID [(Now, RInt (t + 1)), (AddCounter, RInt 1)] (Some (add64 t 2))"
  by (simp add: nextID_def performs_Call add64_def add.assoc)

text \<open>
  Without Kafka the queue token of a stored order never resolves: the attempt is answered
  queued and its row is written, but the token still says queued.
\<close>

theorem sync_order_stays_queued:
  "(let A = ex_api\<lparr>api_switches := all_on\<lparr>KafkaOrder := False\<rparr>\<rparr>
    in case run mem_call (api_seckill A ex_request) ex_world of
      (Some (out, None), w) \<Rightarrow> out_Outcome out = OutcomeQueued \<and>
         map o_UserID (orders_0 (mem_tbl w (ShardDB 1))) = [9] \<and>
         fst (run mem_call (QueueService_Get (out_QueueToken out)) w) = Some (Inr ''queued'')
    | _ \<Rightarrow> False)"
  by code_simp

text \<open>
  An order that cannot be published has still cost its unit: the attempt fails, and the
  stock and the user's allowance stay reduced.
\<close>

theorem failed_order_keeps_unit:
  "(let S = (\<lambda>c w. case c of KWrite tp k v t hs \<Rightarrow> (RErr (GoErr ''kafka down''), w) | _ \<Rightarrow> mem_call c w)
    in case run S (api_seckill ex_api ex_request) ex_world of
      (Some (out, Some e), w) \<Rightarrow> out_Outcome out = OutcomeInternal \<and>
         stock_left (mem_ks w) 7 = Some 1 \<and> bought (mem_ks w) 7 9 = 1 \<and> mem_log w TopicSeckillOrders = []
    | _ \<Rightarrow> False)"
  by code_simp

text \<open>
  An order in flight counts as drift: between the answer and the row, a check of an activity
  with nothing lost reports one missing, and the sweeper counts and logs it.
\<close>

theorem order_in_flight_drifts:
  "(case run mem_call (api_seckill ex_api ex_request) ex_world of
      (_, w) \<Rightarrow> (case run mem_call (Check (api_reconcile ex_api) 7) w of
        (Some (Inr f), _) \<Rightarrow> f_InitStock f = 2 \<and> f_Redis f = 1 \<and> f_OrdersCount f = 0 \<and> f_Drift f = 1
      | _ \<Rightarrow> False))"
  by code_simp

section \<open>Orders that cannot be stored\<close>

lemma decode_request_fields:
  "decode_request ''activity_id'' v q = decode_int v (\<lambda>i. q\<lparr>rq_ActivityID := i\<rparr>) q"
  "decode_request ''user_id'' v q = decode_int v (\<lambda>i. q\<lparr>rq_UserID := i\<rparr>) q"
  "decode_request ''idempotency_token'' v q = decode_str v (\<lambda>s. q\<lparr>rq_IdempotencyToken := s\<rparr>) q"
  unfolding decode_request_def field_is_def lower_simps by simp_all



end
