(* ===== verification/Seed.thy ===== *)
theory Seed
  imports Example
begin

text \<open>
  \<open>cmd/seed/main.go\<close>: the tool that creates a demo activity and warms it, from its arguments
  to the line it prints; and what running it leaves behind, the second time too.
\<close>

section \<open>The tool\<close>

text \<open>
  The activity and the stock asked for: the first two arguments, where they are there and parse,
  else the defaults.  An exit through \<open>log.Fatalf\<close> carries its message.
\<close>

definition seed_id :: "string list \<Rightarrow> int" where
  "seed_id args =
     (case args of s # _ \<Rightarrow> (case ParseInt s of Some v \<Rightarrow> v | None \<Rightarrow> 1001) | [] \<Rightarrow> 1001)"

definition seed_stock :: "string list \<Rightarrow> int" where
  "seed_stock args =
     (case args of _ # s # _ \<Rightarrow> (case ParseInt s of Some v \<Rightarrow> v | None \<Rightarrow> 1000) | _ \<Rightarrow> 1000)"

definition seed_activity :: "int \<Rightarrow> int \<Rightarrow> int \<Rightarrow> Activity" where
  "seed_activity i stock now =
     \<lparr>a_ID = i, a_ProductID = 555, a_TotalStock = stock, a_StartAt = now - minute,
      a_EndAt = now + 2 * hour, a_PerUserLimit = 1, a_Status = ActivityRunning\<rparr>"

definition seed_isDuplicate :: "goerr option \<Rightarrow> bool" where
  "seed_isDuplicate err =
     (case err of
        None \<Rightarrow> False
      | Some e \<Rightarrow> Contains (err_text e) ''Error 1062'' \<or> Contains (err_text e) ''Duplicate entry'')"

datatype seed_end = Seeded int int int | Fatal string

definition seed_warm :: "int \<Rightarrow> int \<Rightarrow> seed_end prog" where
  "seed_warm i stock =
     bindp (AdminService_Warm i) (\<lambda>res.
       case res of
         Inr warmed \<Rightarrow> Ret (Seeded i stock warmed)
       | Inl err \<Rightarrow>
           if errors_Is err ErrActivityNotFound
           then Ret (Fatal (''warm: activity '' @ show_int i @ '' not found in MySQL''))
           else Ret (Fatal (''warm: '' @ err_text err)))"

definition seed :: "string list \<Rightarrow> seed_end prog" where
  "seed args =
     Call Now (\<lambda>t.
       bindp (AdminService_Create (seed_activity (seed_id args) (seed_stock args) (val_int t))) (\<lambda>res.
         case res of
           Some err \<Rightarrow>
             if \<not> seed_isDuplicate (Some err) then Ret (Fatal (''create: '' @ err_text err))
             else seed_warm (seed_id args) (seed_stock args)
         | None \<Rightarrow> seed_warm (seed_id args) (seed_stock args)))"

section \<open>What it leaves behind\<close>

lemma seed_duplicate: "seed_isDuplicate (Some (GoErr m)) \<longleftrightarrow> duplicate_text m"
  by (simp add: seed_isDuplicate_def duplicate_text_def)

lemma seed_stock_in64: "in64 (seed_stock args)"
  by (auto simp: seed_stock_def ParseInt_def in64_def split: list.splits option.splits if_splits)

context reliable_services begin

lemma run_seed_warm:
  assumes "activities (tbl w MainDB) i = Some act" and "in64 (a_TotalStock act)"
  shows "\<exists>w'. run S (seed_warm i stock) w = (Some (Seeded i stock (a_TotalStock act)), w') \<and>
    stock_left (ks w') = (stock_left (ks w))(i \<mapsto> a_TotalStock act) \<and> tbl w' = tbl w \<and> log w' = log w"
  using run_Warm [OF assms] by (auto simp: seed_warm_def run_bindp)

lemma run_seed:
  assumes "\<forall>old. activities (tbl w MainDB) (seed_id args) = Some old \<longrightarrow> in64 (a_TotalStock old)"
  shows "\<exists>act now w'. run S (seed args) w = (Some (Seeded (seed_id args) (seed_stock args) (a_TotalStock act)), w') \<and>
    act = (case activities (tbl w MainDB) (seed_id args) of
       Some old \<Rightarrow> old
     | None \<Rightarrow> stored_activity dt (seed_activity (seed_id args) (seed_stock args) now)) \<and>
    activities (tbl w' MainDB) = (activities (tbl w MainDB))(seed_id args \<mapsto> act) \<and>
    stock_left (ks w') = (stock_left (ks w))(seed_id args \<mapsto> a_TotalStock act) \<and> log w' = log w"
proof -
  obtain r w1 where S1: "S Now w = (r, w1)" by (cases "S Now w")
  have w1: "ks w1 = ks w" "tbl w1 = tbl w" "log w1 = log w" using local_frame [OF S1] by simp_all
  let ?a = "seed_activity (seed_id args) (seed_stock args) (val_int r)"
  obtain r2 w2 where S2: "S (Sql MainDB (InsertActivity ?a)) w1 = (r2, w2)"
    by (cases "S (Sql MainDB (InsertActivity ?a)) w1")
  have f2: "ks w2 = ks w" "log w2 = log w" using sql_call [OF S2] w1 by auto
  let ?old = "activities (tbl w MainDB) (seed_id args)"
  have i: "a_ID ?a = seed_id args" "a_TotalStock ?a = seed_stock args" by (simp_all add: seed_activity_def)
  have seeds: "run S (seed args) w = run S (seed_warm (seed_id args) (seed_stock args)) w2 \<and>
    activities (tbl w2 MainDB) = (activities (tbl w MainDB))(seed_id args \<mapsto>
       case ?old of Some old \<Rightarrow> old | None \<Rightarrow> stored_activity dt ?a)"
  proof (cases ?old)
    case None
    then have "r2 = ROk" "tbl w2 = (tbl w)(MainDB := (tbl w MainDB)\<lparr>activities :=
        (activities (tbl w MainDB))(seed_id args \<mapsto> stored_activity dt ?a)\<rparr>)"
      using sql_ok [OF S2] w1 i by auto
    then show ?thesis
      using None by (simp add: seed_def S1 run_bindp AdminService_Create_def activityRepo_Create_def S2)
  next
    case (Some old)
    then obtain m where r2: "r2 = RErr (GoErr m)" "duplicate_text m"
      using sql_ok [OF S2] w1 i by auto
    have "tbl w2 = tbl w" using sql_duplicate [OF S2] w1 i Some by simp
    then show ?thesis
      using Some r2
      by (simp add: seed_def S1 run_bindp AdminService_Create_def activityRepo_Create_def S2 seed_duplicate
          fun_upd_idem)
  qed
  let ?act = "case ?old of Some old \<Rightarrow> old | None \<Rightarrow> stored_activity dt ?a"
  have "in64 (a_TotalStock ?act)"
    using assms i seed_stock_in64 by (auto simp: stored_activity_def split: option.splits)
  moreover have "activities (tbl w2 MainDB) (seed_id args) = Some ?act" using seeds by simp
  ultimately obtain w' where w': "run S (seed_warm (seed_id args) (seed_stock args)) w2 =
      (Some (Seeded (seed_id args) (seed_stock args) (a_TotalStock ?act)), w')"
    "stock_left (ks w') = (stock_left (ks w2))(seed_id args \<mapsto> a_TotalStock ?act)"
    "tbl w' = tbl w2" "log w' = log w2"
    using run_seed_warm [of w2 "seed_id args" ?act "seed_stock args"] by blast
  show ?thesis
    by (rule exI [of _ ?act], rule exI [of _ "val_int r"], rule exI [of _ w'])
       (use w' seeds f2 in \<open>simp split: option.split\<close>)
qed

end



end
