(* ===== verification/Config.thy ===== *)
theory Config
  imports Example "HOL-Library.Monad_Syntax"
begin

text \<open>
  \<open>internal/config/config.go\<close> and what the two servers' \<open>main\<close> functions make of a configuration.
  The code says which keys have which defaults, how keys map to environment variables and which
  struct field reads which key; how the sources are merged and values converted is viper's,
  a parameter of the model.
\<close>

section \<open>The configuration\<close>

text \<open>Durations are nanoseconds.\<close>

record HTTPConfig =
  h_Addr :: string
  h_ReadHeaderWait :: int
  h_ShutdownTimeout :: int

record MySQLConfig =
  q_DSN :: string
  q_MaxOpenConns :: int
  q_MaxIdleConns :: int
  q_ConnMaxLifetime :: int

record MySQLShardsConfig =
  d_DSNs :: "string list"
  d_MaxOpenConns :: int
  d_MaxIdleConns :: int

record RedisConfig =
  r_Addr :: string
  r_Password :: string
  r_DB :: int
  r_PoolSize :: int

record KafkaConfig =
  k_Brokers :: "string list"
  k_OrderTopic :: string
  k_DLQTopic :: string
  k_ConsumerGroup :: string
  k_ProduceTimeout :: int
  k_ConsumerBatchWait :: int

record RateLimitConfig =
  l_PerUserPerMinute :: int
  l_GlobalQPS :: int
  l_GlobalBurst :: int

record BreakerConfig =
  b_Name :: string
  b_MaxRequests :: int
  b_Interval :: int
  b_Timeout :: int
  b_FailureRatio :: rat

record OtelConfig =
  t_Enabled :: bool
  t_OTLPEndpoint :: string
  t_ServiceName :: string

record Config =
  cfg_HTTP :: HTTPConfig
  cfg_MySQL :: MySQLConfig
  cfg_Shards :: MySQLShardsConfig
  cfg_Redis :: RedisConfig
  cfg_Kafka :: KafkaConfig
  cfg_RateLimit :: RateLimitConfig
  cfg_Breaker :: BreakerConfig
  cfg_Otel :: OtelConfig
  cfg_Switches :: Switches

section \<open>Loading\<close>

datatype cval = VStr string | VInt int | VBool bool | VList "string list" | VFloat rat

text \<open>
  What the code sets on its viper instance: the prefix and the replacer of environment names,
  whether environment variables are looked up at all, the defaults, and the file to read.
\<close>

record Viper =
  v_EnvPrefix :: string
  v_AutomaticEnv :: bool
  v_EnvKeyReplacer :: "(char \<times> char) list"
  v_Defaults :: "(string \<times> cval) list"
  v_ConfigFile :: "string option"

text \<open>
  The library: reading the file, the value \<open>Unmarshal\<close> has for a key (none for a key it does
  not know), and mapstructure's conversions, \<open>None\<close> where they fail.
\<close>

record viper_lib =
  ReadInConfig :: "Viper \<Rightarrow> goerr option"
  resolve :: "Viper \<Rightarrow> string \<Rightarrow> cval option"
  weak_str :: "cval \<Rightarrow> string option"
  weak_int :: "cval \<Rightarrow> int option"
  weak_uint32 :: "cval \<Rightarrow> int option"
  weak_dur :: "cval \<Rightarrow> int option"
  weak_bool :: "cval \<Rightarrow> bool option"
  weak_list :: "cval \<Rightarrow> string list option"
  weak_float :: "cval \<Rightarrow> rat option"
  unmarshal_error :: "Viper \<Rightarrow> goerr"

definition second :: int where "second = 1000000000"

definition shard_dsn :: "string \<Rightarrow> string" where
  "shard_dsn db = ''flashdeal:flashdeal@tcp(127.0.0.1:3307)/'' @ db @ ''?parseTime=true&loc=Local''"

definition defaults :: "(string \<times> cval) list" where
  "defaults =
     [(''http.addr'', VStr '':8080''),
      (''http.read_header_wait'', VInt (5 * second)),
      (''http.shutdown_timeout'', VInt (10 * second)),
      (''mysql.dsn'', VStr (shard_dsn ''flashdeal'')),
      (''mysql.max_open_conns'', VInt 100),
      (''mysql.max_idle_conns'', VInt 50),
      (''mysql.conn_max_lifetime'', VInt (30 * minute)),
      (''redis.addr'', VStr ''127.0.0.1:6380''),
      (''redis.db'', VInt 0),
      (''redis.pool_size'', VInt 200),
      (''kafka.brokers'', VList [''127.0.0.1:9092'']),
      (''kafka.order_topic'', VStr ''seckill_orders''),
      (''kafka.dlq_topic'', VStr ''seckill_orders_dlq''),
      (''kafka.consumer_group'', VStr ''seckill-consumer''),
      (''kafka.produce_timeout'', VInt (2 * second)),
      (''kafka.consumer_batch_wait'', VInt (100 * millisecond)),
      (''shards.dsns'', VList [shard_dsn ''flashdeal_0'', shard_dsn ''flashdeal_1'',
                               shard_dsn ''flashdeal_2'', shard_dsn ''flashdeal_3'']),
      (''shards.max_open_conns'', VInt 50),
      (''shards.max_idle_conns'', VInt 25),
      (''rate_limit.per_user_per_minute'', VInt 5),
      (''rate_limit.global_qps'', VInt 100000),
      (''rate_limit.global_burst'', VInt 1000),
      (''breaker.name'', VStr ''mysql_orders''),
      (''breaker.max_requests'', VInt 5),
      (''breaker.interval'', VInt (60 * second)),
      (''breaker.timeout'', VInt (10 * second)),
      (''breaker.failure_ratio'', VFloat (1 / 2)),
      (''otel.enabled'', VBool True),
      (''otel.otlp_endpoint'', VStr ''127.0.0.1:4318''),
      (''otel.service_name'', VStr ''flash-deal-api''),
      (''switches.lua_stock'', VBool True),
      (''switches.kafka_order'', VBool True),
      (''switches.sharded_order'', VBool True),
      (''switches.rate_limit'', VBool True),
      (''switches.idempotency'', VBool True),
      (''switches.circuit_breaker'', VBool True),
      (''switches.tracing'', VBool True),
      (''switches.metrics'', VBool True)]"

text \<open>The struct fields and their keys; a key the library does not know leaves the zero value.\<close>

definition field :: "(cval \<Rightarrow> 'x option) \<Rightarrow> viper_lib \<Rightarrow> Viper \<Rightarrow> string \<Rightarrow> 'x \<Rightarrow> 'x option" where
  "field conv L V key zero = (case resolve L V key of None \<Rightarrow> Some zero | Some v \<Rightarrow> conv v)"

definition decode_http :: "viper_lib \<Rightarrow> Viper \<Rightarrow> HTTPConfig option" where
  "decode_http L V = do {
     x0 \<leftarrow> field (weak_str L) L V ''http.addr'' [];
     x1 \<leftarrow> field (weak_dur L) L V ''http.read_header_wait'' 0;
     x2 \<leftarrow> field (weak_dur L) L V ''http.shutdown_timeout'' 0;
     Some \<lparr>h_Addr = x0, h_ReadHeaderWait = x1, h_ShutdownTimeout = x2\<rparr> }"

definition decode_mysql :: "viper_lib \<Rightarrow> Viper \<Rightarrow> MySQLConfig option" where
  "decode_mysql L V = do {
     x0 \<leftarrow> field (weak_str L) L V ''mysql.dsn'' [];
     x1 \<leftarrow> field (weak_int L) L V ''mysql.max_open_conns'' 0;
     x2 \<leftarrow> field (weak_int L) L V ''mysql.max_idle_conns'' 0;
     x3 \<leftarrow> field (weak_dur L) L V ''mysql.conn_max_lifetime'' 0;
     Some \<lparr>q_DSN = x0, q_MaxOpenConns = x1, q_MaxIdleConns = x2,
       q_ConnMaxLifetime = x3\<rparr> }"

definition decode_shards :: "viper_lib \<Rightarrow> Viper \<Rightarrow> MySQLShardsConfig option" where
  "decode_shards L V = do {
     x0 \<leftarrow> field (weak_list L) L V ''shards.dsns'' [];
     x1 \<leftarrow> field (weak_int L) L V ''shards.max_open_conns'' 0;
     x2 \<leftarrow> field (weak_int L) L V ''shards.max_idle_conns'' 0;
     Some \<lparr>d_DSNs = x0, d_MaxOpenConns = x1, d_MaxIdleConns = x2\<rparr> }"

definition decode_redis :: "viper_lib \<Rightarrow> Viper \<Rightarrow> RedisConfig option" where
  "decode_redis L V = do {
     x0 \<leftarrow> field (weak_str L) L V ''redis.addr'' [];
     x1 \<leftarrow> field (weak_str L) L V ''redis.password'' [];
     x2 \<leftarrow> field (weak_int L) L V ''redis.db'' 0;
     x3 \<leftarrow> field (weak_int L) L V ''redis.pool_size'' 0;
     Some \<lparr>r_Addr = x0, r_Password = x1, r_DB = x2, r_PoolSize = x3\<rparr> }"

definition decode_kafka :: "viper_lib \<Rightarrow> Viper \<Rightarrow> KafkaConfig option" where
  "decode_kafka L V = do {
     x0 \<leftarrow> field (weak_list L) L V ''kafka.brokers'' [];
     x1 \<leftarrow> field (weak_str L) L V ''kafka.order_topic'' [];
     x2 \<leftarrow> field (weak_str L) L V ''kafka.dlq_topic'' [];
     x3 \<leftarrow> field (weak_str L) L V ''kafka.consumer_group'' [];
     x4 \<leftarrow> field (weak_dur L) L V ''kafka.produce_timeout'' 0;
     x5 \<leftarrow> field (weak_dur L) L V ''kafka.consumer_batch_wait'' 0;
     Some \<lparr>k_Brokers = x0, k_OrderTopic = x1, k_DLQTopic = x2,
       k_ConsumerGroup = x3, k_ProduceTimeout = x4, k_ConsumerBatchWait = x5\<rparr> }"

definition decode_rate_limit :: "viper_lib \<Rightarrow> Viper \<Rightarrow> RateLimitConfig option" where
  "decode_rate_limit L V = do {
     x0 \<leftarrow> field (weak_int L) L V ''rate_limit.per_user_per_minute'' 0;
     x1 \<leftarrow> field (weak_int L) L V ''rate_limit.global_qps'' 0;
     x2 \<leftarrow> field (weak_int L) L V ''rate_limit.global_burst'' 0;
     Some \<lparr>l_PerUserPerMinute = x0, l_GlobalQPS = x1, l_GlobalBurst = x2\<rparr> }"

definition decode_breaker :: "viper_lib \<Rightarrow> Viper \<Rightarrow> BreakerConfig option" where
  "decode_breaker L V = do {
     x0 \<leftarrow> field (weak_str L) L V ''breaker.name'' [];
     x1 \<leftarrow> field (weak_uint32 L) L V ''breaker.max_requests'' 0;
     x2 \<leftarrow> field (weak_dur L) L V ''breaker.interval'' 0;
     x3 \<leftarrow> field (weak_dur L) L V ''breaker.timeout'' 0;
     x4 \<leftarrow> field (weak_float L) L V ''breaker.failure_ratio'' 0;
     Some \<lparr>b_Name = x0, b_MaxRequests = x1, b_Interval = x2, b_Timeout = x3,
       b_FailureRatio = x4\<rparr> }"

definition decode_otel :: "viper_lib \<Rightarrow> Viper \<Rightarrow> OtelConfig option" where
  "decode_otel L V = do {
     x0 \<leftarrow> field (weak_bool L) L V ''otel.enabled'' False;
     x1 \<leftarrow> field (weak_str L) L V ''otel.otlp_endpoint'' [];
     x2 \<leftarrow> field (weak_str L) L V ''otel.service_name'' [];
     Some \<lparr>t_Enabled = x0, t_OTLPEndpoint = x1, t_ServiceName = x2\<rparr> }"

definition decode_switches :: "viper_lib \<Rightarrow> Viper \<Rightarrow> Switches option" where
  "decode_switches L V = do {
     x0 \<leftarrow> field (weak_bool L) L V ''switches.lua_stock'' False;
     x1 \<leftarrow> field (weak_bool L) L V ''switches.kafka_order'' False;
     x2 \<leftarrow> field (weak_bool L) L V ''switches.sharded_order'' False;
     x3 \<leftarrow> field (weak_bool L) L V ''switches.rate_limit'' False;
     x4 \<leftarrow> field (weak_bool L) L V ''switches.idempotency'' False;
     x5 \<leftarrow> field (weak_bool L) L V ''switches.circuit_breaker'' False;
     x6 \<leftarrow> field (weak_bool L) L V ''switches.tracing'' False;
     x7 \<leftarrow> field (weak_bool L) L V ''switches.metrics'' False;
     Some \<lparr>LuaStock = x0, KafkaOrder = x1, ShardedOrder = x2, RateLimit = x3,
       Idempotency = x4, CircuitBreaker = x5, Tracing = x6, Metrics = x7\<rparr> }"

definition decode_config :: "viper_lib \<Rightarrow> Viper \<Rightarrow> Config option" where
  "decode_config L V = do {
     http \<leftarrow> decode_http L V;
     mysql \<leftarrow> decode_mysql L V;
     shards \<leftarrow> decode_shards L V;
     redis \<leftarrow> decode_redis L V;
     kafka \<leftarrow> decode_kafka L V;
     rate_limit \<leftarrow> decode_rate_limit L V;
     breaker \<leftarrow> decode_breaker L V;
     otel \<leftarrow> decode_otel L V;
     switches \<leftarrow> decode_switches L V;
     Some \<lparr>cfg_HTTP = http, cfg_MySQL = mysql, cfg_Shards = shards, cfg_Redis = redis,
       cfg_Kafka = kafka, cfg_RateLimit = rate_limit, cfg_Breaker = breaker, cfg_Otel = otel,
       cfg_Switches = switches\<rparr> }"

definition viper_setup :: "string \<Rightarrow> Viper" where
  "viper_setup path =
     \<lparr>v_EnvPrefix = ''FD'', v_AutomaticEnv = True, v_EnvKeyReplacer = [(CHR ''.'', CHR ''_'')],
      v_Defaults = defaults, v_ConfigFile = (if path \<noteq> [] then Some path else None)\<rparr>"

definition Load :: "viper_lib \<Rightarrow> string \<Rightarrow> goerr + Config" where
  "Load L path =
     (let V = viper_setup path
      in case (if path \<noteq> [] then ReadInConfig L V else None) of
           Some err \<Rightarrow> Inl err
         | None \<Rightarrow>
             (case decode_config L V of
                None \<Rightarrow> Inl (unmarshal_error L V)
              | Some cfg \<Rightarrow> Inr cfg))"

section \<open>What the servers make of it\<close>

text \<open>
  \<open>cmd/api\<close> and \<open>cmd/consumer\<close>: one database per shard DSN when sharding is on; the topics,
  the limit and the switches go where the configuration says.  The global token bucket's size
  is the limiter's, a service call of the model.
\<close>

definition shards_of :: "Config \<Rightarrow> dbid list" where
  "shards_of cfg =
     (if ShardedOrder (cfg_Switches cfg) then map ShardDB [0..<length (d_DSNs (cfg_Shards cfg))] else [])"

definition api_of :: "Config \<Rightarrow> Api" where
  "api_of cfg =
     \<lparr>api_switches = cfg_Switches cfg, api_shards = shards_of cfg,
      api_OrderTopic = k_OrderTopic (cfg_Kafka cfg),
      api_PerUserPerMinute = l_PerUserPerMinute (cfg_RateLimit cfg)\<rparr>"

definition consumer_of :: "Config \<Rightarrow> Consumer" where
  "consumer_of cfg =
     order_consumer (cfg_Switches cfg) (shards_of cfg) (k_OrderTopic (cfg_Kafka cfg)) (k_DLQTopic (cfg_Kafka cfg))"

text \<open>What the consumer process tells the breaker.\<close>

definition breaker_setup :: "Config \<Rightarrow> BreakerSetup" where
  "breaker_setup cfg =
     \<lparr>cb_Name = b_Name (cfg_Breaker cfg), cb_MaxRequests = b_MaxRequests (cfg_Breaker cfg),
      cb_Interval = b_Interval (cfg_Breaker cfg), cb_Timeout = b_Timeout (cfg_Breaker cfg),
      cb_FailureRatio = b_FailureRatio (cfg_Breaker cfg)\<rparr>"

text \<open>The sweeper of the API process: none unless its environment variable lists activities.\<close>

definition sweeper_of :: "Config \<Rightarrow> string \<Rightarrow> (ReconcileService \<times> int list) option" where
  "sweeper_of cfg env =
     (if env \<noteq> [] then Some (api_reconcile (api_of cfg), parseInt64List env) else None)"

section \<open>The library's documented behaviour\<close>

text \<open>
  Environment names: prefix and key in upper case, the replacer applied.  With no file, a key
  that has a default takes the environment's value if that is set, else its default, and a key
  without one is not known to \<open>Unmarshal\<close>, whatever the environment holds.
\<close>

definition upper :: "char \<Rightarrow> char" where
  "upper c = (let n = of_char c :: nat in if 97 \<le> n \<and> n \<le> 122 then char_of (n - 32) else c)"

definition env_name :: "Viper \<Rightarrow> string \<Rightarrow> string" where
  "env_name V key =
     map (\<lambda>c. case map_of (v_EnvKeyReplacer V) c of None \<Rightarrow> c | Some d \<Rightarrow> d)
       (map upper (v_EnvPrefix V @ ''_'' @ key))"

definition viper_value :: "(string \<Rightarrow> string) \<Rightarrow> Viper \<Rightarrow> string \<Rightarrow> cval option" where
  "viper_value env V key =
     (case map_of (v_Defaults V) key of
        None \<Rightarrow> None
      | Some d \<Rightarrow>
          Some (if v_AutomaticEnv V \<and> env (env_name V key) \<noteq> [] then VStr (env (env_name V key)) else d))"

definition viper_law :: "(string \<Rightarrow> string) \<Rightarrow> viper_lib \<Rightarrow> bool" where
  "viper_law env L \<longleftrightarrow> (\<forall>V key. v_ConfigFile V = None \<longrightarrow> resolve L V key = viper_value env V key)"

text \<open>A value that already has the type of its field is kept.\<close>

definition typed_law :: "viper_lib \<Rightarrow> bool" where
  "typed_law L \<longleftrightarrow> (\<forall>s. weak_str L (VStr s) = Some s) \<and> (\<forall>i. in64 i \<longrightarrow> weak_int L (VInt i) = Some i) \<and>
     (\<forall>i. 0 \<le> i \<and> i < 2 ^ 32 \<longrightarrow> weak_uint32 L (VInt i) = Some i) \<and>
     (\<forall>i. in64 i \<longrightarrow> weak_dur L (VInt i) = Some i) \<and> (\<forall>b. weak_bool L (VBool b) = Some b) \<and>
     (\<forall>l. weak_list L (VList l) = Some l) \<and> (\<forall>x. weak_float L (VFloat x) = Some x)"

lemmas decode_config_defs = decode_config_def decode_http_def decode_mysql_def decode_shards_def
  decode_redis_def decode_kafka_def decode_rate_limit_def decode_breaker_def decode_otel_def
  decode_switches_def

lemma field_setup:
  assumes "viper_law env L"
  shows "field conv L (viper_setup []) key zero =
    (case map_of defaults key of None \<Rightarrow> Some zero
     | Some d \<Rightarrow> conv (if env (env_name (viper_setup []) key) \<noteq> [] then VStr (env (env_name (viper_setup []) key)) else d))"
  using assms by (simp add: viper_law_def viper_value_def field_def viper_setup_def split: option.split)

definition default_config :: Config where
  "default_config =
     \<lparr>cfg_HTTP = \<lparr>h_Addr = '':8080'', h_ReadHeaderWait = 5 * second, h_ShutdownTimeout = 10 * second\<rparr>,
      cfg_MySQL = \<lparr>q_DSN = shard_dsn ''flashdeal'', q_MaxOpenConns = 100, q_MaxIdleConns = 50,
        q_ConnMaxLifetime = 30 * minute\<rparr>,
      cfg_Shards = \<lparr>d_DSNs = [shard_dsn ''flashdeal_0'', shard_dsn ''flashdeal_1'',
        shard_dsn ''flashdeal_2'', shard_dsn ''flashdeal_3''], d_MaxOpenConns = 50, d_MaxIdleConns = 25\<rparr>,
      cfg_Redis = \<lparr>r_Addr = ''127.0.0.1:6380'', r_Password = [], r_DB = 0, r_PoolSize = 200\<rparr>,
      cfg_Kafka = \<lparr>k_Brokers = [''127.0.0.1:9092''], k_OrderTopic = ''seckill_orders'',
        k_DLQTopic = ''seckill_orders_dlq'', k_ConsumerGroup = ''seckill-consumer'',
        k_ProduceTimeout = 2 * second, k_ConsumerBatchWait = 100 * millisecond\<rparr>,
      cfg_RateLimit = \<lparr>l_PerUserPerMinute = 5, l_GlobalQPS = 100000, l_GlobalBurst = 1000\<rparr>,
      cfg_Breaker = \<lparr>b_Name = ''mysql_orders'', b_MaxRequests = 5, b_Interval = 60 * second,
        b_Timeout = 10 * second, b_FailureRatio = 1 / 2\<rparr>,
      cfg_Otel = \<lparr>t_Enabled = True, t_OTLPEndpoint = ''127.0.0.1:4318'', t_ServiceName = ''flash-deal-api''\<rparr>,
      cfg_Switches = all_on\<rparr>"

text \<open>An environment that sets none of the variables \<open>Load\<close> looks at leaves the defaults.\<close>

definition unset :: "(string \<Rightarrow> string) \<Rightarrow> bool" where
  "unset env \<longleftrightarrow> list_all (\<lambda>(key, d). env (env_name (viper_setup []) key) = []) defaults"

lemma unset_none [simp]: "unset (\<lambda>_. [])"
  by (simp add: unset_def list_all_iff)

lemma unset_password: "unset (\<lambda>n. if n = ''FD_REDIS_PASSWORD'' then pw else [])"
proof -
  have keys: "list_all (\<lambda>(key, d). length key \<noteq> 14 \<or> upper (hd key) \<noteq> CHR ''R'') defaults" by code_simp
  have "length key = 14 \<and> upper (hd key) = CHR ''R''" if "env_name (viper_setup []) key = ''FD_REDIS_PASSWORD''" for key
  proof -
    have "length (env_name (viper_setup []) key) = 17" using that by simp
    then have "length key = 14" by (simp add: env_name_def viper_setup_def)
    moreover have "upper (CHR ''R'') = CHR ''R''" by code_simp
    ultimately show ?thesis using that
      by (cases key) (auto simp: env_name_def viper_setup_def split: if_splits)
  qed
  then show ?thesis using keys by (fastforce simp: unset_def list_all_iff)
qed

lemma default_keys: "distinct (map fst defaults)"
  by code_simp

lemma default_loaded:
  assumes "viper_law env L" and "typed_law L" and "unset env"
  shows "Load L [] = Inr default_config"
proof -
  have small: "in64 (5 * second)" "in64 (10 * second)" "in64 (30 * minute)" "in64 (2 * second)"
    "in64 (100 * millisecond)" "in64 (60 * second)" "in64 100" "in64 50" "in64 0" "in64 200" "in64 25" "in64 5"
    "in64 100000" "in64 1000"
    by (simp_all add: second_def minute_def millisecond_def in64_def)
  have "list_all (\<lambda>(key, d). \<forall>conv z. field conv L (viper_setup []) key z = conv d) ds" if "ds = defaults" for ds
    using assms(3) default_keys that by (auto simp: field_setup [OF assms(1)] unset_def list_all_iff)
  note stored = this [OF defaults_def [symmetric], simplified list.pred_inject prod.case]
  have "map_of defaults ''redis.password'' = None" by (simp add: defaults_def)
  then have "field conv L (viper_setup []) ''redis.password'' z = Some z" for conv :: "cval \<Rightarrow> string option" and z
    by (simp add: field_setup [OF assms(1)])
  note rules = this stored small assms(2) [unfolded typed_law_def]
  have "decode_http L (viper_setup []) = Some (cfg_HTTP default_config)"
    "decode_mysql L (viper_setup []) = Some (cfg_MySQL default_config)"
    "decode_shards L (viper_setup []) = Some (cfg_Shards default_config)"
    "decode_redis L (viper_setup []) = Some (cfg_Redis default_config)"
    "decode_kafka L (viper_setup []) = Some (cfg_Kafka default_config)"
    "decode_rate_limit L (viper_setup []) = Some (cfg_RateLimit default_config)"
    "decode_breaker L (viper_setup []) = Some (cfg_Breaker default_config)"
    "decode_otel L (viper_setup []) = Some (cfg_Otel default_config)"
    "decode_switches L (viper_setup []) = Some (cfg_Switches default_config)"
    by (simp_all add: rules decode_config_defs default_config_def all_on_def)
  then show ?thesis by (simp add: Load_def decode_config_def)
qed

lemma default_wiring:
  "api_of default_config = ex_api"
  "consumer_of default_config = order_consumer all_on (api_shards ex_api) (api_OrderTopic ex_api) TopicSeckillDLQ"
  "TopicSeckillDLQ \<noteq> api_OrderTopic ex_api"
proof -
  show api: "api_of default_config = ex_api"
    by (simp add: api_of_def ex_api_def shards_of_def default_config_def all_on_def ex_shards_def
        TopicSeckillOrders_def upt_conv_Cons)
  have "cfg_Switches default_config = all_on" "TopicSeckillDLQ = k_DLQTopic (cfg_Kafka default_config)"
    by (simp_all add: default_config_def TopicSeckillDLQ_def)
  then show "consumer_of default_config =
      order_consumer all_on (api_shards ex_api) (api_OrderTopic ex_api) TopicSeckillDLQ"
    by (simp add: consumer_of_def api_of_def flip: api)
  show "TopicSeckillDLQ \<noteq> api_OrderTopic ex_api"
    by (simp add: ex_api_def TopicSeckillDLQ_def TopicSeckillOrders_def)
qed

text \<open>
  C38. Every default reaches the field it is meant for: with no file and nothing in the
  environment, \<open>Load\<close> returns the documented defaults in full; and the two servers they
  configure share shards and topic, with a dead-letter topic of its own.
\<close>

theorem Load_defaults:
  assumes "viper_law (\<lambda>_. []) L" and "typed_law L"
  shows "Load L [] = Inr default_config \<and> api_of default_config = ex_api \<and>
    consumer_of default_config = order_consumer all_on (api_shards ex_api) (api_OrderTopic ex_api) TopicSeckillDLQ \<and>
    TopicSeckillDLQ \<noteq> api_OrderTopic ex_api"
  using default_loaded [OF assms unset_none] default_wiring by blast

text \<open>A library that behaves as documented.\<close>

definition ex_viper :: "(string \<Rightarrow> string) \<Rightarrow> viper_lib" where
  "ex_viper env =
     \<lparr>ReadInConfig = (\<lambda>V. None), resolve = viper_value env,
      weak_str = (\<lambda>v. case v of VStr s \<Rightarrow> Some s | _ \<Rightarrow> None),
      weak_int = (\<lambda>v. case v of VInt i \<Rightarrow> Some i | VStr s \<Rightarrow> ParseInt s | _ \<Rightarrow> None),
      weak_uint32 = (\<lambda>v. case v of VInt i \<Rightarrow> Some i | VStr s \<Rightarrow> ParseInt s | _ \<Rightarrow> None),
      weak_dur = (\<lambda>v. case v of VInt i \<Rightarrow> Some i | _ \<Rightarrow> None),
      weak_bool = (\<lambda>v. case v of VBool b \<Rightarrow> Some b | VStr s \<Rightarrow> Some (s = ''true'') | _ \<Rightarrow> None),
      weak_list = (\<lambda>v. case v of VList l \<Rightarrow> Some l | VStr s \<Rightarrow> Some [s] | _ \<Rightarrow> None),
      weak_float = (\<lambda>v. case v of VFloat x \<Rightarrow> Some x | _ \<Rightarrow> None),
      unmarshal_error = (\<lambda>V. GoErr ''decoding failed'')\<rparr>"

lemma ex_viper_laws: "viper_law env (ex_viper env)" "typed_law (ex_viper env)"
  by (simp_all add: viper_law_def typed_law_def ex_viper_def)

theorem Load_defaults_witness: "Load (ex_viper (\<lambda>_. [])) [] = Inr default_config"
  using Load_defaults [OF ex_viper_laws] by blast



end
