(* ===== verification/Logger.thy ===== *)
theory Logger
  imports Runtime
begin

text \<open>
  \<open>internal/infra/logger/logger.go\<close>: the logger of a process, set up once.  The package's
  variables are the state; what zap's constructors answer is an argument.
\<close>

datatype Logger = DevelopmentLogger | ProductionLogger | NopLogger

record logger_vars =
  once :: bool
  current :: "Logger option"

definition unset_logger :: logger_vars where
  "unset_logger = \<lparr>once = False, current = None\<rparr>"

text \<open>
  \<open>Init\<close> runs its body only the first time, whether or not it succeeds then; a constructor that
  fails leaves the variable nil.
\<close>

definition logger_Init ::
  "goerr option \<Rightarrow> goerr option \<Rightarrow> string \<Rightarrow> logger_vars \<Rightarrow> (Logger option \<times> goerr option) \<times> logger_vars" where
  "logger_Init development production mode v =
     (if once v then ((current v, None), v)
      else
        (let (l, err) = (if mode = ''dev'' then (DevelopmentLogger, development) else (ProductionLogger, production));
             built = (case err of None \<Rightarrow> Some l | Some _ \<Rightarrow> None)
         in ((built, err), \<lparr>once = True, current = built\<rparr>)))"

definition logger_L :: "logger_vars \<Rightarrow> Logger" where
  "logger_L v = (case current v of None \<Rightarrow> NopLogger | Some l \<Rightarrow> l)"

lemma first_Init_error:
  "snd (fst (logger_Init development production mode unset_logger)) = (if mode = ''dev'' then development else production)"
  by (simp add: logger_Init_def unset_logger_def Let_def)

text \<open>Once set up, the logger stays, whatever mode a later call asks for.\<close>

lemma Init_once:
  assumes "logger_Init development production mode unset_logger = ((Some l, None), v)"
  shows "logger_Init development' production' mode' v = ((Some l, None), v) \<and> logger_L v = l"
  using assms by (auto simp: logger_Init_def unset_logger_def logger_L_def Let_def split: if_splits option.splits)

text \<open>A second call after one that failed reports no error, and a nil logger.\<close>

lemma second_Init_hides_error:
  assumes "logger_Init development production mode unset_logger = ((l, Some err), v)"
  shows "logger_Init development' production' mode' v = ((None, None), v) \<and> logger_L v = NopLogger"
  using assms by (auto simp: logger_Init_def unset_logger_def logger_L_def Let_def split: if_splits option.splits)

end
