(* ===== verification/Startup.thy ===== *)
theory Startup
  imports Config Logger
begin

text \<open>
  The \<open>main\<close> functions of \<open>cmd/api\<close> and \<open>cmd/consumer\<close>, from the environment to a serving process
  and back, and the connections \<open>cmd/seed\<close> opens, with the constructors of \<open>internal/infra\<close> they
  call.  What a process does is the list of its actions; the operating system and the client
  libraries decide which of them fail (\<open>host\<close>).
\<close>

section \<open>Starting and stopping\<close>

text \<open>The settings handed to kafka-go's \<open>Writer\<close> and \<open>Reader\<close>.\<close>

datatype balancer = HashBalancer
datatype acks = RequireAll

record Writer =
  w_Addr :: "string list"
  w_Balancer :: balancer
  w_AllowAutoTopicCreation :: bool
  w_BatchTimeout :: int
  w_RequiredAcks :: acks

record ReaderConfig =
  rd_Brokers :: "string list"
  rd_Topic :: string
  rd_GroupID :: string
  rd_MinBytes :: int
  rd_MaxBytes :: int
  rd_CommitInterval :: int
  rd_MaxWait :: int

definition order_writer :: "string list \<Rightarrow> Writer" where
  "order_writer brokers =
     \<lparr>w_Addr = brokers, w_Balancer = HashBalancer, w_AllowAutoTopicCreation = True,
      w_BatchTimeout = 10 * millisecond, w_RequiredAcks = RequireAll\<rparr>"

definition order_reader :: "string list \<Rightarrow> string \<Rightarrow> string \<Rightarrow> int \<Rightarrow> ReaderConfig" where
  "order_reader brokers topic groupID batchWait =
     \<lparr>rd_Brokers = brokers, rd_Topic = topic, rd_GroupID = groupID, rd_MinBytes = 1, rd_MaxBytes = 10000000,
      rd_CommitInterval = 0, rd_MaxWait = batchWait\<rparr>"

text \<open>What OpenTelemetry is set up with: the OTLP exporter's options, the provider's and the global propagator.\<close>

datatype sampler = AlwaysSample
datatype propagator = TraceContext

record exporter =
  exp_Endpoint :: string
  exp_Insecure :: bool

record TracerProvider =
  tp_Batcher :: exporter
  tp_Resource :: "(string \<times> string) list"
  tp_Sampler :: sampler

definition ServiceNameKey :: string where
  "ServiceNameKey = ''service.name''"

definition otlp_exporter :: "string \<Rightarrow> exporter" where
  "otlp_exporter endpoint = \<lparr>exp_Endpoint = endpoint, exp_Insecure = True\<rparr>"

definition otlp_provider :: "exporter \<Rightarrow> (string \<times> string) list \<Rightarrow> TracerProvider" where
  "otlp_provider e attributes = \<lparr>tp_Batcher = e, tp_Resource = attributes, tp_Sampler = AlwaysSample\<rparr>"

datatype action =
    SetProfiling
  | StartPprof string
  | InstallTracer TracerProvider propagator
  | OpenPool dbid MySQLConfig
  | ConnectRedis RedisConfig
  | MakeProducer Writer int
  | MakeLimiter int int
  | MakeBreaker BreakerSetup
  | MakeReader ReaderConfig
  | StartSweeper ReconcileService "int list" int
  | StartMetrics string
  | ListenHTTP Api string int
  | Consume Consumer
  | ShutdownHTTP int
  | CloseDB dbid
  | CloseRedis
  | CloseProducer
  | ShutdownTracer

text \<open>
  What the code cannot decide: the environment, and the error, if any, of each library call.
  \<open>serving\<close> is what \<open>ListenAndServe\<close> returned before a signal came, \<open>consumed\<close> what
  \<open>Consumer.Run\<close> returned.
\<close>

record host =
  Getenv :: "string \<Rightarrow> string"
  host_viper :: viper_lib
  NewDevelopment :: "goerr option"
  NewProduction :: "goerr option"
  otlptracehttp_New :: "exporter \<Rightarrow> goerr option"
  resource_New :: "(string \<times> string) list \<Rightarrow> goerr option"
  sqlx_Open :: "string \<Rightarrow> goerr option"
  serving :: "goerr option"
  consumed :: "goerr option"

text \<open>A process under way: its actions so far, and its deferred ones, the last deferred first.\<close>

record process =
  did :: "action list"
  deferred :: "action list"

type_synonym 'a boot = "process \<Rightarrow> (string + 'a) \<times> process"

definition returnb :: "'a \<Rightarrow> 'a boot" where
  "returnb a p = (Inr a, p)"

text \<open>\<open>log.Fatalf\<close> exits the process with this message; deferred calls do not run.\<close>

definition Fatalf :: "string \<Rightarrow> 'a boot" where
  "Fatalf msg p = (Inl msg, p)"

definition bindb :: "'a boot \<Rightarrow> ('a \<Rightarrow> 'b boot) \<Rightarrow> 'b boot" where
  "bindb m f p = (case m p of (Inl msg, p') \<Rightarrow> (Inl msg, p') | (Inr a, p') \<Rightarrow> f a p')"

definition act :: "action \<Rightarrow> unit boot" where
  "act x p = (Inr (), p\<lparr>did := did p @ [x]\<rparr>)"

definition defer_call :: "action \<Rightarrow> unit boot" where
  "defer_call x p = (Inr (), p\<lparr>deferred := x # deferred p\<rparr>)"

definition fatal_on :: "string \<Rightarrow> goerr option \<Rightarrow> unit boot" where
  "fatal_on what err = (case err of None \<Rightarrow> returnb () | Some e \<Rightarrow> Fatalf (what @ '': '' @ err_text e))"

text \<open>A whole process: the message it died with, or the actions up to its end, deferred ones included.\<close>

definition execute :: "unit boot \<Rightarrow> (string + unit) \<times> action list" where
  "execute m =
     (case m \<lparr>did = [], deferred = []\<rparr> of
        (Inl msg, p) \<Rightarrow> (Inl msg, did p)
      | (Inr u, p) \<Rightarrow> (Inr u, did p @ deferred p))"

section \<open>Constructors\<close>

definition init_logger :: "host \<Rightarrow> goerr option" where
  "init_logger h = snd (fst (logger_Init (NewDevelopment h) (NewProduction h) (Getenv h ''FD_LOG_MODE'') unset_logger))"

definition otel_Init :: "host \<Rightarrow> string \<Rightarrow> string \<Rightarrow> goerr option boot" where
  "otel_Init h endpoint serviceName =
     (let e = otlp_exporter endpoint; attributes = [(ServiceNameKey, serviceName)]
      in case otlptracehttp_New h e of
        Some err \<Rightarrow> returnb (Some err)
      | None \<Rightarrow>
          (case resource_New h attributes of
             Some err \<Rightarrow> returnb (Some err)
           | None \<Rightarrow>
               bindb (act (InstallTracer (otlp_provider e attributes) TraceContext)) (\<lambda>_. returnb None)))"

definition mysql_Open :: "host \<Rightarrow> dbid \<Rightarrow> MySQLConfig \<Rightarrow> goerr option boot" where
  "mysql_Open h db cfg =
     (case sqlx_Open h (q_DSN cfg) of
        Some err \<Rightarrow> returnb (Some err)
      | None \<Rightarrow> bindb (act (OpenPool db cfg)) (\<lambda>_. returnb None))"

definition redis_New :: "RedisConfig \<Rightarrow> unit boot" where
  "redis_New cfg = act (ConnectRedis cfg)"

definition NewProducer :: "string list \<Rightarrow> int \<Rightarrow> goerr option boot" where
  "NewProducer brokers produceTimeout = bindb (act (MakeProducer (order_writer brokers) produceTimeout)) (\<lambda>_. returnb None)"

definition NewReconcile :: "dbid list \<Rightarrow> dbid \<Rightarrow> ReconcileService" where
  "NewReconcile shards db = \<lparr>rs_shards = shards, rs_db = db\<rparr>"

section \<open>What both processes do\<close>

definition load_config :: "host \<Rightarrow> Config boot" where
  "load_config h =
     (case Load (host_viper h) (Getenv h ''FD_CONFIG_FILE'') of
        Inl err \<Rightarrow> Fatalf (''config: '' @ err_text err)
      | Inr cfg \<Rightarrow> bindb (fatal_on ''logger'' (init_logger h)) (\<lambda>_. returnb cfg))"

definition profiling :: "host \<Rightarrow> string \<Rightarrow> unit boot" where
  "profiling h addr =
     bindb (if Getenv h ''FD_PROFILE'' = ''1'' then act SetProfiling else returnb ()) (\<lambda>_.
       if Getenv h ''FD_PROFILE'' = ''1'' \<or> Getenv h ''FD_PPROF'' = ''1'' then act (StartPprof addr) else returnb ())"

definition tracing :: "host \<Rightarrow> Config \<Rightarrow> string \<Rightarrow> unit boot" where
  "tracing h cfg serviceName =
     (if Tracing (cfg_Switches cfg) \<and> t_Enabled (cfg_Otel cfg)
      then bindb (otel_Init h (t_OTLPEndpoint (cfg_Otel cfg)) serviceName) (\<lambda>err.
             case err of Some _ \<Rightarrow> returnb () | None \<Rightarrow> defer_call ShutdownTracer)
      else returnb ())"

definition open_db :: "host \<Rightarrow> string \<Rightarrow> dbid \<Rightarrow> MySQLConfig \<Rightarrow> unit boot" where
  "open_db h what db cfg =
     bindb (mysql_Open h db cfg) (\<lambda>err.
     bindb (fatal_on what err) (\<lambda>_. defer_call (CloseDB db)))"

fun open_each :: "host \<Rightarrow> string \<Rightarrow> Config \<Rightarrow> string list \<Rightarrow> dbid list \<Rightarrow> dbid list boot" where
  "open_each h what cfg [] shards = returnb shards"
| "open_each h what cfg (dsn # dsns) shards =
     bindb (open_db h (what @ dsn) (ShardDB (length shards))
              \<lparr>q_DSN = dsn, q_MaxOpenConns = d_MaxOpenConns (cfg_Shards cfg),
               q_MaxIdleConns = d_MaxIdleConns (cfg_Shards cfg),
               q_ConnMaxLifetime = q_ConnMaxLifetime (cfg_MySQL cfg)\<rparr>)
       (\<lambda>_. open_each h what cfg dsns (shards @ [ShardDB (length shards)]))"

definition open_shards :: "host \<Rightarrow> string \<Rightarrow> Config \<Rightarrow> dbid list boot" where
  "open_shards h what cfg =
     (if ShardedOrder (cfg_Switches cfg) then open_each h what cfg (d_DSNs (cfg_Shards cfg)) [] else returnb [])"

definition connect_redis :: "Config \<Rightarrow> unit boot" where
  "connect_redis cfg = bindb (redis_New (cfg_Redis cfg)) (\<lambda>_. defer_call CloseRedis)"

definition connect_producer :: "string \<Rightarrow> Config \<Rightarrow> unit boot" where
  "connect_producer what cfg =
     bindb (NewProducer (k_Brokers (cfg_Kafka cfg)) (k_ProduceTimeout (cfg_Kafka cfg))) (\<lambda>err.
     bindb (fatal_on what err) (\<lambda>_. defer_call CloseProducer))"

section \<open>The API process\<close>

definition api_server :: "Config \<Rightarrow> dbid list \<Rightarrow> Api" where
  "api_server cfg shards =
     \<lparr>api_switches = cfg_Switches cfg, api_shards = shards,
      api_OrderTopic = k_OrderTopic (cfg_Kafka cfg),
      api_PerUserPerMinute = l_PerUserPerMinute (cfg_RateLimit cfg)\<rparr>"

definition ErrServerClosed :: goerr where
  "ErrServerClosed = GoErr ''http: Server closed''"

definition start_sweeper :: "host \<Rightarrow> dbid list \<Rightarrow> unit boot" where
  "start_sweeper h shards =
     (let env = Getenv h ''FD_RECONCILE_ACTIVITY_IDS''
      in if env \<noteq> [] then act (StartSweeper (NewReconcile shards MainDB) (parseInt64List env) (5 * minute))
         else returnb ())"

definition serve_http :: "host \<Rightarrow> Config \<Rightarrow> dbid list \<Rightarrow> unit boot" where
  "serve_http h cfg shards =
     bindb (if RateLimit (cfg_Switches cfg)
            then act (MakeLimiter (l_GlobalQPS (cfg_RateLimit cfg)) (l_GlobalBurst (cfg_RateLimit cfg)))
            else returnb ()) (\<lambda>_.
     bindb (act (ListenHTTP (api_server cfg shards) (h_Addr (cfg_HTTP cfg)) (h_ReadHeaderWait (cfg_HTTP cfg)))) (\<lambda>_.
     bindb (fatal_on ''listen'' (case serving h of
              None \<Rightarrow> None
            | Some err \<Rightarrow> if errors_Is err ErrServerClosed then None else Some err)) (\<lambda>_.
       act (ShutdownHTTP (h_ShutdownTimeout (cfg_HTTP cfg))))))"

definition api_main :: "host \<Rightarrow> unit boot" where
  "api_main h =
     bindb (load_config h) (\<lambda>cfg.
     bindb (profiling h ''127.0.0.1:6060'') (\<lambda>_.
     bindb (tracing h cfg (t_ServiceName (cfg_Otel cfg))) (\<lambda>_.
     bindb (open_db h ''mysql open'' MainDB (cfg_MySQL cfg)) (\<lambda>_.
     bindb (open_shards h ''open shard '' cfg) (\<lambda>shards.
     bindb (connect_redis cfg) (\<lambda>_.
     bindb (if KafkaOrder (cfg_Switches cfg) then connect_producer ''kafka producer'' cfg else returnb ()) (\<lambda>_.
     bindb (start_sweeper h shards) (\<lambda>_.
       serve_http h cfg shards))))))))"

section \<open>The consumer process\<close>

definition NewConsumer :: "Config \<Rightarrow> dbid list \<Rightarrow> Consumer boot" where
  "NewConsumer cfg shards =
     bindb (act (MakeReader (order_reader (k_Brokers (cfg_Kafka cfg)) (k_OrderTopic (cfg_Kafka cfg))
              (k_ConsumerGroup (cfg_Kafka cfg)) (k_ConsumerBatchWait (cfg_Kafka cfg)))))
       (\<lambda>_. returnb (order_consumer (cfg_Switches cfg) shards (k_OrderTopic (cfg_Kafka cfg))
                       (k_DLQTopic (cfg_Kafka cfg))))"

definition run_consumer :: "host \<Rightarrow> Config \<Rightarrow> dbid list \<Rightarrow> unit boot" where
  "run_consumer h cfg shards =
     bindb (NewConsumer cfg shards) (\<lambda>c.
     bindb (if Metrics (cfg_Switches cfg) then act (StartMetrics '':8090'') else returnb ()) (\<lambda>_.
     bindb (act (Consume c)) (\<lambda>_.
       fatal_on ''run'' (consumed h))))"

definition consumer_main :: "host \<Rightarrow> unit boot" where
  "consumer_main h =
     bindb (load_config h) (\<lambda>cfg.
     bindb (profiling h ''127.0.0.1:6061'') (\<lambda>_.
     bindb (tracing h cfg ''flash-deal-consumer'') (\<lambda>_.
     bindb (open_db h ''mysql'' MainDB (cfg_MySQL cfg)) (\<lambda>_.
     bindb (open_shards h ''shard '' cfg) (\<lambda>shards.
     bindb (connect_redis cfg) (\<lambda>_.
     bindb (if CircuitBreaker (cfg_Switches cfg) then act (MakeBreaker (breaker_setup cfg)) else returnb ()) (\<lambda>_.
     bindb (connect_producer ''dlq producer'' cfg) (\<lambda>_.
       run_consumer h cfg shards))))))))"

section \<open>The seeding tool\<close>

text \<open>What \<open>cmd/seed\<close> sets up before it seeds (\<open>Seed\<close>): no logger, no shards, no Kafka.\<close>

definition seed_setup :: "host \<Rightarrow> unit boot" where
  "seed_setup h =
     (case Load (host_viper h) (Getenv h ''FD_CONFIG_FILE'') of
        Inl err \<Rightarrow> Fatalf (''config: '' @ err_text err)
      | Inr cfg \<Rightarrow> bindb (open_db h ''mysql'' MainDB (cfg_MySQL cfg)) (\<lambda>_. connect_redis cfg))"

section \<open>Reasoning about a start-up\<close>

text \<open>\<open>keeps I m Q\<close>: the step keeps the invariant, and what it returns satisfies \<open>Q\<close>.\<close>

definition keeps :: "(process \<Rightarrow> bool) \<Rightarrow> 'a boot \<Rightarrow> ('a \<Rightarrow> bool) \<Rightarrow> bool" where
  "keeps I m Q \<longleftrightarrow> (\<forall>p. I p \<longrightarrow> I (snd (m p)) \<and> (\<forall>a. fst (m p) = Inr a \<longrightarrow> Q a))"

lemma keeps_returnb [intro]: "Q a \<Longrightarrow> keeps I (returnb a) Q"
  by (simp add: keeps_def returnb_def)

lemma keeps_Fatalf [intro!]: "keeps I (Fatalf msg) Q"
  by (simp add: keeps_def Fatalf_def)

lemma keeps_fatal_on [intro!]: "keeps I (fatal_on what err) (\<lambda>_. True)"
  by (auto simp: fatal_on_def split: option.splits)

lemma keeps_bindb: "keeps I m P \<Longrightarrow> (\<And>a. P a \<Longrightarrow> keeps I (f a) Q) \<Longrightarrow> keeps I (bindb m f) Q"
  unfolding keeps_def bindb_def by (fastforce split: prod.splits sum.splits)

lemma keeps_act: "(\<And>p. I p \<Longrightarrow> I (p\<lparr>did := did p @ [x]\<rparr>)) \<Longrightarrow> keeps I (act x) (\<lambda>_. True)"
  by (simp add: keeps_def act_def)

lemma keeps_weaken: "keeps I m P \<Longrightarrow> (\<And>a. P a \<Longrightarrow> Q a) \<Longrightarrow> keeps I m Q"
  by (auto simp: keeps_def)

lemmas boot_defs = bindb_def returnb_def act_def defer_call_def fatal_on_def Fatalf_def

section \<open>Closing what was opened\<close>

fun closer :: "action \<Rightarrow> action option" where
  "closer (OpenPool db cfg) = Some (CloseDB db)"
| "closer (ConnectRedis cfg) = Some CloseRedis"
| "closer (MakeProducer writer t) = Some CloseProducer"
| "closer (InstallTracer provider prop) = Some ShutdownTracer"
| "closer x = None"

fun is_close :: "action \<Rightarrow> bool" where
  "is_close (CloseDB db) = True"
| "is_close CloseRedis = True"
| "is_close CloseProducer = True"
| "is_close ShutdownTracer = True"
| "is_close x = False"

text \<open>The deferred calls are the closers of what was opened, the last opened first.\<close>

definition closing :: "process \<Rightarrow> bool" where
  "closing p \<longleftrightarrow> deferred p = rev (List.map_filter closer (did p)) \<and> (\<forall>x\<in>set (did p). \<not> is_close x)"

lemma map_filter_append: "List.map_filter f (xs @ ys) = List.map_filter f xs @ List.map_filter f ys"
  by (induction xs) (auto simp: List.map_filter_simps split: option.splits)

lemma closing_act [intro!]: "closer x = None \<Longrightarrow> \<not> is_close x \<Longrightarrow> keeps closing (act x) (\<lambda>_. True)"
  by (rule keeps_act) (auto simp: closing_def map_filter_append List.map_filter_simps)

lemma closing_open_db [intro!]: "keeps closing (open_db h what db cfg) (\<lambda>_. True)"
  by (auto simp: keeps_def open_db_def mysql_Open_def boot_defs closing_def map_filter_append
      List.map_filter_simps split: option.splits)

lemma closing_redis [intro!]: "keeps closing (connect_redis cfg) (\<lambda>_. True)"
  by (auto simp: keeps_def connect_redis_def redis_New_def boot_defs closing_def map_filter_append List.map_filter_simps)

lemma closing_producer [intro!]: "keeps closing (connect_producer what cfg) (\<lambda>_. True)"
  by (auto simp: keeps_def connect_producer_def NewProducer_def boot_defs closing_def map_filter_append List.map_filter_simps)

lemma closing_tracing [intro!]: "keeps closing (tracing h cfg name) (\<lambda>_. True)"
  by (auto simp: keeps_def tracing_def otel_Init_def Let_def boot_defs closing_def map_filter_append List.map_filter_simps
      split: option.splits)

lemma closing_steps [intro!]:
  "keeps closing (load_config h) (\<lambda>_. True)"
  "keeps closing (profiling h addr) (\<lambda>_. True)"
  "keeps closing (start_sweeper h shards) (\<lambda>_. True)"
  by (auto simp: load_config_def profiling_def start_sweeper_def Let_def split: sum.splits
      intro!: keeps_bindb [where P = "\<lambda>_. True"] keeps_returnb)

lemma closing_open_each [intro!]: "keeps closing (open_each h what cfg dsns shards) (\<lambda>_. True)"
  by (induction dsns arbitrary: shards) (auto intro!: keeps_bindb [where P = "\<lambda>_. True"] keeps_returnb)

lemma closing_open_shards [intro!]: "keeps closing (open_shards h what cfg) (\<lambda>_. True)"
  by (auto simp: open_shards_def)

lemma closing_api_main: "keeps closing (api_main h) (\<lambda>_. True)"
  unfolding api_main_def serve_http_def
  by (auto intro!: keeps_bindb [where P = "\<lambda>_. True"] keeps_returnb)

lemma closing_consumer_main: "keeps closing (consumer_main h) (\<lambda>_. True)"
  unfolding consumer_main_def run_consumer_def NewConsumer_def
  by (auto intro!: keeps_bindb [where P = "\<lambda>_. True"] keeps_returnb)

lemma closing_seed_setup: "keeps closing (seed_setup h) (\<lambda>_. True)"
  unfolding seed_setup_def
  by (auto intro!: keeps_bindb [where P = "\<lambda>_. True"] split: sum.splits)

lemma closer_is_close: "closer x = Some y \<Longrightarrow> is_close y"
  by (cases x) auto

lemma execute_closes:
  assumes "keeps closing m (\<lambda>_. True)" and "execute m = (res, xs)"
  shows "filter is_close xs = (case res of Inl _ \<Rightarrow> [] | Inr _ \<Rightarrow> rev (List.map_filter closer xs))"
proof -
  obtain r p where m: "m \<lparr>did = [], deferred = []\<rparr> = (r, p)" by (cases "m \<lparr>did = [], deferred = []\<rparr>")
  have "closing \<lparr>did = [], deferred = []\<rparr>" by (simp add: closing_def List.map_filter_simps)
  then have c: "closing p" using assms(1) m unfolding keeps_def by (metis snd_conv)
  have none: "List.map_filter closer ys = []" if "\<forall>y\<in>set ys. is_close y" for ys
    using that by (induction ys) (auto simp: List.map_filter_simps split: option.splits elim: is_close.elims)
  have closed: "\<forall>y\<in>set (deferred p). is_close y"
    using c by (auto simp: closing_def map_filter_def closer_is_close)
  show ?thesis
    using assms(2) m c closed none [OF closed]
    by (auto simp: execute_def closing_def map_filter_append filter_id_conv split: sum.splits)
qed


section \<open>What a process runs\<close>

text \<open>The programs an action starts: the requests of a server, the loops of consumer and sweeper.\<close>

fun programs :: "wire \<Rightarrow> action \<Rightarrow> unit prog set" where
  "programs W (ListenHTTP A addr t) = {bindp (serve W A rt c) (\<lambda>_. Ret ()) | rt c. True}"
| "programs W (Consume c) = {bindp (Run fuel c) (\<lambda>_. Ret ()) | fuel. True}"
| "programs W (StartSweeper s ids t) = {bindp (reconcile_Run fuel s ids) (\<lambda>_. Ret ()) | fuel. True}"
| "programs W x = {}"

text \<open>Every action so far is one of those allowed.\<close>

definition only :: "(action \<Rightarrow> bool) \<Rightarrow> process \<Rightarrow> bool" where
  "only P p \<longleftrightarrow> (\<forall>x\<in>set (did p) \<union> set (deferred p). P x)"

lemma only_act [intro!]: "P x \<Longrightarrow> keeps (only P) (act x) (\<lambda>_. True)"
  by (rule keeps_act) (auto simp: only_def)

lemma only_defer [intro!]: "P x \<Longrightarrow> keeps (only P) (defer_call x) (\<lambda>_. True)"
  by (auto simp: keeps_def defer_call_def only_def)

lemma execute_only:
  assumes "keeps (only P) m Q" and "x \<in> set (snd (execute m))"
  shows "P x"
proof -
  have "only P (snd (m \<lparr>did = [], deferred = []\<rparr>))"
    using assms(1) unfolding keeps_def by (metis (no_types, lifting) UnE only_def empty_iff list.set(1) process.select_convs)
  then show ?thesis using assms(2) by (auto simp: execute_def only_def split: prod.splits sum.splits)
qed

text \<open>Actions that start no program are allowed here.\<close>

locale silent_steps =
  fixes P :: "action \<Rightarrow> bool"
  assumes silent: "(\<And>W. programs W x = {}) \<Longrightarrow> P x"
begin

lemma setup_steps:
  "keeps (only P) (profiling h addr) (\<lambda>_. True)"
  "keeps (only P) (tracing h cfg name) (\<lambda>_. True)"
  "keeps (only P) (open_db h what db mcfg) (\<lambda>_. True)"
  "keeps (only P) (connect_redis cfg) (\<lambda>_. True)"
  "keeps (only P) (connect_producer what cfg) (\<lambda>_. True)"
  by (auto simp: profiling_def tracing_def otel_Init_def Let_def open_db_def mysql_Open_def connect_redis_def redis_New_def
      connect_producer_def NewProducer_def split: option.splits
      intro!: keeps_bindb [where P = "\<lambda>_. True"] keeps_returnb silent)

lemma load_step:
  "keeps (only P) (load_config h) (\<lambda>cfg. Load (host_viper h) (Getenv h ''FD_CONFIG_FILE'') = Inr cfg)"
  by (auto simp: load_config_def split: sum.splits intro!: keeps_bindb [where P = "\<lambda>_. True"] keeps_returnb)

lemma open_each_step:
  "shards = map ShardDB [0..<length shards] \<Longrightarrow>
     keeps (only P) (open_each h what cfg dsns shards)
       (\<lambda>opened. opened = map ShardDB [0..<length shards + length dsns])"
proof (induction dsns arbitrary: shards)
  case (Cons dsn dsns)
  have "shards @ [ShardDB (length shards)] = map ShardDB [0..<length (shards @ [ShardDB (length shards)])]"
    using Cons.prems by simp
  from Cons.IH [OF this] show ?case
    by (auto intro!: keeps_bindb [where P = "\<lambda>_. True"] setup_steps)
qed auto

lemma open_shards_step: "keeps (only P) (open_shards h what cfg) (\<lambda>shards. shards = shards_of cfg)"
  using open_each_step [of "[]" h what cfg "d_DSNs (cfg_Shards cfg)"]
  by (auto simp: open_shards_def shards_of_def)

end

interpretation deployment: silent_steps "\<lambda>x. programs W x \<subseteq> deployed W A dlq allowed" for W A dlq allowed
  by unfold_locales simp

lemma api_server_of: "api_server cfg (shards_of cfg) = api_of cfg"
  by (simp add: api_server_def api_of_def)

lemma api_main_deployed:
  assumes "Load (host_viper h) (Getenv h ''FD_CONFIG_FILE'') = Inr cfg"
  shows "keeps (only (\<lambda>x. programs W x \<subseteq> deployed W (api_of cfg) dlq (\<lambda>_. True))) (api_main h) (\<lambda>_. True)"
    (is "keeps ?I _ _")
proof -
  have sweeper: "keeps ?I (start_sweeper h shards) (\<lambda>_. True)" for shards
    by (auto simp: start_sweeper_def Let_def intro!: keeps_returnb deployed.sweeper)
  have "bindp (serve W (api_of cfg) rt c) (\<lambda>_. Ret ()) \<in> deployed W (api_of cfg) dlq (\<lambda>_. True)" for rt c
    by (rule deployed.request) simp
  then have "keeps ?I (serve_http h cfg (shards_of cfg)) (\<lambda>_. True)"
    unfolding serve_http_def api_server_of
    by (auto intro!: keeps_bindb [where P = "\<lambda>_. True"] keeps_returnb)
  then show ?thesis
    unfolding api_main_def using assms
    by (auto intro!: keeps_bindb [OF deployment.load_step] keeps_bindb [OF deployment.setup_steps(1)]
        keeps_bindb [OF deployment.setup_steps(2)] keeps_bindb [OF deployment.setup_steps(3)]
        keeps_bindb [OF deployment.open_shards_step] keeps_bindb [OF deployment.setup_steps(4)]
        keeps_bindb [where P = "\<lambda>_. True" and f = "\<lambda>_. bindb (start_sweeper h s) g" for s g]
        keeps_bindb [OF sweeper] deployment.setup_steps keeps_returnb)
qed

lemma consumer_main_deployed:
  assumes "Load (host_viper h) (Getenv h ''FD_CONFIG_FILE'') = Inr cfg" and "KafkaOrder (cfg_Switches cfg)"
  shows "keeps (only (\<lambda>x. programs W x \<subseteq> deployed W (api_of cfg) (k_DLQTopic (cfg_Kafka cfg)) (\<lambda>_. True)))
    (consumer_main h) (\<lambda>_. True)" (is "keeps ?I _ _")
proof -
  let ?c = "order_consumer (cfg_Switches cfg) (shards_of cfg) (k_OrderTopic (cfg_Kafka cfg)) (k_DLQTopic (cfg_Kafka cfg))"
  have new: "keeps ?I (NewConsumer cfg (shards_of cfg)) (\<lambda>c. c = ?c)"
    unfolding NewConsumer_def by (auto intro!: keeps_bindb [where P = "\<lambda>_. True"] keeps_returnb)
  have "bindp (Run fuel ?c) (\<lambda>_. Ret ()) \<in> deployed W (api_of cfg) (k_DLQTopic (cfg_Kafka cfg)) (\<lambda>_. True)" for fuel
    using deployed.consumer [of "api_of cfg" fuel "k_DLQTopic (cfg_Kafka cfg)"] assms(2) by (simp add: api_of_def)
  then have run: "keeps ?I (act (Consume ?c)) (\<lambda>_. True)" by auto
  have tail: "keeps ?I (run_consumer h cfg (shards_of cfg)) (\<lambda>_. True)"
    unfolding run_consumer_def
    by (rule keeps_bindb [OF new]) (auto intro!: keeps_bindb [where P = "\<lambda>_. True"] keeps_returnb run)
  show ?thesis
    unfolding consumer_main_def using assms(1)
    by (auto intro!: keeps_bindb [OF deployment.load_step] keeps_bindb [OF deployment.setup_steps(1)]
        keeps_bindb [OF deployment.setup_steps(2)] keeps_bindb [OF deployment.setup_steps(3)]
        keeps_bindb [OF deployment.open_shards_step] keeps_bindb [OF deployment.setup_steps(4)]
        keeps_bindb [OF deployment.setup_steps(5)] tail keeps_bindb [where P = "\<lambda>_. True"] keeps_returnb)
qed

text \<open>
  C13. The deployment the other theorems speak of is the one the binaries start.  Whatever the
  hosts answer, the requests, sweeper rounds and consumer rounds of processes started with one
  configuration, orders through Kafka, are programs of \<open>deployed\<close> for that configuration's
  server, with its dead-letter topic.
\<close>

theorem processes_deployed:
  assumes "Load (host_viper ha) (Getenv ha ''FD_CONFIG_FILE'') = Inr cfg"
    and "Load (host_viper hc) (Getenv hc ''FD_CONFIG_FILE'') = Inr cfg"
    and "KafkaOrder (cfg_Switches cfg)"
    and "x \<in> set (snd (execute (api_main ha))) \<union> set (snd (execute (consumer_main hc)))"
  shows "programs W x \<subseteq> deployed W (api_of cfg) (k_DLQTopic (cfg_Kafka cfg)) (\<lambda>_. True)"
  using assms(4) execute_only [OF api_main_deployed [OF assms(1)]]
    execute_only [OF consumer_main_deployed [OF assms(2,3)]] by blast

section \<open>When a process comes up\<close>

lemma open_each_ok:
  assumes "\<forall>dsn\<in>set dsns. sqlx_Open h dsn = None" and "shards = map ShardDB [0..<length shards]"
  shows "\<exists>p'. open_each h what cfg dsns shards p = (Inr (map ShardDB [0..<length shards + length dsns]), p')"
  using assms
proof (induction dsns arbitrary: shards p)
  case (Cons dsn dsns)
  have "shards @ [ShardDB (length shards)] = map ShardDB [0..<length (shards @ [ShardDB (length shards)])]"
    using Cons.prems(2) by simp
  from Cons.IH [OF _ this] Cons.prems(1) show ?case
    by (simp add: open_db_def mysql_Open_def boot_defs)
qed (simp add: boot_defs)

lemma open_shards_ok:
  assumes "ShardedOrder (cfg_Switches cfg) \<longrightarrow> (\<forall>dsn\<in>set (d_DSNs (cfg_Shards cfg)). sqlx_Open h dsn = None)"
  shows "\<exists>p'. open_shards h what cfg p = (Inr (shards_of cfg), p')"
  using assms open_each_ok [of "d_DSNs (cfg_Shards cfg)" h "[]"]
  by (simp add: open_shards_def shards_of_def returnb_def)

lemma profiling_ok: "\<exists>p'. profiling h addr p = (Inr (), p')"
  by (cases "Getenv h ''FD_PROFILE'' = ''1''") (simp_all add: profiling_def boot_defs)

lemma tracing_ok: "\<exists>p'. tracing h cfg name p = (Inr (), p')"
  by (auto simp: tracing_def otel_Init_def Let_def boot_defs split: option.splits)

definition ready :: "host \<Rightarrow> Config \<Rightarrow> bool" where
  "ready h cfg \<longleftrightarrow> Load (host_viper h) (Getenv h ''FD_CONFIG_FILE'') = Inr cfg \<and>
     init_logger h = None \<and> sqlx_Open h (q_DSN (cfg_MySQL cfg)) = None \<and>
     (ShardedOrder (cfg_Switches cfg) \<longrightarrow> (\<forall>dsn\<in>set (d_DSNs (cfg_Shards cfg)). sqlx_Open h dsn = None))"

lemma api_main_up:
  assumes "ready h cfg"
  shows "\<exists>p'. api_main h p = serve_http h cfg (shards_of cfg) p'"
proof -
  have load: "load_config h p = (Inr cfg, p)" for p
    using assms by (simp add: ready_def load_config_def boot_defs)
  obtain p1 where p1: "profiling h ''127.0.0.1:6060'' p = (Inr (), p1)" using profiling_ok by blast
  obtain p2 where p2: "tracing h cfg (t_ServiceName (cfg_Otel cfg)) p1 = (Inr (), p2)" using tracing_ok by blast
  obtain p3 where p3: "open_db h ''mysql open'' MainDB (cfg_MySQL cfg) p2 = (Inr (), p3)"
    using assms by (auto simp: ready_def open_db_def mysql_Open_def boot_defs)
  obtain p4 where p4: "open_shards h ''open shard '' cfg p3 = (Inr (shards_of cfg), p4)"
    using open_shards_ok assms by (metis ready_def)
  show ?thesis
    using load p1 p2 p3 p4
    by (simp add: api_main_def bindb_def connect_redis_def redis_New_def connect_producer_def NewProducer_def
        start_sweeper_def Let_def boot_defs) (auto split: if_splits)
qed

lemma consumer_main_up:
  assumes "ready h cfg"
  shows "\<exists>p'. consumer_main h p = run_consumer h cfg (shards_of cfg) p'"
proof -
  have load: "load_config h p = (Inr cfg, p)" for p
    using assms by (simp add: ready_def load_config_def boot_defs)
  obtain p1 where p1: "profiling h ''127.0.0.1:6061'' p = (Inr (), p1)" using profiling_ok by blast
  obtain p2 where p2: "tracing h cfg ''flash-deal-consumer'' p1 = (Inr (), p2)" using tracing_ok by blast
  obtain p3 where p3: "open_db h ''mysql'' MainDB (cfg_MySQL cfg) p2 = (Inr (), p3)"
    using assms by (auto simp: ready_def open_db_def mysql_Open_def boot_defs)
  obtain p4 where p4: "open_shards h ''shard '' cfg p3 = (Inr (shards_of cfg), p4)"
    using open_shards_ok assms by (metis ready_def)
  show ?thesis
    using load p1 p2 p3 p4
    by (simp add: consumer_main_def bindb_def connect_redis_def redis_New_def connect_producer_def NewProducer_def
        boot_defs) (auto split: if_splits)
qed


section \<open>An example host\<close>

text \<open>No environment, no file, and a trace collector that cannot be reached.\<close>

definition ex_host :: host where
  "ex_host =
     \<lparr>Getenv = (\<lambda>_. []), host_viper = ex_viper (\<lambda>_. []), NewDevelopment = None, NewProduction = None,
      otlptracehttp_New = (\<lambda>_. Some (GoErr ''connection refused'')), resource_New = (\<lambda>_. None),
      sqlx_Open = (\<lambda>_. None), serving = None, consumed = None\<rparr>"

lemma ex_host_loads: "Load (host_viper ex_host) (Getenv ex_host ''FD_CONFIG_FILE'') = Inr default_config"
  using default_loaded [OF ex_viper_laws] by (simp add: ex_host_def)

lemma ex_host_ready: "ready ex_host default_config"
  using ex_host_loads by (simp add: ready_def) (simp add: ex_host_def init_logger_def first_Init_error)


theorem processes_deployed_witness:
  "programs ex_wire (Consume (consumer_of default_config)) \<subseteq> deployed ex_wire ex_api TopicSeckillDLQ (\<lambda>_. True)"
proof -
  obtain p where p: "consumer_main ex_host \<lparr>did = [], deferred = []\<rparr> = run_consumer ex_host default_config (shards_of default_config) p"
    using consumer_main_up [OF ex_host_ready] by blast
  then have "Consume (consumer_of default_config) \<in> set (snd (execute (consumer_main ex_host)))"
    by (simp add: execute_def run_consumer_def NewConsumer_def boot_defs consumer_of_def split: option.splits)
  then show ?thesis
    using processes_deployed [OF ex_host_loads ex_host_loads, of "Consume (consumer_of default_config)" ex_wire]
      default_wiring by (simp add: default_config_def all_on_def TopicSeckillDLQ_def)
qed

end
