(* ===== verification/Journey.thy ===== *)
theory Journey
  imports Web
begin

text \<open>
  The whole journey of an order: a request that was answered queued left one message; whenever
  the consumer gets to it, the order is in the tables and its queue token resolves to it.
\<close>

lemma insert_db_total:
  assumes "in64 (int (length shards))"
  shows "\<exists>d. insert_db sw shards x = Some d"
  using assms shard_of_total [of shards "o_UserID x"] by (auto simp: insert_db_def)

context reliable_services begin

text \<open>A message that decodes is materialized by the first attempt and committed.\<close>

lemma run_process:
  assumes "UnmarshalOrderMessage v = (m, None)" and "insert_db sw shards (order_of m) = Some d"
  obtains stop w' where "run S (process_message (order_consumer sw shards topic dlq) (KMsg n v)) w = (Some stop, w')"
    "tbl w' = (if order_conflict coll (order_of m) (orders_0 (tbl w d)) then tbl w
               else with_row dt d (order_of m) (tbl w))"
    "ks w' = (ks w)(queue_key (m_QueueToken m) \<mapsto> (''success:'' @ show_int (m_OrderID m), Some hour))"
    "log w' = log w"
    "\<exists>r w1. S (KCommit (KMsg n v)) w1 = (r, w') \<and> stop = as_unit r"
proof -
  obtain w1 where h: "run S (Handle (materializer sw shards) m) w = (Some None, w1)"
    "tbl w1 = (if order_conflict coll (order_of m) (orders_0 (tbl w d)) then tbl w
               else with_row dt d (order_of m) (tbl w))"
    "ks w1 = (ks w)(queue_key (m_QueueToken m) \<mapsto> (''success:'' @ show_int (m_OrderID m), Some hour))"
    "log w1 = log w"
    by (rule run_Handle [OF assms(2), of w])
  obtain r w2 where c: "S (KCommit (KMsg n v)) w1 = (r, w2)" by (cases "S (KCommit (KMsg n v)) w1")
  have "run S (process_message (order_consumer sw shards topic dlq) (KMsg n v)) w = (Some (as_unit r), w2)"
    using h(1) c assms(1)
    by (simp add: process_message_def order_consumer_def retry_def attempts_from.simps [of _ 0] run_bindp)
  moreover have "ks w2 = ks w1" "tbl w2 = tbl w1" "log w2 = log w1" using local_frame [OF c] by simp_all
  ultimately show thesis using that h c by auto
qed

lemma conflict_row:
  "order_conflict coll x (orders_0 (tbl w d)) \<Longrightarrow>
     \<exists>y\<in>set (orders_0 (tbl w d)). o_ID y = o_ID x \<or> uk_idem coll y = uk_idem coll x"
  by (simp add: order_conflict_def)

lemma queued_completes:
  assumes sw: "LuaStock (api_switches A)" "KafkaOrder (api_switches A)" and "counters_ok (ks w)"
    and rq: "in64 (rq_ActivityID req)" "in64 (rq_UserID req)" and shards: "in64 (int (length (api_shards A)))"
    and row: "\<forall>act. activities (tbl w MainDB) (rq_ActivityID req) = Some act \<longrightarrow>
      small (a_PerUserLimit act) \<and> in64 (a_ProductID act)"
    and queued: "run S (api_seckill A req) w = (Some (out, err), w1)" "out_Outcome out = OutcomeQueued"
  shows "\<exists>v m d. log w1 = (log w)(api_OrderTopic A := log w (api_OrderTopic A) @ [v]) \<and>
    m_ActivityID m = rq_ActivityID req \<and> m_UserID m = rq_UserID req \<and>
    m_IdempotencyToken m = rq_IdempotencyToken req \<and> m_QueueToken m = out_QueueToken out \<and>
    insert_db (api_switches A) (api_shards A) (order_of m) = Some d \<and>
    (\<forall>n w2. \<exists>stop w3.
      run S (process_message (order_consumer (api_switches A) (api_shards A) (api_OrderTopic A) dlq) (KMsg n v)) w2
        = (Some stop, w3) \<and>
      (\<exists>y\<in>set (orders_0 (tbl w3 d)). o_ID y = m_OrderID m \<or> uk_idem coll y = uk_idem coll (order_of m)) \<and>
      ks w3 (queue_key (out_QueueToken out)) = Some (''success:'' @ show_int (m_OrderID m), Some hour))"
proof -
  let ?sw = "api_switches A" and ?sh = "api_shards A" and ?topic = "api_OrderTopic A"
  obtain act m v where act: "activities (tbl w MainDB) (rq_ActivityID req) = Some act"
    and v: "Marshal m = Inr v" and m: "message_of req act (out_QueueToken out) m"
    and L: "log w1 = (log w)(?topic := log w ?topic @ [v])"
    using run_Seckill [OF sw assms(3), of req ?sh ?topic] row queued
    by (auto simp: api_seckill_def)
  have "message_in64 m"
    using m rq row act by (auto simp: message_of_def message_in64_def in64_def)
  then have u: "UnmarshalOrderMessage v = (m, None)" using v by (rule Unmarshal_Marshal)
  obtain d where d: "insert_db ?sw ?sh (order_of m) = Some d" using insert_db_total [OF shards] by blast
  have "\<exists>stop w3. run S (process_message (order_consumer ?sw ?sh ?topic dlq) (KMsg n v)) w2 = (Some stop, w3) \<and>
      (\<exists>y\<in>set (orders_0 (tbl w3 d)). o_ID y = m_OrderID m \<or> uk_idem coll y = uk_idem coll (order_of m)) \<and>
      ks w3 (queue_key (out_QueueToken out)) = Some (''success:'' @ show_int (m_OrderID m), Some hour)" for n w2
  proof -
    obtain stop w3 where w3: "run S (process_message (order_consumer ?sw ?sh ?topic dlq) (KMsg n v)) w2 = (Some stop, w3)"
      "tbl w3 = (if order_conflict coll (order_of m) (orders_0 (tbl w2 d)) then tbl w2
               else with_row dt d (order_of m) (tbl w2))"
      "ks w3 = (ks w2)(queue_key (m_QueueToken m) \<mapsto> (''success:'' @ show_int (m_OrderID m), Some hour))"
      by (rule run_process [OF u d, of ?topic dlq n w2])
    have "\<exists>y\<in>set (orders_0 (tbl w3 d)). o_ID y = m_OrderID m \<or> uk_idem coll y = uk_idem coll (order_of m)"
      using w3(2) by (auto simp: order_conflict_def with_row_def stored_order_def order_of_def)
    then show ?thesis using w3 m by (auto simp: message_of_def)
  qed
  then show ?thesis using L m d by (auto simp: message_of_def)
qed

end



end
