(* ===== verification/Drain.thy ===== *)
theory Drain
  imports Journey
begin

text \<open>
  The consumer empties its topic.  Kafka's consumer group is made explicit: where the group stands
  in the topic, and that a fetch hands out the next message.  On such services, which do not fail,
  the consumer loop ends with every message of the topic materialized.
\<close>

section \<open>A consumer group\<close>

text \<open>
  \<open>pos w topic\<close> is the position of the group: a fetch takes the message there, and fails when
  there is none (in the code it waits; what it waits for is another deployment's state); commits
  succeed and the context is not cancelled.
\<close>

locale topic_group = working_services +
  fixes pos :: "'a \<Rightarrow> string \<Rightarrow> nat"
  assumes fetch_next: "S (KFetch topic) w = (r, w') \<Longrightarrow> pos w topic < length (log w topic) \<Longrightarrow>
      (\<exists>off. r = RMsg (KMsg off (log w topic ! pos w topic))) \<and> pos w' topic = Suc (pos w topic)"
    and fetch_end: "S (KFetch topic) w = (r, w') \<Longrightarrow> \<not> pos w topic < length (log w topic) \<Longrightarrow>
      (\<exists>m. r = RErr (GoErr m)) \<and> pos w' = pos w"
    and pos_frame: "S c w = (r, w') \<Longrightarrow> \<not> (\<exists>topic. c = KFetch topic) \<Longrightarrow> pos w' = pos w"
    and commit_ok: "S (KCommit m) w = (r, w') \<Longrightarrow> r = ROk"
    and not_cancelled: "S CtxDone w = (r, w') \<Longrightarrow> r = RBool False"

locale group_services = topic_group + reliable_services

lemma makes_conj: "makes P p \<Longrightarrow> makes Q p \<Longrightarrow> makes (\<lambda>c. P c \<and> Q c) p"
  by (induction p) auto

definition rows_kept :: "(dbid \<Rightarrow> tables) \<Rightarrow> (dbid \<Rightarrow> tables) \<Rightarrow> bool" where
  "rows_kept t t' \<longleftrightarrow> (\<forall>d. \<exists>xs. orders_0 (t' d) = orders_0 (t d) @ xs)"

lemma rows_kept_refl [simp]: "rows_kept t t"
  by (simp add: rows_kept_def)

lemma rows_kept_trans [trans]: "rows_kept t t' \<Longrightarrow> rows_kept t' t'' \<Longrightarrow> rows_kept t t''"
  unfolding rows_kept_def by (metis append.assoc)

lemma rows_kept_row: "rows_kept t t' \<Longrightarrow> y \<in> set (orders_0 (t d)) \<Longrightarrow> y \<in> set (orders_0 (t' d))"
  unfolding rows_kept_def by (metis UnCI set_append)

section \<open>Dead letters end\<close>

primrec calm :: "'a prog \<Rightarrow> bool" where
  "calm (Ret a) = True"
| "calm Panic = False"
| "calm (Call c k) = (\<forall>r. calm (k r))"

lemma calm_bindp: "calm p \<Longrightarrow> (\<And>a. calm (f a)) \<Longrightarrow> calm (bindp p f)"
  by (induction p) auto

lemma calm_returns: "calm p \<Longrightarrow> \<exists>a w'. run S p w = (Some a, w')"
  by (induction p arbitrary: w) (auto split: prod.splits)

lemma calm_consumer_dlq: "calm (consumer_dlq dlq raw reason)"
  by (auto simp: consumer_dlq_def MarkFailed_def SendOrder_def intro!: calm_bindp split: prod.splits sum.splits)

section \<open>What a message does to the tables\<close>

text \<open>
  Abstractly, a message that decodes inserts its order where its user is routed, unless a row
  with the same id, or the same activity, user and token, is there; any other message does
  nothing.
\<close>

definition after_message ::
  "(string \<Rightarrow> string) \<Rightarrow> (int \<Rightarrow> int) \<Rightarrow> Switches \<Rightarrow> dbid list \<Rightarrow> payload \<Rightarrow> (dbid \<Rightarrow> tables) \<Rightarrow> dbid \<Rightarrow> tables" where
  "after_message coll dt sw shards v t =
     (case UnmarshalOrderMessage v of
        (m, None) \<Rightarrow>
          (case insert_db sw shards (order_of m) of
             None \<Rightarrow> t
           | Some d \<Rightarrow> if order_conflict coll (order_of m) (orders_0 (t d)) then t else with_row dt d (order_of m) t)
      | (m, Some _) \<Rightarrow> t)"

lemma rows_kept_after: "rows_kept t (after_message coll dt sw shards v t)"
  by (auto simp: after_message_def rows_kept_def with_row_def split: prod.splits option.splits)

section \<open>Emptying the topic\<close>

definition settled ::
  "(string \<Rightarrow> string) \<Rightarrow> Switches \<Rightarrow> dbid list \<Rightarrow> (dbid \<Rightarrow> tables) \<Rightarrow> payload \<Rightarrow> bool" where
  "settled coll sw shards t v \<longleftrightarrow> (\<forall>m. UnmarshalOrderMessage v = (m, None) \<longrightarrow>
     (\<exists>d. insert_db sw shards (order_of m) = Some d \<and> order_conflict coll (order_of m) (orders_0 (t d))))"

lemma settled_kept:
  assumes "settled coll sw shards t v" and "rows_kept t t'"
  shows "settled coll sw shards t' v"
  using assms(1) rows_kept_row [OF assms(2)] unfolding settled_def order_conflict_def by blast

lemma settled_after:
  assumes "in64 (int (length shards))"
  shows "settled coll sw shards (after_message coll dt sw shards v t) v"
proof -
  have "order_conflict coll x (orders_0 (with_row dt d x t d))" for x d
    by (simp add: order_conflict_def with_row_def stored_order_def)
  moreover have "(insert_db sw shards x = None) = False" for x using insert_db_total [OF assms, of sw x] by auto
  ultimately show ?thesis by (auto simp: settled_def after_message_def simp del: not_None_eq split: option.splits)
qed

lemma rows_kept_fold: "rows_kept t (fold (after_message coll dt sw shards) vs t)"
  by (induction vs arbitrary: t) (auto intro: rows_kept_trans rows_kept_after)

lemma settled_fold:
  assumes "in64 (int (length shards))" and "v \<in> set vs"
  shows "settled coll sw shards (fold (after_message coll dt sw shards) vs t) v"
  using assms(2)
proof (induction vs arbitrary: t)
  case (Cons x vs)
  then show ?case using settled_kept [OF settled_after [OF assms(1)] rows_kept_fold] by auto
qed simp

context topic_group begin

lemma process_frame:
  assumes "run S (process_message (order_consumer sw shards topic dlq) msg) w = (res, w')" and "dlq \<noteq> topic"
  shows "pos w' = pos w" "log w' topic = log w topic"
proof -
  let ?P = "\<lambda>c. consumer_call dlq c \<and> no_fetch c"
  have "makes (consumer_call dlq) (process_message (order_consumer sw shards topic dlq) msg)"
    by (rule makes_process_message)
       (simp_all add: order_consumer_def dead_letter_def makes_order_Handle makes_consumer_dlq, simp_all add: consumer_call_def)
  moreover have "makes no_fetch (process_message (order_consumer sw shards topic dlq) msg)"
    by (rule no_fetch_process) (rule order_consumer_no_fetch)+
  ultimately have made: "makes ?P (process_message (order_consumer sw shards topic dlq) msg)" by (rule makes_conj)
  let ?I = "\<lambda>v. pos v = pos w \<and> log v topic = log w topic"
  have "?I v'" if "?P c" "?I v" "S c v = (r, v')" for c v r v'
  proof -
    have "pos v' = pos v" using pos_frame [OF that(3)] that(1) by (auto simp: no_fetch_def)
    moreover have "log v' topic = log v topic"
    proof (cases "\<exists>t k x d hs. c = KWrite t k x d hs")
      case True
      then obtain t k x d hs where c: "c = KWrite t k x d hs" by blast
      then have "t = dlq" using that(1) by (auto simp: consumer_call_def)
      then show ?thesis using kafka_ok [of t k x d hs v r v'] that(3) assms(2) c by simp
    next
      case False
      then show ?thesis using other_frame(3) [OF that(3)] by simp
    qed
    ultimately show ?thesis using that(2) by simp
  qed
  from run_invariant [where P = ?P and I = ?I and S = S and w = w, OF made _ this] assms(1)
  show "pos w' = pos w" "log w' topic = log w topic" by auto
qed

lemma dead_letter_tables:
  assumes "run S (consumer_dlq dlq raw reason) w = (res, w')"
  shows "tbl w' = tbl w"
proof -
  let ?P = "\<lambda>c. \<not> (\<exists>d s. c = Sql d s)"
  have "makes ?P (consumer_dlq dlq raw reason)"
    by (auto simp: consumer_dlq_def MarkFailed_def intro!: makes_bindp makes_SendOrder split: prod.splits)
  from run_invariant [where P = ?P and I = "\<lambda>v. tbl v = tbl w" and S = S and w = w, OF this] other_frame(2) assms
  show ?thesis by auto
qed

text \<open>One round of the loop with a message ahead, and the last one.\<close>

lemma run_round:
  assumes "pos w topic < length (log w topic)" and "c_topic c = topic"
  obtains n r1 w1 r2 w2 where "S CtxDone w = (r1, w1)" "S (KFetch topic) w1 = (r2, w2)"
    "ks w2 = ks w" "tbl w2 = tbl w" "log w2 = log w" "pos w2 topic = Suc (pos w topic)"
    "\<And>fuel. run S (Run (Suc fuel) c) w = run S (bindp (process_message c (KMsg n (log w topic ! pos w topic)))
       (\<lambda>stop. case stop of None \<Rightarrow> Run fuel c | Some err \<Rightarrow> Ret (Returned (Some err)))) w2"
proof -
  obtain r1 w1 where ctx: "S CtxDone w = (r1, w1)" by (cases "S CtxDone w")
  have f1: "r1 = RBool False" "pos w1 = pos w" "ks w1 = ks w" "log w1 = log w" "tbl w1 = tbl w"
    using not_cancelled [OF ctx] pos_frame [OF ctx] local_frame [OF ctx] by auto
  obtain r2 w2 where fetch: "S (KFetch topic) w1 = (r2, w2)" by (cases "S (KFetch topic) w1")
  have f2: "ks w2 = ks w" "log w2 = log w" "tbl w2 = tbl w" using local_frame [OF fetch] f1 by auto
  obtain n where r2: "r2 = RMsg (KMsg n (log w topic ! pos w topic))" and p2: "pos w2 topic = Suc (pos w topic)"
    using fetch_next [OF fetch] assms(1) f1 by auto
  have "run S (Run (Suc fuel) c) w = run S (bindp (process_message c (KMsg n (log w topic ! pos w topic)))
      (\<lambda>stop. case stop of None \<Rightarrow> Run fuel c | Some err \<Rightarrow> Ret (Returned (Some err)))) w2" for fuel
    using ctx fetch by (simp add: assms(2) f1 r2)
  then show thesis using that [OF ctx fetch f2(1,3,2) p2] by blast
qed

lemma run_last:
  assumes "\<not> pos w topic < length (log w topic)" and "c_topic c = topic"
  obtains m w' where "run S (Run (Suc fuel) c) w = (Some (Returned (Some (GoErr m))), w')"
    "ks w' = ks w" "tbl w' = tbl w" "log w' = log w" "pos w' = pos w"
proof -
  obtain r1 w1 where ctx: "S CtxDone w = (r1, w1)" by (cases "S CtxDone w")
  have f1: "r1 = RBool False" "pos w1 = pos w" "ks w1 = ks w" "log w1 = log w" "tbl w1 = tbl w"
    using not_cancelled [OF ctx] pos_frame [OF ctx] local_frame [OF ctx] by auto
  obtain r2 w2 where fetch: "S (KFetch topic) w1 = (r2, w2)" by (cases "S (KFetch topic) w1")
  have f2: "ks w2 = ks w" "log w2 = log w" "tbl w2 = tbl w" using local_frame [OF fetch] f1 by auto
  obtain m where r2: "r2 = RErr (GoErr m)" and p2: "pos w2 = pos w" using fetch_end [OF fetch] assms(1) f1 by auto
  obtain r3 w3 where ctx2: "S CtxDone w2 = (r3, w3)" by (cases "S CtxDone w2")
  have f3: "r3 = RBool False" "pos w3 = pos w" "ks w3 = ks w" "log w3 = log w" "tbl w3 = tbl w"
    using not_cancelled [OF ctx2] pos_frame [OF ctx2] local_frame [OF ctx2] f2 p2 by auto
  have "run S (Run (Suc fuel) c) w = (Some (Returned (Some (GoErr m))), w3)"
    using ctx fetch ctx2 by (simp add: assms(2) f1 r2 f3)
  then show thesis using that f3 by blast
qed

end

context group_services begin

text \<open>Processing any message succeeds and does to the tables what the abstract effect says.\<close>

lemma run_process_any:
  assumes "in64 (int (length shards))"
  obtains w' where "run S (process_message (order_consumer sw shards topic dlq) (KMsg n v)) w = (Some None, w')"
    "tbl w' = after_message coll dt sw shards v (tbl w)"
proof (cases "UnmarshalOrderMessage v")
  case (Pair m err)
  show thesis
  proof (cases err)
    case None
    obtain d where d: "insert_db sw shards (order_of m) = Some d" using insert_db_total [OF assms] by blast
    obtain stop w' where run: "run S (process_message (order_consumer sw shards topic dlq) (KMsg n v)) w = (Some stop, w')"
      "tbl w' = (if order_conflict coll (order_of m) (orders_0 (tbl w d)) then tbl w
               else with_row dt d (order_of m) (tbl w))"
      "\<exists>r w1. S (KCommit (KMsg n v)) w1 = (r, w') \<and> stop = as_unit r"
      by (rule run_process [OF _ d, of v topic dlq n w]) (use Pair None in simp_all)
    have "stop = None" using run(3) commit_ok by fastforce
    then show thesis using that run(1,2) d Pair None by (simp add: after_message_def)
  next
    case (Some e)
    obtain w1 where dl: "run S (consumer_dlq dlq v e) w = (Some (), w1)"
      using calm_returns [OF calm_consumer_dlq] by (metis old.unit.exhaust)
    obtain r w2 where c: "S (KCommit (KMsg n v)) w1 = (r, w2)" by (cases "S (KCommit (KMsg n v)) w1")
    have "run S (process_message (order_consumer sw shards topic dlq) (KMsg n v)) w = (Some None, w2)"
      using dl c Pair Some by (simp add: process_message_def order_consumer_def dead_letter_def run_bindp)
    moreover have "tbl w2 = tbl w" using local_frame [OF c] dead_letter_tables [OF dl] by simp
    ultimately show thesis using that Pair Some by (simp add: after_message_def)
  qed
qed

text \<open>The loop does so for every message ahead of the group, in order, and then returns.\<close>

lemma drains:
  assumes "in64 (int (length shards))" and "dlq \<noteq> topic"
    and "pos w topic \<le> length (log w topic)" and "length (log w topic) - pos w topic < fuel"
  shows "\<exists>err w'. run S (Run fuel (order_consumer sw shards topic dlq)) w = (Some (Returned err), w') \<and>
    log w' topic = log w topic \<and> pos w' topic = length (log w topic) \<and>
    tbl w' = fold (after_message coll dt sw shards) (drop (pos w topic) (log w topic)) (tbl w)"
  using assms(3,4)
proof (induction fuel arbitrary: w)
  case (Suc fuel)
  let ?c = "order_consumer sw shards topic dlq" and ?v = "log w topic ! pos w topic"
  have topic: "c_topic ?c = topic" by (simp add: order_consumer_def)
  show ?case
  proof (cases "pos w topic < length (log w topic)")
    case True
    obtain n w2 where f2: "tbl w2 = tbl w" "log w2 = log w" "pos w2 topic = Suc (pos w topic)"
      and one: "run S (Run (Suc fuel) ?c) w = run S (bindp (process_message ?c (KMsg n ?v))
        (\<lambda>stop. case stop of None \<Rightarrow> Run fuel ?c | Some err \<Rightarrow> Ret (Returned (Some err)))) w2"
      using run_round [OF True topic] by metis
    obtain w3 where proc: "run S (process_message ?c (KMsg n ?v)) w2 = (Some None, w3)"
      and t3: "tbl w3 = after_message coll dt sw shards ?v (tbl w2)" by (rule run_process_any [OF assms(1)])
    note f3 = process_frame [OF proc assms(2)]
    have "pos w3 topic \<le> length (log w3 topic)" "length (log w3 topic) - pos w3 topic < fuel"
      using f3 f2 True Suc.prems by auto
    from Suc.IH [OF this] obtain err w' where
      run: "run S (Run fuel ?c) w3 = (Some (Returned err), w')" and l: "log w' topic = log w topic"
      "pos w' topic = length (log w topic)"
      and rest: "tbl w' = fold (after_message coll dt sw shards) (drop (Suc (pos w topic)) (log w topic)) (tbl w3)"
      using f3 f2 by auto
    have "run S (Run (Suc fuel) ?c) w = (Some (Returned err), w')" using one proc run by (simp add: run_bindp)
    then show ?thesis using l rest t3 f2 by (simp add: Cons_nth_drop_Suc [OF True, symmetric])
  next
    case False
    then show ?thesis using Suc.prems run_last [OF False topic, of fuel] by fastforce
  qed
qed simp

end

section \<open>A group in memory\<close>

fun group_call :: "call \<Rightarrow> mem \<times> (string \<Rightarrow> nat) \<Rightarrow> reply \<times> (mem \<times> (string \<Rightarrow> nat))" where
  "group_call (KFetch topic) (w, p) =
     (if p topic < length (mem_log w topic)
      then (RMsg (KMsg (p topic) (mem_log w topic ! p topic)), (w, p(topic := Suc (p topic))))
      else (RErr (GoErr ''context deadline exceeded''), (w, p)))"
| "group_call c (w, p) = (case mem_call c w of (r, w') \<Rightarrow> (r, (w', p)))"

lemma group_call_other:
  assumes "group_call c (w, p) = (r, x)" and "\<not> (\<exists>topic. c = KFetch topic)"
  shows "mem_call c w = (r, fst x) \<and> snd x = p"
  using assms by (cases "(c, (w, p))" rule: group_call.cases) (auto split: prod.splits)

lemma local_not_fetch: "group_call (KFetch topic) (w, p) = (r, x) \<Longrightarrow> fst x = w"
  by (auto split: if_splits)

lemma group_passes_on: "passes_on group_call fst mem_call (\<lambda>c. \<exists>topic. c = KFetch topic)"
  unfolding passes_on_def
proof (intro allI)
  fix c and x :: "mem \<times> (string \<Rightarrow> nat)"
  show "if \<exists>topic. c = KFetch topic then local_call c \<and> c \<notin> {Now, AddCounter, NewUUIDv7, LimiterAllow} \<and> fst (snd (group_call c x)) = fst x
      else mem_call c (fst x) = (fst (group_call c x), fst (snd (group_call c x)))"
    using group_call_other [of c "fst x" "snd x" "fst (group_call c x)" "snd (group_call c x)"]
      local_not_fetch [of _ "fst x" "snd x" "fst (group_call c x)" "snd (group_call c x)"] by auto
qed

interpretation group: group_services group_call "\<lambda>x. mem_ks (fst x)" "\<lambda>x. mem_tbl (fst x)" "\<lambda>x. mem_log (fst x)"
    "\<lambda>x. x" "\<lambda>t. t" "\<lambda>x. snd x"
proof (intro group_services.intro topic_group.intro reliable_services.intro)
  have w: "working_services group_call (\<lambda>x. mem_ks (fst x)) (\<lambda>x. mem_tbl (fst x)) (\<lambda>x. mem_log (fst x)) (\<lambda>x. x) (\<lambda>t. t)"
    by (rule working_passed_on [OF memory.working_services_axioms group_passes_on]) (auto split: if_splits)
  from w show "working_services group_call (\<lambda>x. mem_ks (fst x)) (\<lambda>x. mem_tbl (fst x)) (\<lambda>x. mem_log (fst x)) (\<lambda>x. x) (\<lambda>t. t)" .
  from w show "working_services group_call (\<lambda>x. mem_ks (fst x)) (\<lambda>x. mem_tbl (fst x)) (\<lambda>x. mem_log (fst x)) (\<lambda>x. x) (\<lambda>t. t)" .
  show "topic_group_axioms group_call (\<lambda>x. mem_log (fst x)) snd"
    using group_call_other by unfold_locales (auto split: if_splits)
  show "reliable_services_axioms group_call" by unfold_locales auto
qed


definition ex_backlog :: "mem \<times> (string \<Rightarrow> nat)" where
  "ex_backlog = (ex_world\<lparr>mem_log := (\<lambda>_. [])(TopicSeckillOrders :=
     (case Marshal ex_message of Inr v \<Rightarrow> [v, Malformed ''x'', v] | Inl _ \<Rightarrow> []))\<rparr>, (\<lambda>_. 0))"


end
