(* ===== verification/Keyspace.thy ===== *)
theory Keyspace
  imports Example
begin

text \<open>
  What the program keeps in Redis.  Every key is of one of five kinds, and its value is of the
  type of its kind, in every reachable state of a deployment: the commands are sent with keys and
  values of these types only (the rules below), the Lua script changes counters into counters,
  and a total read from the database is a 64-bit integer because it was decoded as one.
\<close>

section \<open>Typed keys\<close>

inductive typed :: "wire \<Rightarrow> string \<Rightarrow> string \<Rightarrow> bool" for W where
  stock: "in64 n \<Longrightarrow> typed W (stock_key a) (show_int n)"
| bought: "in64 n \<Longrightarrow> 0 < n \<Longrightarrow> typed W (user_buy_key a u) (show_int n)"
| requests: "in64 n \<Longrightarrow> 0 < n \<Longrightarrow> typed W (ratelimit_key s) (show_int n)"
| queued: "typed W (queue_key t) ''queued''"
| success: "typed W (queue_key t) (''success:'' @ show_int i)"
| failed: "typed W (queue_key t) (''failed:'' @ reason)"
| in_flight: "typed W (idem_key a u t) ''processing''"
| answered: "typed W (idem_key a u t) (cached_text W status buf)"

inductive_cases typed_stockE: "typed W (stock_key a) v"
inductive_cases typed_boughtE: "typed W (user_buy_key a u) v"
inductive_cases typed_requestsE: "typed W (ratelimit_key s) v"
inductive_cases typed_queueE: "typed W (queue_key t) v"

lemma typed_stock [simp]: "typed W (stock_key a) v \<longleftrightarrow> (\<exists>n. v = show_int n \<and> in64 n)"
  by (auto elim: typed_stockE intro: typed.intros simp: key_simps)

lemma typed_bought [simp]: "typed W (user_buy_key a u) v \<longleftrightarrow> (\<exists>n. v = show_int n \<and> in64 n \<and> 0 < n)"
  by (auto elim: typed_boughtE intro: typed.intros simp: key_simps)

lemma typed_requests [simp]: "typed W (ratelimit_key s) v \<longleftrightarrow> (\<exists>n. v = show_int n \<and> in64 n \<and> 0 < n)"
  by (auto elim: typed_requestsE intro: typed.intros simp: key_simps)

lemma typed_queue: "typed W (queue_key t) v \<longleftrightarrow>
    v = ''queued'' \<or> (\<exists>i. v = ''success:'' @ show_int i) \<or> (\<exists>reason. v = ''failed:'' @ reason)"
  using typed.queued [of W t] typed.success [of W t] typed.failed [of W t]
  by (auto elim: typed_queueE simp: key_simps)

definition typed_keyspace :: "wire \<Rightarrow> keyspace \<Rightarrow> bool" where
  "typed_keyspace W ks \<longleftrightarrow> (\<forall>k v ttl. ks k = Some (v, ttl) \<longrightarrow> typed W k v)"

definition typed_totals :: "(dbid \<Rightarrow> tables) \<Rightarrow> bool" where
  "typed_totals t \<longleftrightarrow> (\<forall>d a act. activities (t d) a = Some act \<longrightarrow> in64 (a_TotalStock act))"

lemma typed_keyspaceD: "typed_keyspace W ks \<Longrightarrow> ks k = Some (v, ttl) \<Longrightarrow> typed W k v"
  by (auto simp: typed_keyspace_def)

lemma typed_keyspace_upd: "typed_keyspace W ks \<Longrightarrow> typed W k v \<Longrightarrow> typed_keyspace W (ks(k \<mapsto> (v, ttl)))"
  by (simp add: typed_keyspace_def)

lemma typed_expiry: "expiry ks ks' \<Longrightarrow> typed_keyspace W ks \<Longrightarrow> typed_keyspace W ks'"
  unfolding expiry_def typed_keyspace_def by (metis option.distinct(1))

section \<open>Commands keep the types\<close>

lemma typed_set_ttl: "typed_keyspace W ks \<Longrightarrow> typed_keyspace W (snd (set_ttl k d ks))"
  by (auto simp: set_ttl_def typed_keyspace_def split: option.splits)

text \<open>A counter that is counted up or down stays one; a counter that starts must have a type.\<close>

lemma typed_incr_by:
  assumes "typed_keyspace W ks" and "in64 d \<Longrightarrow> typed W k (show_int d)"
    and "\<And>i. in64 i \<Longrightarrow> in64 (i + d) \<Longrightarrow> typed W k (show_int i) \<Longrightarrow> typed W k (show_int (i + d))"
    and "\<And>v. typed W k v \<Longrightarrow> \<exists>i. in64 i \<and> v = show_int i"
  shows "typed_keyspace W (snd (incr_by k d ks))"
proof (cases "ks k")
  case None
  with assms(1,2) show ?thesis by (simp add: incr_by_def typed_keyspace_upd)
next
  case (Some x)
  obtain v ttl where x: "x = (v, ttl)" by (cases x)
  with Some assms(1) have v: "typed W k v" by (auto dest: typed_keyspaceD)
  with assms(4) obtain i where i: "in64 i" "v = show_int i" by blast
  with v assms(3) show ?thesis
    using Some x assms(1) by (simp add: incr_by_def ParseInt_show_int typed_keyspace_upd)
qed

lemma typed_incr:
  assumes "typed_keyspace W ks"
  shows "typed_keyspace W (snd (incr_by (stock_key a) d ks))"
    and "0 < d \<Longrightarrow> typed_keyspace W (snd (incr_by (user_buy_key a u) d ks))"
    and "typed_keyspace W (snd (incr_by (ratelimit_key s) 1 ks))"
  using assms by (auto intro!: typed_incr_by)

lemma typed_lua_sem:
  assumes "typed_keyspace W ks"
  shows "typed_keyspace W (snd (lua_sem (LGet k) ks))" "typed_keyspace W (snd (lua_sem (LExpire k t) ks))"
    and "typed_keyspace W (snd (lua_sem (LDecrBy (stock_key a) d) ks))"
    and "0 < d \<Longrightarrow> typed_keyspace W (snd (lua_sem (LIncrBy (user_buy_key a u) d) ks))"
  using assms typed_incr(1) [OF assms, of a "- d"] typed_incr(2) [OF assms, of d a u]
    typed_set_ttl [OF assms, of k "t * 1000000000"]
  by (auto split: prod.splits sum.splits option.splits)

lemma typed_run_lua:
  assumes "typed_keyspace W ks" and "typed_keyspace W (snd (lua_sem c ks))"
    and "\<And>r ks'. typed_keyspace W ks' \<Longrightarrow> typed_keyspace W (snd (run_lua (k r) ks'))"
  shows "typed_keyspace W (snd (run_lua (LCall c k) ks))"
  using assms by (auto split: prod.splits sum.splits)

lemma typed_script:
  assumes "typed_keyspace W ks"
  shows "typed_keyspace W (snd (run_lua (stock_deduct [stock_key a, user_buy_key a u] [show_int 1, show_int l]) ks))"
proof -
  have one: "tonumber (show_int 1) = Some 1" by (simp add: tonumber_def)
  show ?thesis
    unfolding stock_deduct_def Let_def
    by (rule typed_run_lua [OF assms])
       (auto simp: one assms intro!: typed_run_lua typed_lua_sem split: lrep.splits option.splits simp del: lua_sem.simps run_lua.simps(3))
qed

section \<open>Typed calls\<close>

text \<open>What may be sent: writes of typed values, the counter of a user, the script, and statements that keep totals in range.\<close>

fun typed_call :: "wire \<Rightarrow> call \<Rightarrow> bool" where
  "typed_call W (Redis (SET k v t)) = typed W k v"
| "typed_call W (Redis (SETNX k v t)) = typed W k v"
| "typed_call W (Redis (INCR k)) = (\<exists>s. k = ratelimit_key s)"
| "typed_call W (Redis (EVAL script keys argv)) = (\<exists>a u l. Redis (EVAL script keys argv) = deduct_call a u 1 l)"
| "typed_call W (Sql d (InsertActivity a)) = in64 (a_TotalStock a)"
| "typed_call W (Sql d (UpdateDeduct n i m)) = (n = 1 \<and> m = 1)"
| "typed_call W c = True"

definition typed_rules :: "wire \<Rightarrow> rules" where
  "typed_rules W =
     \<lparr>possible = (\<lambda>c r. \<forall>d i act. c = Sql d (SelectActivity i) \<longrightarrow> r = RActivity act \<longrightarrow> in64 (a_TotalStock act)),
      grants = (\<lambda>_ _. False), spends = (\<lambda>_. False), forbidden = (\<lambda>c. \<not> typed_call W c)\<rparr>"

lemma typed_rules_simps [simp]:
  "possible (typed_rules W) c r \<longleftrightarrow>
     (\<forall>d i act. c = Sql d (SelectActivity i) \<longrightarrow> r = RActivity act \<longrightarrow> in64 (a_TotalStock act))"
  "grants (typed_rules W) c r = False" "spends (typed_rules W) c = False"
  "forbidden (typed_rules W) c \<longleftrightarrow> \<not> typed_call W c"
  by (simp_all add: typed_rules_def)

lemma neutral_typed [simp]: "neutral (typed_rules W) c \<longleftrightarrow> typed_call W c"
  by (simp add: neutral_def)

lemma makes_typed: "makes (typed_call W) p \<Longrightarrow> (\<And>a. Q n a) \<Longrightarrow> funded (typed_rules W) n p Q"
  by (rule funded_neutral) (auto elim!: makes_mono)

lemma typed_redis_sem:
  assumes "typed_keyspace W ks" and "typed_call W (Redis c)"
  shows "typed_keyspace W (snd (redis_sem c ks))"
proof (cases c)
  case (INCR k)
  then obtain s where "k = ratelimit_key s" using assms(2) by auto
  then show ?thesis using INCR typed_incr(3) [OF assms(1), of s] by (auto split: prod.splits sum.splits)
next
  case (EXPIRE k d)
  then show ?thesis using typed_set_ttl [OF assms(1), of k d] by (auto split: prod.splits)
next
  case (EVAL script keys argv)
  then obtain a u l where "Redis c = deduct_call a u 1 l" using assms(2) by auto
  then show ?thesis using typed_script [OF assms(1)] by (simp add: deduct_call_def)
qed (use assms in \<open>auto simp: typed_keyspace_upd split: option.splits\<close>)

lemma typed_sql_sem:
  assumes "\<forall>a act. activities t a = Some act \<longrightarrow> in64 (a_TotalStock act)" and "typed_call W (Sql d s)"
    and "sql_sem coll dt s t = Some (r, t')"
  shows "\<forall>a act. activities t' a = Some act \<longrightarrow> in64 (a_TotalStock act)"
proof (cases s)
  case (UpdateDeduct n i m)
  have "in64 k \<Longrightarrow> 1 \<le> k \<Longrightarrow> in64 (k - 1)" for k by (auto simp: in64_def)
  then show ?thesis using UpdateDeduct assms by (auto split: option.splits if_splits)
qed (use assms in \<open>auto simp: stored_activity_def split: option.splits if_splits list.splits\<close>)

sublocale services \<subseteq> types: tickets S "typed_rules W"
    "\<lambda>w. typed_keyspace W (ks w) \<and> typed_totals (tbl w)" "\<lambda>_. 0" "\<lambda>_. 0"
  for W
proof
  fix c w r w'
  assume S: "S c w = (r, w')" and "\<not> forbidden (typed_rules W) c"
    and inv: "typed_keyspace W (ks w) \<and> typed_totals (tbl w)"
  then have call: "typed_call W c" by simp
  have "typed_keyspace W (ks w')"
  proof (cases "\<exists>x. c = Redis x")
    case True
    then obtain x where c: "c = Redis x" by blast
    have "ks w' = ks w \<or> ks w' = snd (redis_sem x (ks w))"
      using redis_call [of x w r w'] S c by (auto simp: redis_law_def) (metis snd_conv)
    then show ?thesis using inv typed_redis_sem [of W "ks w" x] call c by auto
  next
    case False
    then show ?thesis using other_frame(1) [OF S] inv by simp
  qed
  moreover have "typed_totals (tbl w') \<and> possible (typed_rules W) c r"
  proof (cases "\<exists>d s. c = Sql d s")
    case True
    then obtain d s t' where c: "c = Sql d s" and law: "sql_law coll dt s (tbl w d) r t'"
      and t': "tbl w' = (tbl w)(d := t')"
      using sql_call S by blast
    have inv': "\<forall>a act. activities (tbl w d) a = Some act \<longrightarrow> in64 (a_TotalStock act)"
      using inv by (auto simp: typed_totals_def)
    have "\<forall>a act. activities t' a = Some act \<longrightarrow> in64 (a_TotalStock act)"
      using law inv' typed_sql_sem [OF inv', of W d s coll dt] call c
      by (auto simp: sql_law_def split: option.splits)
    then have "typed_totals (tbl w')" using inv t' by (auto simp: typed_totals_def)
    moreover have "possible (typed_rules W) c r"
      using law inv' c by (auto simp: sql_law_def split: option.splits)
    ultimately show ?thesis by simp
  next
    case False
    then show ?thesis using other_frame(2) [OF S] inv by auto
  qed
  ultimately show "(typed_keyspace W (ks w') \<and> typed_totals (tbl w')) \<and> possible (typed_rules W) c r \<and>
      0 + 0 + (if grants (typed_rules W) c r then 1 else 0)
      \<le> 0 + 0 + (if spends (typed_rules W) c then 1 else (0::nat))"
    by simp
qed

section \<open>The programs of a deployment\<close>

lemma middleware_typed: "middleware_rules W (typed_rules W)"
  unfolding middleware_rules_def by (auto elim!: middleware_call.cases simp: typed.intros)

lemma typed_queue_New: "makes (typed_call W) QueueService_New"
  by (auto simp: QueueService_New_def typed_queue split: sum.splits option.splits)

lemma typed_order_create: "makes (typed_call W) (order_create sw shards x)"
  by (rule makes_mono [OF makes_order_create]) auto

lemma typed_SendOrder: "makes (typed_call W) (SendOrder topic m)"
  by (rule makes_SendOrder) simp_all

interpretation typed_client: seckill_ports "typed_rules W" "api_service sw shards topic" "\<lambda>_ _. False" "\<lambda>_ _. True"
  for W sw shards topic
proof
  fix b u n x tok new and act :: Activity
  let ?s = "api_service sw shards topic" and ?R = "typed_rules W"
  show "funded ?R 0 (s_activities ?s b) (\<lambda>_ found. \<forall>act. found = Inr act \<longrightarrow> True)"
    by (rule makes_typed) (simp_all add: api_service_eq makes_GetByID)
  show "funded ?R 0 (s_stock ?s b u 1 (a_PerUserLimit act)) (\<lambda>n res. \<forall>rem. res = Inr rem \<longrightarrow> False \<longrightarrow> 0 < n)"
    by (rule makes_typed)
       (auto simp: api_service_eq stockRedisRepo_DeductForUser_def stockRepoSQL_DeductForUser_def deduct_call_def
          split: sum.splits)
  show "funded ?R 0 (s_now ?s) (\<lambda>_ _. True)"
    by (rule makes_typed) (simp_all add: api_service_eq time_Now_def)
  show "funded ?R n (s_nextID ?s) (\<lambda>m _. n \<le> m)"
    by (rule makes_typed) (simp_all add: api_service_eq nextID_def)
  show "funded ?R n new (\<lambda>m _. n \<le> m)" if "s_queue ?s = Some new"
    by (rule makes_typed) (use that in \<open>auto simp: api_service_eq typed_queue_New\<close>)
  show "funded ?R n (seckill_create ?s x tok) (\<lambda>_ _. True)"
    by (rule makes_typed)
       (auto simp: seckill_create_def api_service_eq KafkaOrderCreator_CreateWithToken_def typed_SendOrder typed_order_create)
qed

lemma decode_fields_invariant:
  assumes "\<And>key v m m'. dec key v m = Stored m' \<Longrightarrow> I m \<Longrightarrow> I m'" and "I m"
  shows "I (fst (decode_fields dec fs m saved))"
  using assms(2)
proof (induction fs arbitrary: m saved)
  case (Cons f fs)
  obtain key v where "f = (key, v)" by (cases f)
  with Cons assms(1) [of key v m] show ?case by (auto split: decoded.splits)
qed simp

lemma bound_total:
  assumes "bind_activity W c = Inr act"
  shows "in64 (a_TotalStock act)"
proof -
  have step: "in64 (a_TotalStock m')"
    if "decode_activity key v m = Stored m'" "in64 (a_TotalStock m)" for key v m m'
    using that by (auto simp: decode_activity_def decode_defs split: if_splits json.splits)
  have "in64 (a_TotalStock (fst (Unmarshal decode_activity zero_activity b)))" for b
    using decode_fields_invariant [where I = "\<lambda>m. in64 (a_TotalStock m)" and dec = decode_activity and m = zero_activity] step
    by (auto simp: Unmarshal_def zero_activity_def in64_def split: payload.splits json.splits)
  then show ?thesis
    using assms by (auto simp: bind_activity_def split: sum.splits prod.splits option.splits) (metis fst_conv)
qed

lemma typed_Warm: "funded (typed_rules W) 0 (AdminService_Warm i) (\<lambda>_ _. True)"
  by (auto simp: AdminService_Warm_def activityRepo_GetByID_def as_activity_Inr split: sum.splits option.splits if_splits)

lemma typed_api_handler: "funded_handler (typed_rules W) (api_handler W A rt)"
proof (cases rt)
  case PostSeckill
  have "funded_handler (typed_rules W) (handler_Seckill W (api_seckill A))"
    unfolding api_seckill_def by (rule typed_client.handler_funded)
  then show ?thesis using funded_Idempotency [OF middleware_typed] PostSeckill by (simp add: funded_handler_def)
next
  case (GetOrderByToken p)
  have "makes (typed_call W) (OrderByToken W QueueService_Get c)" for c
    by (auto simp: OrderByToken_def Let_def QueueService_Get_def split: sum.splits)
  then show ?thesis using GetOrderByToken by (simp add: funded_handler_def makes_typed)
next
  case PostActivities
  have "makes (typed_call W) (AdminCreateActivity W AdminService_Create c)" for c
    by (auto simp: AdminCreateActivity_def AdminService_Create_def activityRepo_Create_def bound_total split: sum.splits option.splits)
  then show ?thesis using PostActivities by (simp add: funded_handler_def makes_typed)
next
  case (PostWarm p)
  have "funded (typed_rules W) 0 (AdminWarmActivity W AdminService_Warm c) (\<lambda>_ _. True)" for c
    using typed_Warm by (auto simp: AdminWarmActivity_def split: option.splits sum.splits intro: funded_weaken)
  then show ?thesis using PostWarm by (simp add: funded_handler_def)
qed (simp add: funded_handler_def)

lemma typed_consumer: "makes (typed_call W) (Run fuel (order_consumer sw shards topic dlq))"
proof (rule makes_Run)
  fix om raw e
  show "makes (typed_call W) (c_handler (order_consumer sw shards topic dlq) om)"
    by (simp add: order_consumer_def) (rule makes_Handle, auto simp: materializer_eq typed_order_create typed_queue)
  show "makes (typed_call W) (dead_letter (order_consumer sw shards topic dlq) raw e)"
    by (auto simp: order_consumer_def dead_letter_def consumer_dlq_def MarkFailed_def typed_queue
        intro!: makes_bindp typed_SendOrder split: prod.splits)
qed simp_all

lemma typed_deployed:
  assumes "p \<in> deployed W A dlq allowed"
  shows "funded (typed_rules W) 0 p (\<lambda>_ _. True)"
  using assms
proof cases
  case (request rt c)
  then show ?thesis using funded_serve [OF middleware_typed typed_api_handler] by simp
next
  case (consumer fuel)
  then show ?thesis by (simp add: makes_typed typed_consumer)
next
  case (sweeper fuel s acts)
  have "makes (typed_call W) (reconcile_Run fuel s acts)"
    by (intro makes_reconcile_Run makes_tick) simp_all
  then show ?thesis using sweeper by (simp add: makes_typed)
qed

context services begin

lemma deployment_typed:
  assumes "reachable S spawn env w0 (ps, w)" and "\<forall>w. spawn w \<subseteq> deployed W A dlq allowed"
    and "\<forall>w w'. env w w' \<longrightarrow> expiry (ks w) (ks w') \<and> tbl w' = tbl w"
    and "typed_keyspace W (ks w0)" and "typed_totals (tbl w0)"
  shows "typed_keyspace W (ks w) \<and> typed_totals (tbl w)"
proof -
  have "funded (typed_rules W) 0 p (\<lambda>_ _. True)" if "p \<in> spawn w" for w p
    using that assms(2) typed_deployed by blast
  moreover have "typed_keyspace W (ks w') \<and> typed_totals (tbl w')"
    if "env w w'" "typed_keyspace W (ks w) \<and> typed_totals (tbl w)" for w w'
    using that assms(3) typed_expiry [of "ks w" "ks w'" W] by auto
  ultimately show ?thesis
    using types.never_exceeds [OF assms(1), of W] assms(4,5) by simp
qed

end

text \<open>
  C8. Redis is typed.  In any interleaved deployment, on services that may fail, every key of the
  keyspace is one the program names and holds a value of its type: stock counters are 64-bit
  decimals, purchase and request counters positive ones, a queue token is queued, succeeded with
  an order id or failed with a reason, an idempotency key is in flight or holds an answer; and
  every activity's total is a 64-bit integer.
\<close>

theorem redis_typed:
  assumes "services S ks tbl logs coll dt"
    and "reachable S spawn env w0 (ps, w)"
    and "\<forall>w. spawn w \<subseteq> deployed W A dlq allowed"
    and "\<forall>w w'. env w w' \<longrightarrow> expiry (ks w) (ks w') \<and> tbl w' = tbl w"
    and "typed_keyspace W (ks w0)" and "typed_totals (tbl w0)"
  shows "typed_keyspace W (ks w) \<and> typed_totals (tbl w)"
  using services.deployment_typed [OF assms] .

lemma ex_typed: "typed_keyspace ex_wire (mem_ks ex_world)" "typed_totals (mem_tbl ex_world)"
proof -
  have "show_int 2 = ''2''" by code_simp
  then have "typed ex_wire (stock_key 7) ''2''"
    using typed.stock [of 2 ex_wire 7] by (simp add: in64_def)
  then show "typed_keyspace ex_wire (mem_ks ex_world)"
    by (auto simp: typed_keyspace_def ex_world_def mem0_def split: if_splits)
  show "typed_totals (mem_tbl ex_world)"
    by (auto simp: typed_totals_def ex_world_def ex_tables_def empty_tables_def ex_activity_def in64_def mem0_def)
qed

theorem redis_typed_witness:
  "(case run mem_call (bindp ex_post (\<lambda>_. Ret ())) ex_world of (r, w) \<Rightarrow> typed_keyspace ex_wire (mem_ks w))"
proof -
  obtain r w where run: "run mem_call (bindp ex_post (\<lambda>_. Ret ())) ex_world = (r, w)"
    by (cases "run mem_call (bindp ex_post (\<lambda>_. Ret ())) ex_world")
  obtain ps where "reachable mem_call (ex_spawn (\<lambda>_. True)) (\<lambda>_ _. False) ex_world (ps, w)"
    by (rule ex_post_reaches [OF run _ reachable.initial]) simp_all
  from redis_typed [OF memory.services_axioms this, of ex_wire ex_api TopicSeckillDLQ] ex_typed
  show ?thesis by (auto simp: run)
qed

section \<open>What a token answers\<close>

lemma queue_docs:
  "order_state_doc tok ''queued'' = JObj [(''queue_token'', JStr tok), (''state'', JStr ''queued'')]"
  "order_state_doc tok (''success:'' @ s) =
     JObj [(''order_id'', JStr s), (''queue_token'', JStr tok), (''state'', JStr ''success'')]"
  "order_state_doc tok (''failed:'' @ s) =
     JObj [(''queue_token'', JStr tok), (''reason'', JStr s), (''state'', JStr ''failed'')]"
  "order_state_doc tok ''not_found'' = JObj [(''queue_token'', JStr tok), (''state'', JStr ''not_found'')]"
proof -
  have "HasPrefix (''failed:'' @ s) ''success:'' = False" by simp
  then show "order_state_doc tok (''failed:'' @ s) =
     JObj [(''queue_token'', JStr tok), (''reason'', JStr s), (''state'', JStr ''failed'')]"
    unfolding order_state_doc_def HasPrefix_append TrimPrefix_append by simp
  show "order_state_doc tok (''success:'' @ s) =
     JObj [(''order_id'', JStr s), (''queue_token'', JStr tok), (''state'', JStr ''success'')]"
    unfolding order_state_doc_def HasPrefix_append TrimPrefix_append by simp
qed (simp_all add: order_state_doc_def)

text \<open>
  C9. A token has an answer.  While Redis does not fail, in any reachable state of a deployment
  asking for a token answers 200, and the state reported is queued, success with a decimal order
  id, failed with a reason, or not found: the fall-through branch of the handler, which would
  hand out whatever text the key holds, is never taken.
\<close>

theorem token_answered:
  assumes "redis_services S ks tbl logs coll dt"
    and "reachable S spawn env w0 (ps, w)"
    and "\<forall>w. spawn w \<subseteq> deployed W A dlq allowed"
    and "\<forall>w w'. env w w' \<longrightarrow> expiry (ks w) (ks w') \<and> tbl w' = tbl w"
    and "typed_keyspace W (ks w0)" and "typed_totals (tbl w0)" and "tok \<noteq> []"
  shows "\<exists>doc. fst (run S (api_handler W A' (GetOrderByToken tok) c) w) = Some (c_JSON W 200 (JObj doc) (c\<lparr>cx_Param := tok\<rparr>)) \<and>
    (doc = [(''queue_token'', JStr tok), (''state'', JStr ''queued'')] \<or>
     (\<exists>i. doc = [(''order_id'', JStr (show_int i)), (''queue_token'', JStr tok), (''state'', JStr ''success'')]) \<or>
     (\<exists>reason. doc = [(''queue_token'', JStr tok), (''reason'', JStr reason), (''state'', JStr ''failed'')]) \<or>
     doc = [(''queue_token'', JStr tok), (''state'', JStr ''not_found'')])"
proof -
  have typed: "typed_keyspace W (ks w)"
    using services.deployment_typed [OF redis_services.axioms(1) [OF assms(1)] assms(2-6)] ..
  obtain r w2 where g: "S (Redis (GET (queue_key tok))) w = (r, w2)"
    by (cases "S (Redis (GET (queue_key tok))) w")
  have r: "r = (case ks w (queue_key tok) of None \<Rightarrow> RErr RedisNil | Some (v, _) \<Rightarrow> RStr v)"
    using redis_services.redis_ok [OF assms(1) g] by simp
  show ?thesis
  proof (cases "ks w (queue_key tok)")
    case None
    then show ?thesis
      using assms(7) g r by (auto simp: OrderByToken_def QueueService_Get_def Let_def queue_docs)
  next
    case (Some x)
    obtain v ttl where x: "x = (v, ttl)" by (cases x)
    have "fst (run S (api_handler W A' (GetOrderByToken tok) c) w) =
        Some (c_JSON W 200 (order_state_doc tok v) (c\<lparr>cx_Param := tok\<rparr>))"
      using assms(7) g r Some x by (simp add: OrderByToken_def QueueService_Get_def Let_def)
    moreover have "v = ''queued'' \<or> (\<exists>i. v = ''success:'' @ show_int i) \<or> (\<exists>reason. v = ''failed:'' @ reason)"
      using typed_keyspaceD [OF typed Some [unfolded x]] unfolding typed_queue .
    ultimately show ?thesis by (metis queue_docs(1-3))
  qed
qed

theorem token_answered_witness:
  "\<exists>doc. fst (run mem_call (api_handler ex_wire ex_api (GetOrderByToken ''t'') ex_ctx)
      (snd (run mem_call (bindp ex_post (\<lambda>_. Ret ())) ex_world))) = Some (c_JSON ex_wire 200 (JObj doc) (ex_ctx\<lparr>cx_Param := ''t''\<rparr>))"
proof -
  obtain r w where run: "run mem_call (bindp ex_post (\<lambda>_. Ret ())) ex_world = (r, w)"
    by (cases "run mem_call (bindp ex_post (\<lambda>_. Ret ())) ex_world")
  obtain ps where "reachable mem_call (ex_spawn (\<lambda>_. True)) (\<lambda>_ _. False) ex_world (ps, w)"
    by (rule ex_post_reaches [OF run _ reachable.initial]) simp_all
  from token_answered [OF memory.redis_services_axioms this, of ex_wire ex_api TopicSeckillDLQ "\<lambda>_. True" "''t''"
      ex_api ex_ctx] ex_typed
  show ?thesis by (auto simp: run)
qed

end
