(* ===== verification/Balance.thy ===== *)
theory Balance
  imports Keyspace Attempt
begin

text \<open>
  Nothing is undersold while nothing fails.  The counting of \<open>Reservation\<close> made exact: a program
  accounts for its units if it returns, or panics, with none in hand.  On services that do not
  fail every unit taken is then published, in every interleaving, by the time the programs end.
\<close>

section \<open>Programs that account for their units\<close>

primrec accounts :: "rules \<Rightarrow> nat \<Rightarrow> 'a prog \<Rightarrow> (nat \<Rightarrow> 'a \<Rightarrow> bool) \<Rightarrow> bool" where
  "accounts R n (Ret a) Q = Q n a"
| "accounts R n Panic Q = (n = 0)"
| "accounts R n (Call c k) Q =
     (\<not> forbidden R c \<and> (spends R c \<longrightarrow> 0 < n) \<and>
      (\<forall>r. possible R c r \<longrightarrow>
        accounts R ((if spends R c then n - 1 else n) + (if grants R c r then 1 else 0)) (k r) Q))"

lemma accounts_bindp [simp]:
  "accounts R n (bindp p f) Q = accounts R n p (\<lambda>m a. accounts R m (f a) Q)"
  by (induction p arbitrary: n) auto

lemma accounts_weaken: "accounts R n p Q \<Longrightarrow> (\<And>m a. Q m a \<Longrightarrow> Q' m a) \<Longrightarrow> accounts R n p Q'"
  by (induction p arbitrary: n) auto

lemma accounts_recover: "accounts R n p Q \<Longrightarrow> accounts R 0 h Q \<Longrightarrow> accounts R n (recover h p) Q"
  by (induction p arbitrary: n) auto

lemma accounts_neutral: "makes (neutral R) p \<Longrightarrow> (\<And>a. Q 0 a) \<Longrightarrow> accounts R 0 p Q"
  by (induction p) (auto simp: neutral_def)

section \<open>An exact contract\<close>

locale exact_tickets =
  fixes S :: "call \<Rightarrow> 'w \<Rightarrow> reply \<times> 'w"
    and R :: rules
    and inv :: "'w \<Rightarrow> bool"
    and left :: "'w \<Rightarrow> nat"
    and used :: "'w \<Rightarrow> nat"
  assumes exact: "S c w = (r, w') \<Longrightarrow> \<not> forbidden R c \<Longrightarrow> inv w \<Longrightarrow>
      inv w' \<and> possible R c r \<and>
      left w' + used w' + (if grants R c r then 1 else 0)
        = left w + used w + (if spends R c then 1 else 0)"
begin

definition balanced :: "nat \<Rightarrow> unit prog list \<times> 'w \<Rightarrow> bool" where
  "balanced N s = (case s of (ps, w) \<Rightarrow> inv w \<and> (\<exists>cs.
     list_all2 (\<lambda>n p. accounts R n p (\<lambda>n _. n = 0)) cs ps \<and> left w + used w + sum_list cs = N))"

lemma balanced_exec:
  assumes "balanced N (ps, w)" and i: "i < length ps" and c: "ps ! i = Call c k"
    and S: "S c w = (r, w')"
  shows "balanced N (ps[i := k r], w')"
proof -
  obtain cs where inv: "inv w" and cs: "list_all2 (\<lambda>n p. accounts R n p (\<lambda>n _. n = 0)) cs ps"
    and eq: "left w + used w + sum_list cs = N"
    using assms(1) by (auto simp: balanced_def)
  have len: "i < length cs" using cs i by (simp add: list_all2_lengthD)
  have f: "accounts R (cs ! i) (Call c k) (\<lambda>n _. n = 0)"
    using cs i c len by (metis list_all2_nthD)
  have "\<not> forbidden R c" using f by simp
  note law = exact [OF S this inv]
  let ?n = "(if spends R c then cs ! i - 1 else cs ! i) + (if grants R c r then 1 else 0)"
  have "list_all2 (\<lambda>n p. accounts R n p (\<lambda>n _. n = 0)) (cs[i := ?n]) (ps[i := k r])"
    using cs f law by (intro list_all2_update_cong) auto
  moreover have "sum_list (cs[i := ?n]) + cs ! i = sum_list cs + ?n"
  proof -
    have "cs ! i \<le> sum_list cs" using len by (simp add: member_le_sum_list)
    moreover have "sum_list (cs[i := m]) = sum_list cs + m - cs ! i" for m
      using len by (rule sum_list_update)
    ultimately show ?thesis by simp
  qed
  moreover have "spends R c \<longrightarrow> 0 < cs ! i" using f by simp
  ultimately show ?thesis
    using eq law by (auto simp: balanced_def split: if_splits intro!: exI [of _ "cs[i := ?n]"])
qed

lemma stays_balanced:
  assumes "reachable S spawn env w0 (ps, w)" and "inv w0"
    and spawn: "\<And>w p. p \<in> spawn w \<Longrightarrow> accounts R 0 p (\<lambda>n _. n = 0)"
    and env: "\<And>w w'. env w w' \<Longrightarrow> inv w \<Longrightarrow> inv w' \<and> left w' + used w' = left w + used w"
  shows "balanced (left w0 + used w0) (ps, w)"
proof (rule reachable_invariant [OF assms(1)])
  show "balanced (left w0 + used w0) ([], w0)" using assms(2) by (auto simp: balanced_def)
next
  fix s t
  assume I: "balanced (left w0 + used w0) s" and step: "sys_step S spawn env s t"
  from step show "balanced (left w0 + used w0) t"
  proof (cases rule: sys_step.cases)
    case (exec i ps c k w r w')
    then show ?thesis using I balanced_exec by blast
  next
    case (start p w ps)
    then obtain cs where "inv w" "list_all2 (\<lambda>n p. accounts R n p (\<lambda>n _. n = 0)) cs ps"
      "left w + used w + sum_list cs = left w0 + used w0"
      using I by (auto simp: balanced_def)
    moreover have "list_all2 (\<lambda>n p. accounts R n p (\<lambda>n _. n = 0)) [0] [p]"
      using spawn start by simp
    ultimately show ?thesis
      unfolding start balanced_def
      by (auto intro!: exI [of _ "cs @ [0]"] list_all2_appendI)
  next
    case (environment w w' ps)
    then show ?thesis using I env [of w w'] unfolding balanced_def by fastforce
  qed
qed

text \<open>Once every program has ended, what is left and what was used is what there was.\<close>

lemma settles:
  assumes "balanced N (ps, w)" and "\<forall>p\<in>set ps. ended p"
  shows "left w + used w = N"
proof -
  obtain cs where cs: "list_all2 (\<lambda>n p. accounts R n p (\<lambda>n _. n = 0)) cs ps"
    and eq: "left w + used w + sum_list cs = N"
    using assms(1) by (auto simp: balanced_def)
  have "n = 0" if "n \<in> set cs" for n
  proof -
    from that [unfolded in_set_conv_nth] obtain i where i: "i < length cs" "cs ! i = n" by blast
    with cs have "accounts R n (ps ! i) (\<lambda>n _. n = 0)" and "ps ! i \<in> set ps"
      by (auto simp: list_all2_conv_all_nth)
    then show "n = 0" using assms(2) by (auto simp: ended_def)
  qed
  then have "sum_list cs = 0" by (simp add: sum_list_eq_0_iff)
  with eq show ?thesis by simp
qed

end

section \<open>The stock of an activity, exactly\<close>

text \<open>Calls that would touch the activity's counters other than by deducting one unit.\<close>

fun tampers :: "int \<Rightarrow> call \<Rightarrow> bool" where
  "tampers a (Redis (EVAL script keys argv)) =
     (\<not> (\<exists>b u l. Redis (EVAL script keys argv) = deduct_call b u 1 l \<and> (b = a \<longrightarrow> small l)))"
| "tampers a (Redis (SET k v t)) = (k = stock_key a \<or> (\<exists>u. k = user_buy_key a u))"
| "tampers a (Redis (SETNX k v t)) = (k = stock_key a \<or> (\<exists>u. k = user_buy_key a u))"
| "tampers a (Redis (INCR k)) = (k = stock_key a \<or> (\<exists>u. k = user_buy_key a u))"
| "tampers a c = False"

definition unit_granted :: "int \<Rightarrow> call \<Rightarrow> reply \<Rightarrow> bool" where
  "unit_granted a c r \<longleftrightarrow> (\<exists>u l. c = deduct_call a u 1 l) \<and> (\<exists>v\<ge>0. r = RInt v)"

fun sends_order :: "string \<Rightarrow> int \<Rightarrow> call \<Rightarrow> bool" where
  "sends_order topic a (KWrite tp key v t hs) = (tp = topic \<and> message_for (any_user a) v)"
| "sends_order topic a c = False"

text \<open>A row an order can be made from, and what replies can be on services that do not fail.\<close>

definition sound_row :: "Activity \<Rightarrow> bool" where
  "sound_row act \<longleftrightarrow> in64 (a_ProductID act) \<and> small (a_PerUserLimit act)"

definition sane_reply :: "int \<Rightarrow> call \<Rightarrow> reply \<Rightarrow> bool" where
  "sane_reply a c r \<longleftrightarrow> (c = Now \<longrightarrow> (\<exists>i. r = RInt i \<and> in64 i)) \<and>
     (c = Sql MainDB (SelectActivity a) \<longrightarrow> (\<forall>act. r = RActivity act \<longrightarrow> sound_row act))"

definition balance_rules :: "string \<Rightarrow> int \<Rightarrow> rules" where
  "balance_rules topic a =
     \<lparr>possible = sane_reply a, grants = unit_granted a, spends = sends_order topic a, forbidden = tampers a\<rparr>"

lemma balance_simps [simp]:
  "possible (balance_rules topic a) = sane_reply a" "grants (balance_rules topic a) = unit_granted a"
  "spends (balance_rules topic a) = sends_order topic a" "forbidden (balance_rules topic a) = tampers a"
  by (simp_all add: balance_rules_def)

text \<open>An activity on sale: warmed, with counters that are small numbers and a sound row.\<close>

definition sellable :: "int \<Rightarrow> keyspace \<Rightarrow> (dbid \<Rightarrow> tables) \<Rightarrow> bool" where
  "sellable a ks t \<longleftrightarrow> counter_ok (ks (stock_key a)) \<and> (\<forall>u. counter_ok (ks (user_buy_key a u))) \<and>
     (\<exists>i\<ge>0. stock_left ks a = Some i) \<and>
     (\<exists>act. activities (t MainDB) a = Some act \<and> sound_row act)"

definition messages_out :: "int \<Rightarrow> payload list \<Rightarrow> nat" where
  "messages_out a l = length (filter (message_for (any_user a)) l)"

lemma counter_ok_cases:
  assumes "counter_ok (ks (user_buy_key a u))"
  obtains j where "purchases ks a u = Some j" "small j"
proof (cases "ks (user_buy_key a u)")
  case None
  then show ?thesis by (intro that [of 0]) (simp_all add: purchases_def small_def)
next
  case (Some x)
  then show ?thesis using assms that by (cases x) (auto simp: counter_ok_def purchases_def split: option.splits)
qed

lemma stock_ok_small: "counter_ok (ks (stock_key a)) \<Longrightarrow> stock_left ks a = Some i \<Longrightarrow> small i"
  by (auto simp: counter_ok_def stock_left_def split: option.splits)

lemma script_exact:
  assumes run: "run_lua (stock_deduct [stock_key b, user_buy_key b v] [show_int 1, show_int l]) ks = (r, ks')"
    and ok: "counter_ok (ks (stock_key a))" "\<forall>u. counter_ok (ks (user_buy_key a u))" and l: "b = a \<longrightarrow> small l"
  shows "counter_ok (ks' (stock_key a)) \<and> (\<forall>u. counter_ok (ks' (user_buy_key a u))) \<and>
    (stock_left ks' a = stock_left ks a \<or> (\<exists>i\<ge>0. stock_left ks' a = Some i)) \<and>
    units (stock_left ks' a) + (if a = b \<and> (\<exists>x\<ge>0. r = RInt x) then 1 else 0) = units (stock_left ks a)"
proof (cases "b = a")
  case False
  then have "stock_left ks' a = stock_left ks a" "ks' (stock_key a) = ks (stock_key a)"
    "ks' (user_buy_key a u) = ks (user_buy_key a u)" for u
    using script_cases [OF run] by (auto simp: key_simps intro!: stock_left_other)
  then show ?thesis using ok False by auto
next
  case True
  obtain m where m: "purchases ks a v = Some m" "small m" using counter_ok_cases ok(2) by blast
  have m1: "in64 (m + 1)" using m(2) by (auto simp: small_def in64_def)
  from script_cases [OF run] show ?thesis
  proof (elim disjE exE conjE)
    assume "ks' = ks" "\<forall>v. r = RInt v \<longrightarrow> v < 0"
    then show ?thesis using ok by fastforce
  next
    assume "\<forall>j. purchases ks b v = Some j \<longrightarrow> \<not> in64 (j + 1)"
    then show ?thesis using m m1 True by simp
  next
    fix i j ttl
    assume i: "stock_left ks b = Some i" "0 < i" "in64 (i - 1)" and j: "purchases ks b v = Some j"
      "round_double (round_double j + 1) \<le> round_double l"
      and ks': "ks' = ks(stock_key b \<mapsto> (show_int (i - 1), ttl), user_buy_key b v \<mapsto> (show_int (j + 1), Some day))"
      and r: "r = RInt (round_double (i - 1))"
    have "small i" using stock_ok_small ok(1) i(1) True by blast
    then have i1: "small (i - 1)" using i(2) by (auto simp: small_def)
    have "j = m" using j(1) m(1) True by simp
    then have "small (j + 1)" using j(2) m(2) l True by (auto simp: small_def round_double_id)
    moreover have "stock_left ks' a = Some (i - 1)"
      using ks' True i(3) by (intro stock_left_dec) (auto simp: key_simps)
    moreover have "round_double (i - 1) = i - 1" using i1 by (rule small_round)
    ultimately show ?thesis
      using ks' ok i i1 r True nat_dec [OF i(2)] by (auto simp: counter_ok_show key_simps)
  qed
qed

lemma redis_exact:
  assumes sem: "redis_sem c ks = (r, ks')" and nt: "\<not> tampers a (Redis c)"
    and ok: "counter_ok (ks (stock_key a))" "\<forall>u. counter_ok (ks (user_buy_key a u))"
  shows "counter_ok (ks' (stock_key a)) \<and> (\<forall>u. counter_ok (ks' (user_buy_key a u))) \<and>
    (stock_left ks' a = stock_left ks a \<or> (\<exists>i\<ge>0. stock_left ks' a = Some i)) \<and>
    units (stock_left ks' a) + (if unit_granted a (Redis c) r then 1 else 0) = units (stock_left ks a)"
proof (cases "\<exists>script keys argv. c = EVAL script keys argv")
  case True
  then obtain b v l where c: "Redis c = deduct_call b v 1 l" and l: "b = a \<longrightarrow> small l" using nt by auto
  then have "run_lua (stock_deduct [stock_key b, user_buy_key b v] [show_int 1, show_int l]) ks = (r, ks')"
    using sem by (auto simp: deduct_call_def)
  note law = script_exact [OF this ok l]
  have "unit_granted a (Redis c) r = (a = b \<and> (\<exists>x\<ge>0. r = RInt x))"
    unfolding c by (auto simp: unit_granted_def deduct_call_inject)
  then show ?thesis using law by simp
next
  case False
  have none: "\<not> unit_granted a (Redis c) r"
    using False by (auto simp: unit_granted_def deduct_call_def)
  have same: "map_option fst (ks' k) = map_option fst (ks k)"
    if k: "k = stock_key a \<or> (\<exists>u. k = user_buy_key a u)" for k
  proof (cases c)
    case (INCR j)
    obtain x ks1 where inc: "incr_by j 1 ks = (x, ks1)" by (cases "incr_by j 1 ks")
    have "ks' = ks1" using INCR sem inc by (auto split: sum.splits)
    moreover have "j \<noteq> k" using k nt INCR by auto
    moreover from inc have "ks1 i = ks i" if "i \<noteq> j" for i
      using that by (cases rule: incr_by_cases) auto
    ultimately show ?thesis by simp
  qed (use sem nt k False in \<open>auto simp: set_ttl_def split: option.splits prod.splits\<close>)
  have counter: "counter_ok (ks' k)" if "map_option fst (ks' k) = map_option fst (ks k)" "counter_ok (ks k)" for k
    using that by (cases "ks k"; cases "ks' k") (auto simp: counter_ok_def)
  have "stock_left ks' a = stock_left ks a" by (rule stock_left_cong) (simp add: same)
  moreover have "counter_ok (ks' (stock_key a))" using counter same ok(1) by blast
  moreover have "counter_ok (ks' (user_buy_key a u))" for u using counter same ok(2) by blast
  ultimately show ?thesis using none by simp
qed

lemma sql_row_kept:
  assumes "sql_sem coll dt s t = Some (r, t')" and "activities t a = Some act" and "sound_row act"
  shows "\<exists>act'. activities t' a = Some act' \<and> sound_row act'"
  using assms by (cases s) (auto simp: sound_row_def split: option.splits if_splits)

sublocale reliable_services \<subseteq> exact_stock: exact_tickets S "balance_rules topic a"
    "\<lambda>w. sellable a (ks w) (tbl w)" "\<lambda>w. units (stock_left (ks w) a)" "\<lambda>w. messages_out a (log w topic)"
  for topic a
proof
  let ?R = "balance_rules topic a"
  fix c w r w'
  assume S: "S c w = (r, w')" and "\<not> forbidden ?R c" and inv: "sellable a (ks w) (tbl w)"
  then have nt: "\<not> tampers a c" by simp
  have ok: "counter_ok (ks w (stock_key a))" "\<forall>u. counter_ok (ks w (user_buy_key a u))"
    using inv by (auto simp: sellable_def)
  have stock: "counter_ok (ks w' (stock_key a)) \<and> (\<forall>u. counter_ok (ks w' (user_buy_key a u))) \<and>
    (stock_left (ks w') a = stock_left (ks w) a \<or> (\<exists>i\<ge>0. stock_left (ks w') a = Some i)) \<and>
    units (stock_left (ks w') a) + (if unit_granted a c r then 1 else 0) = units (stock_left (ks w) a)"
  proof (cases "\<exists>x. c = Redis x")
    case True
    then obtain x where c: "c = Redis x" by blast
    with S redis_ok have "redis_sem x (ks w) = (r, ks w')" by metis
    from redis_exact [OF this _ ok] nt c show ?thesis by simp
  next
    case False
    then have "ks w' = ks w" using other_frame(1) [OF S] by blast
    moreover have "\<not> unit_granted a c r" using False by (auto simp: unit_granted_def deduct_call_def)
    ultimately show ?thesis using ok by simp
  qed
  have sent: "messages_out a (log w' topic) = messages_out a (log w topic) + (if sends_order topic a c then 1 else 0)"
  proof (cases "\<exists>tp k v t hs. c = KWrite tp k v t hs")
    case True
    then obtain tp k v t hs where c: "c = KWrite tp k v t hs" by blast
    then show ?thesis using kafka_ok [of tp k v t hs w r w'] S by (auto simp: messages_out_def)
  next
    case False
    then have "log w' = log w" using other_frame(3) [OF S] by blast
    moreover have "\<not> sends_order topic a c" using False by (auto elim: sends_order.elims)
    ultimately show ?thesis by simp
  qed
  obtain act where act: "activities (tbl w MainDB) a = Some act" "sound_row act"
    using inv by (auto simp: sellable_def)
  have row: "(\<exists>act'. activities (tbl w' MainDB) a = Some act' \<and> sound_row act') \<and>
      (c = Sql MainDB (SelectActivity a) \<longrightarrow> (\<forall>act. r = RActivity act \<longrightarrow> sound_row act))"
  proof (cases "\<exists>d s. c = Sql d s")
    case True
    then obtain d s where c: "c = Sql d s" by blast
    show ?thesis
    proof (cases "sql_sem coll dt s (tbl w d)")
      case None
      then show ?thesis
        using sql_ok [of d s w r w'] sql_duplicate [of d s w r w'] S c act by auto
    next
      case (Some x)
      then obtain r0 t0 where sem: "sql_sem coll dt s (tbl w d) = Some (r0, t0)" "r = r0" "tbl w' = (tbl w)(d := t0)"
        using sql_ok [of d s w r w'] S c by (cases x) auto
      then show ?thesis using sql_row_kept [OF sem(1), of a] act c by (cases "d = MainDB") auto
    qed
  next
    case False
    then show ?thesis using other_frame(2) [OF S] act by auto
  qed
  have nonneg: "\<exists>i\<ge>0. stock_left (ks w') a = Some i"
    using stock inv unfolding sellable_def by fastforce
  have "c = Now \<longrightarrow> (\<exists>i. r = RInt i \<and> in64 i)" using now_int S by blast
  then show "sellable a (ks w') (tbl w') \<and> possible ?R c r \<and>
      units (stock_left (ks w') a) + messages_out a (log w' topic) + (if grants ?R c r then 1 else 0)
      = units (stock_left (ks w) a) + messages_out a (log w topic) + (if spends ?R c then 1 else 0)"
    using stock sent row nonneg by (auto simp: sellable_def sane_reply_def)
qed

section \<open>The middleware accounts\<close>

definition accounts_handler :: "rules \<Rightarrow> handler \<Rightarrow> bool" where
  "accounts_handler R h \<longleftrightarrow> (\<forall>c. accounts R 0 (h c) (\<lambda>n _. n = 0))"

lemma accounts_handlerD: "accounts_handler R h \<Longrightarrow> accounts R 0 (h c) (\<lambda>n _. n = 0)"
  by (simp add: accounts_handler_def)

lemma accounts_RequestID: "middleware_rules W R \<Longrightarrow> accounts_handler R h \<Longrightarrow> accounts_handler R (RequestID h)"
  by (simp add: accounts_handler_def RequestID_def Let_def middleware_steps split: sum.splits)

lemma accounts_Recovery: "accounts_handler R h \<Longrightarrow> accounts_handler R (Recovery W h)"
  by (simp add: accounts_handler_def Recovery_def accounts_recover)

lemma accounts_Metrics: "middleware_rules W R \<Longrightarrow> accounts_handler R h \<Longrightarrow> accounts_handler R (Metrics_mw h)"
  unfolding accounts_handler_def
  by (auto simp: Metrics_mw_def Let_def middleware_steps intro: accounts_weaken)

lemma accounts_RateLimit:
  "middleware_rules W R \<Longrightarrow> accounts_handler R h \<Longrightarrow> accounts_handler R (RateLimit_mw W k h)"
  unfolding accounts_handler_def
  by (auto simp: RateLimit_mw_def Let_def middleware_steps split: sum.splits)

lemma accounts_Idempotency:
  assumes "middleware_rules W R" and "accounts_handler R h"
  shows "accounts_handler R (Idempotency_mw W h)"
  unfolding accounts_handler_def
proof
  fix c
  note h = accounts_handlerD [OF assms(2)]
  have first: "accounts R 0 (idem_first W (idem_key a u s) h c) (\<lambda>n _. n = 0)" for a u s
    unfolding idem_first_def accounts_bindp
    by (rule accounts_weaken [OF h]) (simp add: middleware_steps assms(1))
  have hit: "accounts R 0 (idem_hit W (idem_key a u s) h c) (\<lambda>n _. n = 0)" for a u s
    using assms(1) h
    by (auto simp: idem_hit_def idem_replay_def middleware_steps split: sum.splits prod.splits option.splits)
  show "accounts R 0 (Idempotency_mw W h c) (\<lambda>n _. n = 0)"
    using assms(1) h first hit
    by (auto simp: Idempotency_mw_def Let_def middleware_steps split: sum.splits prod.splits)
qed

lemma accounts_serve:
  assumes "middleware_rules W R" and "accounts_handler R (api_handler W A rt)"
  shows "accounts R 0 (serve W A rt c) (\<lambda>n _. n = 0)"
  unfolding serve_def
  by (rule accounts_handlerD)
     (use assms in \<open>auto intro!: accounts_RequestID accounts_Recovery accounts_Metrics accounts_RateLimit\<close>)

section \<open>An attempt accounts for its unit\<close>

lemma ambient_balance: "ambient_call c \<Longrightarrow> neutral (balance_rules topic a) c"
  by (cases c rule: ambient_call.cases) (auto simp: neutral_def unit_granted_def deduct_call_def)

lemma balance_middleware: "middleware_rules W (balance_rules topic a)"
  by (rule ambient_middleware) (simp add: ambient_rules_def ambient_balance)

lemma ambient_accounts: "makes ambient_call p \<Longrightarrow> accounts (balance_rules topic a) 0 p (\<lambda>n _. n = 0)"
  by (rule accounts_neutral) (auto elim!: makes_mono simp: ambient_balance)

abbreviation in_hand :: "int \<Rightarrow> int \<Rightarrow> nat" where
  "in_hand a b \<equiv> if b = a then 1 else 0"

text \<open>A message made from 64-bit fields decodes, so sending it spends the unit.\<close>

lemma message_spends:
  assumes "Marshal m = Inr v" and "message_in64 m"
  shows "message_for (any_user a) v \<longleftrightarrow> m_ActivityID m = a"
  using Unmarshal_Marshal [OF assms(2,1)] by (simp add: message_for_def any_user_def)

lemma create_accounts:
  assumes "in64 (o_ID x)" "in64 (o_ActivityID x)" "in64 (o_UserID x)" "o_ActivityID x = a \<longrightarrow> in64 (o_ProductID x)"
  shows "accounts (balance_rules topic a) (in_hand a (o_ActivityID x))
    (KafkaOrderCreator_CreateWithToken topic x tok) (\<lambda>n _. n = 0)"
proof -
  have "accounts (balance_rules topic a) (in_hand a (o_ActivityID x))
      (SendOrder topic \<lparr>m_Version = 1, m_OrderID = o_ID x, m_ActivityID = o_ActivityID x, m_UserID = o_UserID x,
         m_ProductID = o_ProductID x, m_IdempotencyToken = o_IdempotencyToken x, m_QueueToken = tok,
         m_ProducedAt = t\<rparr>) (\<lambda>n _. n = 0)" (is "accounts _ _ (SendOrder topic ?m) _") if t: "in64 t" for t
  proof -
    obtain v where v: "Marshal ?m = Inr v" using in64_year_ok [OF t] by (simp add: Marshal_def)
    have "message_for (any_user a) v \<longleftrightarrow> o_ActivityID x = a"
    proof (cases "o_ActivityID x = a")
      case True
      then have "message_in64 ?m" using assms by (simp add: message_in64_def) (simp add: in64_def)
      from message_spends [OF v this] show ?thesis by simp
    next
      case False
      then show ?thesis using message_for_Marshal [OF v, of "any_user a"] by (auto simp: any_user_def)
    qed
    then show ?thesis using v by (simp add: SendOrder_def unit_granted_def deduct_call_def)
  qed
  then show ?thesis
    by (auto simp: KafkaOrderCreator_CreateWithToken_def sane_reply_def unit_granted_def deduct_call_def)
qed

lemma not_granted [simp]: "\<not> (\<exists>u l. c = deduct_call a u 1 l) \<Longrightarrow> \<not> unit_granted a c r"
  by (auto simp: unit_granted_def)

lemma id_accounts: "accounts (balance_rules topic a) n nextID (\<lambda>m i. m = n \<and> in64 i)"
  by (simp add: nextID_def deduct_call_def add64_def)

lemma token_accounts:
  "accounts (balance_rules topic a) n (seckill_token (api_service sw shards topic') i) (\<lambda>m _. m = n)"
  by (auto simp: seckill_token_def api_service_eq QueueService_New_def deduct_call_def key_simps
      split: sum.splits option.splits)

lemma place_accounts:
  assumes "KafkaOrder sw" and "in64 (rq_ActivityID req)" and "in64 (rq_UserID req)"
    and "rq_ActivityID req = a \<longrightarrow> sound_row act"
  shows "accounts (balance_rules topic a) (in_hand a (rq_ActivityID req))
    (seckill_place (api_service sw shards topic) req act now rem) (\<lambda>n _. n = 0)"
proof -
  have create: "accounts (balance_rules topic a) (in_hand a (rq_ActivityID req))
      (seckill_create (api_service sw shards topic) (new_order req act now i) tok) (\<lambda>n _. n = 0)"
    if "in64 i" for i tok
    using create_accounts [of "new_order req act now i" a topic tok] that assms
    by (simp add: seckill_create_def api_service_eq new_order_def sound_row_def)
  have rest: "accounts (balance_rules topic a) (in_hand a (rq_ActivityID req))
      (bindp (seckill_create (api_service sw shards topic) (new_order req act now i) tok) f) (\<lambda>n _. n = 0)"
    if "in64 i" and "\<And>err. \<exists>x. f err = Ret x" for i tok and f :: "goerr option \<Rightarrow> (SeckillOutput \<times> goerr option) prog"
  proof -
    have "accounts (balance_rules topic a) 0 (f err) (\<lambda>n _. n = 0)" for err using that(2) [of err] by auto
    then show ?thesis unfolding accounts_bindp by (intro accounts_weaken [OF create [OF that(1)]]) auto
  qed
  have ids: "accounts (balance_rules topic a) n (s_nextID (api_service sw shards topic)) (\<lambda>m i. m = n \<and> in64 i)" for n
    using id_accounts by (simp add: api_service_eq)
  show ?thesis
    unfolding seckill_place_def
    by (subst accounts_bindp, rule accounts_weaken [OF ids], elim conjE, simp only:,
        subst accounts_bindp, rule accounts_weaken [OF token_accounts], simp only:, rule rest)
       (auto split: option.splits)
qed

lemma reserve_accounts:
  assumes "b = a \<longrightarrow> small l"
  shows "accounts (balance_rules topic a) 0 (stockRedisRepo_DeductForUser b u 1 l)
    (\<lambda>n res. n = (if b = a \<and> (\<exists>rem. res = Inr rem) then 1 else 0))"
proof -
  have result: "(\<exists>rem. lua_result r = Inr rem) \<longleftrightarrow> (\<exists>v\<ge>0. r = RInt v)" for r
    by (cases r) (auto simp: lua_result_def as_int_def)
  have granted: "unit_granted a (deduct_call b u 1 l) r \<longleftrightarrow> b = a \<and> (\<exists>v\<ge>0. r = RInt v)" for r
    by (auto simp: unit_granted_def deduct_call_inject)
  have "\<not> tampers a (deduct_call b u 1 l)" using assms by (auto simp: deduct_call_def)
  moreover have "\<not> sends_order topic a (deduct_call b u 1 l)" by (simp add: deduct_call_def)
  ultimately show ?thesis
    by (auto simp: stockRedisRepo_DeductForUser_eq granted result)
qed

lemma lookup_accounts:
  "accounts (balance_rules topic a) 0 (activityRepo_GetByID b)
    (\<lambda>n found. n = 0 \<and> (\<forall>act. found = Inr act \<longrightarrow> b = a \<longrightarrow> sound_row act))"
  by (auto simp: activityRepo_GetByID_def as_activity_Inr sane_reply_def deduct_call_def split: sum.splits)

lemma Seckill_accounts:
  assumes "LuaStock sw" and "KafkaOrder sw" and "in64 (rq_ActivityID req)" and "in64 (rq_UserID req)"
  shows "accounts (balance_rules topic a) 0 (Seckill (api_service sw shards topic) req) (\<lambda>n _. n = 0)"
proof -
  let ?R = "balance_rules topic a" and ?s = "api_service sw shards topic"
  have deduct: "accounts ?R 0 (seckill_deduct ?s req act now) (\<lambda>n _. n = 0)"
    if row: "rq_ActivityID req = a \<longrightarrow> sound_row act" for act now
  proof -
    have reserve: "accounts ?R 0 (s_stock ?s (rq_ActivityID req) (rq_UserID req) 1 (a_PerUserLimit act))
        (\<lambda>n res. n = (if rq_ActivityID req = a \<and> (\<exists>rem. res = Inr rem) then 1 else 0))"
      using reserve_accounts [of "rq_ActivityID req" a "a_PerUserLimit act"] row assms(1)
      by (simp add: api_service_eq sound_row_def)
    note place = place_accounts [OF assms(2-4) row]
    show ?thesis
      unfolding seckill_deduct_def accounts_bindp
    proof (rule accounts_weaken [OF reserve], goal_cases)
      case (1 n res)
      then show ?case using place by (cases res) auto
    qed
  qed
  have window: "accounts ?R 0 (seckill_window ?s req act) (\<lambda>n _. n = 0)"
    if "rq_ActivityID req = a \<longrightarrow> sound_row act" for act
  proof -
    have "s_now ?s = time_Now" by (simp add: api_service_eq)
    then show ?thesis
      using deduct [OF that] by (simp only: seckill_window_def time_Now_def bindp.simps accounts.simps)
        (simp add: deduct_call_def unit_granted_def)
  qed
  have "accounts ?R 0 (s_activities ?s b)
    (\<lambda>n found. n = 0 \<and> (\<forall>act. found = Inr act \<longrightarrow> b = a \<longrightarrow> sound_row act))" for b
    using lookup_accounts by (simp add: api_service_eq)
  then show ?thesis
    unfolding Seckill_def accounts_bindp
    by (rule accounts_weaken) (auto simp: window split: sum.splits)
qed

lemma bound_request:
  assumes "bind_request W c = Inr req"
  shows "in64 (rq_ActivityID req) \<and> in64 (rq_UserID req)"
proof -
  let ?I = "\<lambda>q. in64 (rq_ActivityID q) \<and> in64 (rq_UserID q)"
  have step: "?I q'" if "decode_request key v q = Stored q'" "?I q" for key v q q'
    using that by (auto simp: decode_request_def decode_defs split: if_splits json.splits)
  have "?I (fst (Unmarshal decode_request zero_request b))" for b
    using decode_fields_invariant [where I = ?I and dec = decode_request and m = zero_request] step
    by (auto simp: Unmarshal_def zero_request_def in64_def split: payload.splits json.splits)
  then show ?thesis
    using assms by (auto simp: bind_request_def split: sum.splits prod.splits option.splits if_splits) (metis fst_conv)+
qed

section \<open>A deployment accounts for every unit\<close>

lemma handler_accounts:
  assumes "LuaStock (api_switches A)" and "KafkaOrder (api_switches A)" and "no_restock A a rt"
  shows "accounts_handler (balance_rules (api_OrderTopic A) a) (api_handler W A rt)"
proof (cases rt)
  case PostSeckill
  have "accounts (balance_rules (api_OrderTopic A) a) 0 (handler_Seckill W (api_seckill A) c) (\<lambda>n _. n = 0)" for c
    using bound_request [of W c] Seckill_accounts [OF assms(1,2)]
    by (auto simp: handler_Seckill_def api_seckill_def split: sum.splits)
  then have "accounts_handler (balance_rules (api_OrderTopic A) a) (handler_Seckill W (api_seckill A))"
    by (simp add: accounts_handler_def)
  then show ?thesis
    using accounts_Idempotency [OF balance_middleware] PostSeckill by (simp add: accounts_handler_def)
next
  case (PostWarm p)
  have "makes (neutral (balance_rules (api_OrderTopic A) a)) (AdminWarmActivity W AdminService_Warm (c\<lparr>cx_Param := p\<rparr>))" for c
    by (rule makes_mono [OF makes_AdminWarm])
       (use PostWarm assms(1,3) ambient_balance in \<open>auto simp: neutral_def key_simps deduct_call_def\<close>)
  then show ?thesis using PostWarm by (simp add: accounts_handler_def accounts_neutral)
qed (auto simp: accounts_handler_def intro!: ambient_accounts makes_OrderByToken makes_AdminCreate)

lemma deployed_accounts:
  assumes "p \<in> deployed W A dlq (no_restock A a)" and "LuaStock (api_switches A)" and "KafkaOrder (api_switches A)"
    and "dlq \<noteq> api_OrderTopic A"
  shows "accounts (balance_rules (api_OrderTopic A) a) 0 p (\<lambda>n _. n = 0)"
  using assms(1)
proof cases
  case (request rt c)
  then have "accounts (balance_rules (api_OrderTopic A) a) 0 (serve W A rt c) (\<lambda>n _. n = 0)"
    by (intro accounts_serve balance_middleware handler_accounts assms)
  then show ?thesis using request by (auto intro: accounts_weaken)
next
  case (consumer fuel)
  have "makes (neutral (balance_rules (api_OrderTopic A) a))
      (Run fuel (order_consumer (api_switches A) (api_shards A) (api_OrderTopic A) dlq))"
    by (rule makes_mono [OF makes_order_consumer])
       (use assms(4) ambient_balance in \<open>auto simp: neutral_def consumer_call_def deduct_call_def\<close>)
  then show ?thesis using consumer by (simp add: accounts_neutral)
next
  case (sweeper fuel s acts)
  then show ?thesis using ambient_accounts [OF ambient_sweeper] by (auto intro: accounts_weaken)
qed

context reliable_services begin

lemma deployment_balances:
  assumes "reachable S spawn env w0 (ps, w)" and "sellable a (ks w0) (tbl w0)"
    and sw: "LuaStock (api_switches A)" "KafkaOrder (api_switches A)"
    and spawn: "\<forall>w. spawn w \<subseteq> deployed W A dlq (no_restock A a)" and dlq: "dlq \<noteq> api_OrderTopic A"
    and env: "\<forall>w w'. env w w' \<longrightarrow> expiry (ks w) (ks w') \<and> ks w' (stock_key a) = ks w (stock_key a) \<and>
      tbl w' = tbl w \<and> log w' = log w"
    and ended: "\<forall>p\<in>set ps. ended p"
  shows "sellable a (ks w) (tbl w)"
    and "units (stock_left (ks w) a) + messages_out a (log w (api_OrderTopic A))
      = units (stock_left (ks w0) a) + messages_out a (log w0 (api_OrderTopic A))"
proof -
  have "exact_stock.balanced (api_OrderTopic A) a
      (units (stock_left (ks w0) a) + messages_out a (log w0 (api_OrderTopic A))) (ps, w)"
  proof (rule exact_stock.stays_balanced [OF assms(1,2)])
    show "accounts (balance_rules (api_OrderTopic A) a) 0 p (\<lambda>n _. n = 0)" if "p \<in> spawn w" for w p
      using that spawn deployed_accounts [OF _ sw dlq] by blast
  next
    fix w w'
    assume "env w w'" and inv: "sellable a (ks w) (tbl w)"
    with env have e: "expiry (ks w) (ks w')" "ks w' (stock_key a) = ks w (stock_key a)" "tbl w' = tbl w" "log w' = log w"
      by auto
    have "counter_ok (ks w' (user_buy_key a u))" for u
      using e(1) inv by (auto simp: expiry_def sellable_def counter_ok_def split: option.splits) (metis option.distinct(1) option.inject prod.inject)+
    then show "sellable a (ks w') (tbl w') \<and>
        units (stock_left (ks w') a) + messages_out a (log w' (api_OrderTopic A))
        = units (stock_left (ks w) a) + messages_out a (log w (api_OrderTopic A))"
      using inv e stock_left_other [of "ks w'" a "ks w"] by (simp add: sellable_def)
  qed
  note final = this
  show "units (stock_left (ks w) a) + messages_out a (log w (api_OrderTopic A))
      = units (stock_left (ks w0) a) + messages_out a (log w0 (api_OrderTopic A))"
    by (rule exact_stock.settles [OF final ended])
  show "sellable a (ks w) (tbl w)" using final unfolding exact_stock.balanced_def prod.case by (rule conjunct1)
qed

end

section \<open>Nothing is undersold\<close>

text \<open>
  C6. No unit is lost.  While nothing fails, with the stock warmed in Redis and orders through
  Kafka: once the programs of a deployment have ended, however their calls were interleaved, the units
  left and the messages published add up to exactly what they were at the start.
\<close>

theorem no_unit_lost:
  assumes "reliable_services S ks tbl logs coll dt"
    and "reachable S spawn env w0 (ps, w)"
    and "LuaStock (api_switches A)" and "KafkaOrder (api_switches A)"
    and "\<forall>w. spawn w \<subseteq> deployed W A dlq (no_restock A a)"
    and "dlq \<noteq> api_OrderTopic A"
    and "\<forall>w w'. env w w' \<longrightarrow> expiry (ks w) (ks w') \<and> ks w' (stock_key a) = ks w (stock_key a) \<and>
      tbl w' = tbl w \<and> logs w' = logs w"
    and "sellable a (ks w0) (tbl w0)"
    and "\<forall>p\<in>set ps. ended p"
  shows "units (stock_left (ks w) a) + messages_out a (logs w (api_OrderTopic A))
    = units (stock_left (ks w0) a) + messages_out a (logs w0 (api_OrderTopic A))"
  using reliable_services.deployment_balances(2) [OF assms(1,2,8,3,4,5,6,7,9)] .

theorem no_unit_lost_witness:
  "(case run mem_call (bindp ex_post (\<lambda>_. Ret ())) ex_world of (r, w) \<Rightarrow>
      units (stock_left (mem_ks w) 7) + messages_out 7 (mem_log w TopicSeckillOrders)) = 2"
proof -
  let ?p = "bindp ex_post (\<lambda>_. Ret ())" and ?spawn = "ex_spawn (no_restock ex_api 7)"
  obtain r w where run: "run mem_call ?p ex_world = (r, w)" by (cases "run mem_call ?p ex_world")
  have "?p \<in> ?spawn ex_world" unfolding ex_post_def by (rule deployed.request) simp
  from reachable_run_ends [where spawn = ?spawn, OF reachable.initial this run]
  have ps: "reachable mem_call ?spawn (\<lambda>_ _. False) ex_world ([end_of r], w)" by simp
  have ex_stock: "stock_left (mem_ks ex_world) 7 = Some 2" by code_simp
  have "sound_row ex_activity" by (simp add: sound_row_def ex_activity_def in64_def small_def)
  then have "sellable 7 (mem_ks ex_world) (mem_tbl ex_world)"
    using ex_counters ex_stock by (simp add: sellable_def counters_ok_def) (simp add: ex_world_def ex_tables_def)
  with no_unit_lost [OF memory.reliable_services_axioms ps, of ex_api ex_wire TopicSeckillDLQ 7]
  have "units (stock_left (mem_ks w) 7) + messages_out 7 (mem_log w TopicSeckillOrders) =
    units (stock_left (mem_ks ex_world) 7) + messages_out 7 (mem_log ex_world TopicSeckillOrders)"
    by (simp add: ex_api_def all_on_def TopicSeckillOrders_def TopicSeckillDLQ_def)
  also have "\<dots> = 2" by code_simp
  finally show ?thesis by (simp add: run)
qed

end
