(* ===== verification/Settlement.thy ===== *)
theory Settlement
  imports Drain Balance
begin

text \<open>
  The books of a sale balance.  \<open>Balance\<close> says that no unit is lost between stock and topic,
  \<open>Drain\<close> what the consumer makes of the topic; together, once a sale is over and the consumer
  has emptied the topic, stock and rows add up to the total and the sweeper finds no drift.
\<close>

section \<open>Rows of a topic of distinct orders\<close>

definition order_in :: "payload \<Rightarrow> Order option" where
  "order_in v = (case UnmarshalOrderMessage v of (m, None) \<Rightarrow> Some (order_of m) | (m, Some _) \<Rightarrow> None)"

definition orders_in :: "payload list \<Rightarrow> Order list" where
  "orders_in vs = List.map_filter order_in vs"

lemma orders_in_simps [simp]:
  "orders_in [] = []"
  "orders_in (v # vs) = (case order_in v of None \<Rightarrow> orders_in vs | Some x \<Rightarrow> x # orders_in vs)"
  by (simp_all add: orders_in_def List.map_filter_simps split: option.splits)

lemma after_message_order:
  "after_message coll dt sw shards v t =
     (case order_in v of
        None \<Rightarrow> t
      | Some x \<Rightarrow> (case insert_db sw shards x of
          None \<Rightarrow> t
        | Some d \<Rightarrow> if order_conflict coll x (orders_0 (t d)) then t else with_row dt d x t))"
  by (auto simp: after_message_def order_in_def split: prod.splits option.splits)

lemma message_for_order: "message_for (any_user a) v \<longleftrightarrow> (\<exists>x. order_in v = Some x \<and> o_ActivityID x = a)"
  by (auto simp: message_for_def order_in_def any_user_def order_of_def split: prod.splits option.splits)

lemma insert_db_in: "insert_db sw shards x = Some d \<Longrightarrow> d \<in> set (order_dbs sw shards)"
  by (auto simp: insert_db_def order_dbs_def shard_of_in_set split: if_splits)

lemma rows_of_with_row:
  assumes "distinct dbs" and "d \<in> set dbs"
  shows "rows_of (with_row dt d x t) dbs a = rows_of t dbs a + (if o_ActivityID x = a then 1 else 0)"
  using assms
proof (induction dbs)
  case (Cons e dbs)
  show ?case
  proof (cases "e = d")
    case True
    have "rows_of (with_row dt d x t) dbs a = rows_of t dbs a"
      using Cons.prems True by (auto simp: rows_of_def with_row_def intro!: arg_cong [where f = sum_list])
    then show ?thesis using True by (simp add: rows_of_def with_row_def stored_order_def)
  next
    case False
    then show ?thesis using Cons by (simp add: rows_of_def with_row_def)
  qed
qed simp

text \<open>Orders that differ in id and key from each other and from the rows there become one row each.\<close>

definition unseen :: "dbid list \<Rightarrow> (string \<Rightarrow> string) \<Rightarrow> (dbid \<Rightarrow> tables) \<Rightarrow> Order list \<Rightarrow> bool" where
  "unseen dbs coll t xs \<longleftrightarrow> distinct (map o_ID xs) \<and> distinct (map (uk_idem coll) xs) \<and>
     (\<forall>x\<in>set xs. \<forall>d\<in>set dbs. \<not> order_conflict coll x (orders_0 (t d)))"

lemma unseen_with_row: "unseen dbs coll t (x # xs) \<Longrightarrow> unseen dbs coll (with_row dt d x t) xs"
  by (auto simp: unseen_def order_conflict_def with_row_def stored_order_def uk_idem_def)

lemma rows_of_fold:
  assumes "distinct (order_dbs sw shards)" and "in64 (int (length shards))" and "unseen (order_dbs sw shards) coll t (orders_in vs)"
  shows "rows_of (fold (after_message coll dt sw shards) vs t) (order_dbs sw shards) a =
    rows_of t (order_dbs sw shards) a + int (messages_out a vs)"
  using assms(3)
proof (induction vs arbitrary: t)
  case (Cons v vs)
  show ?case
  proof (cases "order_in v")
    case None
    then have "after_message coll dt sw shards v t = t" "\<not> message_for (any_user a) v"
      by (simp_all add: after_message_order message_for_order)
    then show ?thesis using Cons None by (simp add: messages_out_def)
  next
    case (Some x)
    obtain d where d: "insert_db sw shards x = Some d" using insert_db_total [OF assms(2)] by blast
    have u: "unseen (order_dbs sw shards) coll t (x # orders_in vs)" using Cons.prems Some by simp
    then have "\<not> order_conflict coll x (orders_0 (t d))" using insert_db_in [OF d] by (simp add: unseen_def)
    then have "after_message coll dt sw shards v t = with_row dt d x t"
      using Some d by (simp add: after_message_order)
    moreover have "message_for (any_user a) v \<longleftrightarrow> o_ActivityID x = a" using Some by (simp add: message_for_order)
    ultimately show ?thesis
      using Cons.IH [OF unseen_with_row [OF u]] rows_of_with_row [OF assms(1) insert_db_in [OF d]]
      by (simp add: messages_out_def)
  qed
qed (simp add: messages_out_def)

section \<open>After the sale\<close>

lemma reachable_spawn:
  assumes "reachable S spawn env w0 s" and "\<forall>w. spawn w \<subseteq> spawn' w"
  shows "reachable S spawn' env w0 s"
  using assms(1)
proof induction
  case (step s t)
  have "sys_step S spawn' env s t" using step.hyps(2) assms(2) by cases (auto intro: sys_step.intros)
  with step.IH show ?case by (rule reachable.step)
qed (rule reachable.initial)

context services begin

lemma total_reachable:
  assumes "reachable S spawn env w0 (ps, w)" and "LuaStock (api_switches A)"
    and "\<forall>w. spawn w \<subseteq> deployed W A dlq allowed" and "\<forall>w w'. env w w' \<longrightarrow> tbl w' = tbl w"
    and "total_stock (tbl w0 MainDB) a = Some n"
  shows "total_stock (tbl w MainDB) a = Some n"
proof (rule conjunct1 [OF totals.never_exceeds [OF assms(1,5)]])
  show "funded total_rules 0 p (\<lambda>_ _. True)" if "p \<in> spawn w" for w p
    using total_deployed [OF _ assms(2)] that assms(3) by blast
qed (use assms(4) in auto)

end

context group_services begin

lemma settled_sale:
  assumes reach: "reachable S spawn env w0 (ps, w)"
    and sw: "LuaStock (api_switches A)" "KafkaOrder (api_switches A)"
    and spawn: "\<forall>w. spawn w \<subseteq> deployed W A dlq (no_restock A a)" and dlq: "dlq \<noteq> api_OrderTopic A"
    and env: "\<forall>w w'. env w w' \<longrightarrow> expiry (ks w) (ks w') \<and> ks w' (stock_key a) = ks w (stock_key a) \<and>
      tbl w' = tbl w \<and> log w' = log w"
    and ok: "sellable a (ks w0) (tbl w0)"
    and init: "total_stock (tbl w0 MainDB) a = Some n" "stock_left (ks w0) a = Some n" "log w0 (api_OrderTopic A) = []"
      "0 \<le> n" "in64 n"
    and ended: "\<forall>p\<in>set ps. ended p"
    and dbs: "distinct (order_dbs (api_switches A) (api_shards A))" "in64 (int (length (api_shards A)))"
    and fresh: "\<forall>d\<in>set (order_dbs (api_switches A) (api_shards A)). orders_0 (tbl w d) = []" "pos w (api_OrderTopic A) = 0"
      "distinct (map o_ID (orders_in (log w (api_OrderTopic A))))"
      "distinct (map (uk_idem coll) (orders_in (log w (api_OrderTopic A))))"
    and run: "run S (Run fuel (order_consumer (api_switches A) (api_shards A) (api_OrderTopic A) dlq)) w = (res, w1)"
      "length (log w (api_OrderTopic A)) < fuel"
  shows "\<exists>s. stock_left (ks w1) a = Some s \<and> 0 \<le> s \<and> s \<le> n \<and>
    fst (run S (Check (api_reconcile A) a) w1) = Some (Inr
      \<lparr>f_ActivityID = a, f_InitStock = n, f_Redis = s, f_OrdersCount = n - s, f_Drift = 0\<rparr>)"
proof -
  let ?topic = "api_OrderTopic A" and ?dbs = "order_dbs (api_switches A) (api_shards A)"
  let ?c = "order_consumer (api_switches A) (api_shards A) ?topic dlq"
  let ?spawn = "\<lambda>_. deployed W A dlq (no_restock A a)"
  have drained: "log w1 ?topic = log w ?topic"
    "tbl w1 = fold (after_message coll dt (api_switches A) (api_shards A)) (log w ?topic) (tbl w)"
    using drains [OF dbs(2) dlq, of w fuel "api_switches A"] run fresh(2) by auto
  have "bindp (Run fuel ?c) (\<lambda>_. Ret ()) \<in> ?spawn w" using sw(2) by (rule deployed.consumer)
  moreover obtain r where "run S (bindp (Run fuel ?c) (\<lambda>_. Ret ())) w = (r, w1)"
    using run(1) by (cases res) (auto simp: run_bindp)
  moreover have "reachable S ?spawn env w0 (ps, w)" using reachable_spawn [OF reach spawn] .
  ultimately have reach1: "reachable S ?spawn env w0 (ps @ [end_of r], w1)"
    by (intro reachable_run_ends [where spawn = ?spawn])
  note books = deployment_balances [OF reach1 ok sw _ dlq env]
  have sold: "sellable a (ks w1) (tbl w1)"
    "units (stock_left (ks w1) a) + messages_out a (log w1 ?topic) = nat n"
    using books ended init(2,3) by (auto simp: messages_out_def)
  have "rows_of (tbl w) ?dbs a = 0" using fresh(1) by (simp add: rows_of_def cong: map_cong)
  then have rows: "rows_of (tbl w1) ?dbs a = int (messages_out a (log w1 ?topic))"
    using rows_of_fold [OF dbs, where t = "tbl w" and vs = "log w ?topic" and dt = dt and a = a and coll = coll] fresh
    by (simp add: drained unseen_def order_conflict_def)
  have total: "total_stock (tbl w1 MainDB) a = Some n"
    by (rule total_reachable [OF reach1 sw(1), of W dlq "no_restock A a"]) (use env init(1) in auto)
  from total obtain act where act: "activities (tbl w1 MainDB) a = Some act" "a_TotalStock act = n"
    by (auto simp: total_stock_def split: option.splits)
  obtain s where s: "stock_left (ks w1) a = Some s" "0 \<le> s" using sold(1) by (auto simp: sellable_def)
  then have sum: "s + rows_of (tbl w1) ?dbs a = n" using sold(2) init(4) rows by simp
  have "rows_of (tbl w1) (counted_dbs (api_reconcile A)) a = n - s" using sum by (simp add: counted_order_dbs)
  with run_Check [OF act(1) s, of "api_reconcile A"] s sum rows act(2) init(4,5)
  show ?thesis by (intro exI [of _ s]) simp
qed

end


text \<open>One request served with the optional middleware off, and the state it leaves.\<close>

definition plain_api :: Api where
  "plain_api = ex_api\<lparr>api_switches := all_on\<lparr>RateLimit := False, Idempotency := False, Metrics := False\<rparr>\<rparr>"

definition plain_post :: "Ctx prog" where
  "plain_post = serve ex_wire plain_api PostSeckill ex_ctx"

definition plain_sold :: "mem \<times> (string \<Rightarrow> nat)" where
  "plain_sold = snd (run group_call (bindp plain_post (\<lambda>_. Ret ())) (ex_world, (\<lambda>_. 0)))"

lemma plain_sold_facts:
  "list_all (\<lambda>d. orders_0 (mem_tbl (fst plain_sold) d) = []) ex_shards \<and> snd plain_sold TopicSeckillOrders = 0 \<and>
   length (mem_log (fst plain_sold) TopicSeckillOrders) = 1"
proof -
  have "(case run group_call (bindp plain_post (\<lambda>_. Ret ())) (ex_world, (\<lambda>_. 0)) of (r, w, p) \<Rightarrow>
      list_all (\<lambda>d. orders_0 (mem_tbl w d) = []) ex_shards \<and> p TopicSeckillOrders = 0 \<and>
      length (mem_log w TopicSeckillOrders) = 1)"
    by code_simp
  then show ?thesis by (auto simp: plain_sold_def split: prod.splits)
qed

lemma orders_in_one: "length vs = 1 \<Longrightarrow> distinct (map f (orders_in vs))"
  by (cases vs) (auto split: option.splits)


end
