(* ===== verification/Counting.thy ===== *)
theory Counting
  imports Example
begin

text \<open>
  What a deployment counts.  Every call any of its programs makes is of a known shape, and every
  count it makes is on a registered collector, with a value for each label; the remaining
  collectors are never touched.
\<close>

section \<open>The calls of a deployment\<close>

definition sale_call :: "call \<Rightarrow> bool" where
  "sale_call c \<longleftrightarrow> ambient_call c \<or> (\<exists>k argv. c = Redis (EVAL stock_deduct k argv)) \<or>
     (\<exists>d n i m. c = Sql d (UpdateDeduct n i m)) \<or> (\<exists>d x. c = Sql d (InsertOrder x)) \<or>
     (\<exists>topic k v t hs. c = KWrite topic k v t hs) \<or> (\<exists>a v t. c = Redis (SET (stock_key a) v t))"

lemma sale_call_simps [simp]:
  "ambient_call c \<Longrightarrow> sale_call c" "sale_call (deduct_call a u n l)" "sale_call (Sql d (UpdateDeduct x i m))"
  "sale_call (Sql d (InsertOrder y))" "sale_call (KWrite topic k v t hs)" "sale_call (Redis (SET (stock_key a) s t))"
  by (auto simp: sale_call_def deduct_call_def)

definition call_rules :: rules where
  "call_rules = \<lparr>possible = (\<lambda>_ _. True), grants = (\<lambda>_ _. False), spends = (\<lambda>_. False),
     forbidden = (\<lambda>c. \<not> sale_call c)\<rparr>"

lemma call_rules_simps [simp]:
  "possible call_rules c r" "\<not> grants call_rules c r" "\<not> spends call_rules c"
  "forbidden call_rules c \<longleftrightarrow> \<not> sale_call c"
  by (simp_all add: call_rules_def)

lemma funded_calls: "funded call_rules n p (\<lambda>_ _. True) \<longleftrightarrow> makes sale_call p"
  by (induction p arbitrary: n) auto

lemma calls_funded: "makes sale_call p \<Longrightarrow> (\<And>a. Q n a) \<Longrightarrow> funded call_rules n p Q"
  by (rule funded_neutral) (auto simp: neutral_def elim!: makes_mono)

lemma ambient_calls: "makes ambient_call p \<Longrightarrow> makes sale_call p"
  by (erule makes_mono) simp

lemma ambient_call_rules: "ambient_rules call_rules"
  by (simp add: ambient_rules_def neutral_def)

interpretation call_client: seckill_ports call_rules "api_service sw shards topic" "\<lambda>_ _. False" "\<lambda>_ _. True"
  for sw shards topic
proof
  let ?s = "api_service sw shards topic"
  fix b u act x n tok new
  show "funded call_rules 0 (s_activities ?s b) (\<lambda>_ found. \<forall>act. found = Inr act \<longrightarrow> True)"
    by (rule calls_funded) (simp_all add: api_service_eq ambient_calls ambient_lookup)
  show "funded call_rules 0 (s_stock ?s b u 1 (a_PerUserLimit act)) (\<lambda>n res. \<forall>rem. res = Inr rem \<longrightarrow> False \<longrightarrow> 0 < n)"
    by (rule calls_funded)
       (auto simp: api_service_eq stockRedisRepo_DeductForUser_eq stockRepoSQL_DeductForUser_def split: sum.splits)
  show "funded call_rules 0 (s_now ?s) (\<lambda>_ _. True)"
    by (rule calls_funded) (simp_all add: api_service_eq ambient_calls ambient_time_Now)
  show "funded call_rules n (s_nextID ?s) (\<lambda>m _. n \<le> m)"
    by (rule calls_funded) (simp_all add: api_service_eq ambient_calls ambient_nextID)
  show "funded call_rules n new (\<lambda>m _. n \<le> m)" if "s_queue ?s = Some new"
    by (rule calls_funded) (use that in \<open>auto simp: api_service_eq ambient_calls ambient_QueueService_New\<close>)
  show "funded call_rules n (seckill_create ?s x tok) (\<lambda>_ _. True)"
    by (rule calls_funded)
       (auto simp: seckill_create_def api_service_eq KafkaOrderCreator_CreateWithToken_def
          KafkaOrderCreator_Create_def intro!: makes_SendOrder makes_mono [OF makes_order_create])
qed

lemma handler_calls: "funded_handler call_rules (api_handler W A rt)"
proof (cases rt)
  case PostSeckill
  have "funded_handler call_rules (handler_Seckill W (api_seckill A))"
    using call_client.handler_funded unfolding api_seckill_def .
  then show ?thesis
    using funded_Idempotency [OF ambient_middleware [OF ambient_call_rules]] PostSeckill by (simp add: funded_handler_def)
next
  case (PostWarm p)
  have "makes sale_call (AdminWarmActivity W AdminService_Warm (c\<lparr>cx_Param := p\<rparr>))" for c
    by (rule makes_mono [OF makes_AdminWarm]) auto
  then show ?thesis using PostWarm by (simp add: funded_handler_def funded_calls)
qed (auto simp: funded_handler_def funded_calls intro!: ambient_calls makes_OrderByToken makes_AdminCreate)

lemma deployed_calls:
  assumes "p \<in> deployed W A dlq allowed"
  shows "makes sale_call p"
  using assms
proof cases
  case (request rt c)
  then show ?thesis
    using funded_serve [OF ambient_middleware [OF ambient_call_rules] handler_calls, of 0 W A rt c]
    unfolding funded_calls by (auto intro: makes_bindp)
next
  case (consumer fuel)
  have "makes sale_call (Run fuel (order_consumer (api_switches A) (api_shards A) (api_OrderTopic A) dlq))"
    by (rule makes_mono [OF makes_order_consumer]) (auto simp: consumer_call_def)
  then show ?thesis using consumer by (auto intro: makes_bindp)
next
  case (sweeper fuel s acts)
  then show ?thesis by (simp add: makes_bindp ambient_calls [OF ambient_sweeper])
qed

section \<open>What is counted\<close>

lemma sale_call_counts: "sale_call (CountMetric m ls) \<Longrightarrow> counted m ls"
  by (auto simp: sale_call_def)

text \<open>
  C32. Counting never panics.  The collectors can be registered (their names differ, the bounds
  of their buckets increase), and whatever the services answer, every count a program of the
  deployment makes is on one of them, with as many values as it has labels.  It is never on one
  of the five for requests, stock, Lua, MySQL and Kafka, which stay empty.
\<close>

theorem counts_registered:
  assumes "p \<in> deployed W A dlq allowed"
  shows "registrable registered \<and> set idle \<subseteq> set registered \<and>
    makes (\<lambda>c. \<forall>m ls. c = CountMetric m ls \<longrightarrow>
      m \<in> set registered \<and> m \<notin> set idle \<and> length ls = length (mc_Labels m)) p"
proof (intro conjI)
  show "makes (\<lambda>c. \<forall>m ls. c = CountMetric m ls \<longrightarrow>
      m \<in> set registered \<and> m \<notin> set idle \<and> length ls = length (mc_Labels m)) p"
    by (rule makes_mono [OF deployed_calls [OF assms]]) (auto dest!: sale_call_counts simp: counted_def)
qed (rule registered_ok, simp add: idle_def registered_def)

theorem counts_registered_witness:
  "bindp ex_post (\<lambda>_. Ret ()) \<in> deployed ex_wire ex_api TopicSeckillDLQ (\<lambda>_. True) \<and>
   makes (\<lambda>c. c \<noteq> CountMetric StockRemain [''7'']) (bindp ex_post (\<lambda>_. Ret ()))"
proof
  show post: "bindp ex_post (\<lambda>_. Ret ()) \<in> deployed ex_wire ex_api TopicSeckillDLQ (\<lambda>_. True)"
    unfolding ex_post_def by (rule deployed.request) simp
  show "makes (\<lambda>c. c \<noteq> CountMetric StockRemain [''7'']) (bindp ex_post (\<lambda>_. Ret ()))"
    using counts_registered [OF post] by (auto simp: idle_def elim!: makes_mono)
qed

end
