(* ===== verification/Breaker.thy ===== *)
theory Breaker
  imports Drain Config
begin

text \<open>
  The circuit breaker around the consumer's inserts, over time.  What gobreaker documents of its
  closed and open states is the interface; the theory shows what the program makes of it.
\<close>

section \<open>A breaker and a clock\<close>

text \<open>
  A closed breaker has counts, and the instant its interval ends; an open one the instant its
  timeout is over.  In a closed interval a request is counted and let through; its failure is
  counted, and opens the breaker if \<open>ReadyToTrip\<close> says so; an open breaker rejects.  A call
  takes at most \<open>lag\<close> longer than it sleeps.
\<close>

datatype breaker_state = Closed Counts int | Open int | HalfOpen

definition ErrOpenState :: goerr where "ErrOpenState = GoErr ''circuit breaker is open''"

fun pause :: "call \<Rightarrow> int" where
  "pause (Sleep d) = max 0 d"
| "pause c = 0"

lemma pause_nonneg [simp]: "0 \<le> pause c"
  by (cases c) auto

definition breaker_call :: "call \<Rightarrow> bool" where
  "breaker_call c \<longleftrightarrow> c = BreakerAsk \<or> (\<exists>b. c = BreakerTell b)"

definition after_failure :: "Settings \<Rightarrow> int \<Rightarrow> Counts \<Rightarrow> int \<Rightarrow> breaker_state \<Rightarrow> bool" where
  "after_failure st t n e b \<longleftrightarrow>
     (let n' = n\<lparr>TotalFailures := TotalFailures n + 1\<rparr>
      in if gs_ReadyToTrip st n' then \<exists>e'. b = Open e' \<and> t + gs_Timeout st \<le> e' else b = Closed n' e)"

locale breaker_services = topic_group +
  fixes st :: Settings and brk :: "'a \<Rightarrow> breaker_state" and clock :: "'a \<Rightarrow> int" and lag :: int
  assumes ask_closed: "S BreakerAsk w = (r, w') \<Longrightarrow> brk w = Closed n e \<Longrightarrow> clock w' < e \<Longrightarrow> Requests n + 1 < 2 ^ 32 \<Longrightarrow>
      r = ROk \<and> brk w' = Closed (n\<lparr>Requests := Requests n + 1\<rparr>) e"
    and ask_open: "S BreakerAsk w = (r, w') \<Longrightarrow> brk w = Open e \<Longrightarrow> clock w' < e \<Longrightarrow>
      r = RErr ErrOpenState \<and> brk w' = brk w"
    and tell_success: "S (BreakerTell True) w = (r, w') \<Longrightarrow> brk w = Closed n e \<Longrightarrow> clock w' < e \<Longrightarrow> brk w' = brk w"
    and tell_failure: "S (BreakerTell False) w = (r, w') \<Longrightarrow> brk w = Closed n e \<Longrightarrow> clock w' < e \<Longrightarrow>
      0 < gs_Timeout st \<Longrightarrow> after_failure st (clock w) n e (brk w')"
    and brk_frame: "S c w = (r, w') \<Longrightarrow> \<not> breaker_call c \<Longrightarrow> brk w' = brk w"
    and passes: "S c w = (r, w') \<Longrightarrow> clock w \<le> clock w' \<and> clock w' \<le> clock w + pause c + lag"

section \<open>How long a program takes\<close>

primrec takes :: "int \<Rightarrow> int \<Rightarrow> 'a prog \<Rightarrow> bool" where
  "takes lag b (Ret a) = (0 \<le> b)"
| "takes lag b Panic = (0 \<le> b)"
| "takes lag b (Call c k) = (\<forall>r. takes lag (b - pause c - lag) (k r))"

lemma takes_mono: "takes lag b p \<Longrightarrow> b \<le> b' \<Longrightarrow> takes lag b' p"
proof (induction p arbitrary: b b')
  case (Call c k)
  have "takes lag (b' - pause c - lag) (k r)" for r
    by (rule Call.IH [of "k r" "b - pause c - lag"]) (use Call.prems in simp_all)
  then show ?case by simp
qed simp_all

lemma takes_bindp: "takes lag b1 p \<Longrightarrow> (\<And>a. takes lag b2 (f a)) \<Longrightarrow> 0 \<le> b2 \<Longrightarrow> takes lag (b1 + b2) (bindp p f)"
proof (induction p arbitrary: b1)
  case (Ret a)
  then have "0 \<le> b1" "takes lag b2 (f a)" by simp_all
  then show ?case using takes_mono [of lag b2 "f a" "b1 + b2"] by simp
next
  case (Call c k)
  then have "takes lag (b1 - pause c - lag + b2) (bindp (k r) f)" for r by simp
  then show ?case by (simp add: algebra_simps)
qed simp

lemma takes_order_create: "0 \<le> lag \<Longrightarrow> takes lag lag (order_create sw shards x)"
  by (auto simp: order_create_eq shardedOrderRepo_Create_def orderRepo_Create_def split: option.splits)

lemma takes_Handle:
  assumes "0 \<le> lag"
  shows "takes lag (4 * lag) (Handle (materializer sw shards) m)"
proof -
  have "takes lag (lag + lag) (bindp (order_create sw shards x) (\<lambda>err. Call (BreakerTell (err = None)) (\<lambda>_. Ret err)))" for x
    by (rule takes_bindp [OF takes_order_create [OF assms]]) (use assms in simp_all)
  then have "takes lag (3 * lag) (CB_Do (order_create sw shards x))" for x
    using assms by (auto simp: CB_Do_def split: option.splits)
  then have guarded: "takes lag (3 * lag) (if CircuitBreaker sw then CB_Do (order_create sw shards x) else order_create sw shards x)" for x
    using takes_mono [OF takes_order_create [OF assms], of "3 * lag"] assms by simp
  have "takes lag (3 * lag + lag) (Handle (materializer sw shards) m)"
    unfolding Handle_def materializer_eq OrderMaterializer.simps
    by (rule takes_bindp [OF guarded]) (use assms in \<open>auto split: option.splits\<close>)
  then show ?thesis by simp
qed

lemma takes_last_attempt:
  assumes "takes lag b h" and "0 \<le> lag" and "0 \<le> b"
  shows "takes lag (b + int a * (100 * millisecond) + lag) (attempts_from h a 0)"
proof -
  have "takes lag (b + int a * (100 * millisecond) + lag + 0) (attempts_from h a 0)"
    unfolding attempts_from.simps [of h a]
    by (rule takes_bindp)
       (use assms in \<open>auto simp: millisecond_def split: option.splits intro: takes_mono\<close>)
  then show ?thesis by simp
qed

lemma takes_attempt:
  assumes "takes lag b h" and "0 \<le> lag" and "0 \<le> b" and "takes lag b2 (attempts_from h (Suc a) n)" and "0 \<le> b2"
  shows "takes lag (b + int a * (100 * millisecond) + lag + b2) (attempts_from h a (Suc n))"
  unfolding attempts_from.simps [of h a]
  by (rule takes_bindp)
     (use assms in \<open>auto simp: millisecond_def split: option.splits intro: takes_mono\<close>)

lemma takes_retry:
  assumes "takes lag b h" and "0 \<le> lag" and "0 \<le> b"
  shows "takes lag (4 * (b + lag) + 600 * millisecond) (retry 3 h)"
proof -
  let ?ms = "100 * millisecond"
  have ms: "0 \<le> ?ms" by (simp add: millisecond_def)
  have "takes lag (b + 3 * ?ms + lag) (attempts_from h (Suc 2) 0)"
    using takes_last_attempt [OF assms, of "Suc 2"] by simp
  from takes_attempt [OF assms this] have "takes lag (2 * (b + lag) + 5 * ?ms) (attempts_from h (Suc 1) 1)"
    using assms ms by (simp add: algebra_simps numeral_2_eq_2)
  from takes_attempt [OF assms this] have "takes lag (3 * (b + lag) + 6 * ?ms) (attempts_from h (Suc 0) 2)"
    using assms ms by (simp add: algebra_simps numeral_2_eq_2)
  from takes_attempt [OF assms this] have "takes lag (4 * (b + lag) + 6 * ?ms) (attempts_from h 0 3)"
    using assms ms by (simp add: algebra_simps numeral_3_eq_3 numeral_2_eq_2)
  then show ?thesis by (simp add: retry_def)
qed

lemma takes_consumer_dlq: "0 \<le> lag \<Longrightarrow> takes lag (4 * lag) (consumer_dlq dlq raw reason)"
proof -
  assume l: "0 \<le> lag"
  have "takes lag lag (if b then MarkFailed q reason else Ret ())" for b q using l by (simp add: MarkFailed_def)
  moreover have "takes lag (2 * lag + 0) (bindp (SendOrder dlq om) (\<lambda>_. Ret ()))" for om
    by (rule takes_bindp) (use l in \<open>auto simp: SendOrder_def Let_def split: sum.splits\<close>)
  ultimately have "takes lag (lag + 2 * lag) (bindp (if b then MarkFailed q reason else Ret ())
      (\<lambda>_. if c then bindp (SendOrder dlq om) (\<lambda>_. Ret ()) else Ret ()))" for b q c om
    by (intro takes_bindp) (use l in auto)
  then show ?thesis by (auto simp: consumer_dlq_def split: prod.splits)
qed

definition patience :: "int \<Rightarrow> int" where "patience lag = 27 * lag + 600 * millisecond"

lemma takes_process:
  assumes "0 \<le> lag"
  shows "takes lag (patience lag - 2 * lag) (process_message (order_consumer sw shards topic dlq) msg)"
proof -
  let ?c = "order_consumer sw shards topic dlq"
  have ms: "0 \<le> millisecond" by (simp add: millisecond_def)
  have dead: "takes lag (4 * lag) (dead_letter ?c raw e)" for raw e
    using takes_consumer_dlq [OF assms] by (simp add: dead_letter_def order_consumer_def)
  have commit: "takes lag (4 * lag + lag) (bindp (case err of None \<Rightarrow> Ret () | Some e \<Rightarrow> dead_letter ?c raw e)
      (\<lambda>_. Call (KCommit msg) (\<lambda>r. Ret (f r))))" for err raw and f :: "reply \<Rightarrow> goerr option"
    by (rule takes_bindp) (use dead assms in \<open>auto split: option.splits\<close>)
  have undecoded: "takes lag (4 * lag + lag) (bindp (dead_letter ?c raw e) (\<lambda>_. Call (KCommit msg) (\<lambda>_. Ret (None :: goerr option))))" for raw e
    by (rule takes_bindp) (use dead assms in auto)
  have tries: "takes lag (4 * (4 * lag + lag) + 600 * millisecond) (retry (c_maxRetries ?c) (c_handler ?c om))" for om
    using takes_retry [OF takes_Handle [OF assms] assms] assms by (simp add: order_consumer_def)
  have "takes lag (4 * (4 * lag + lag) + 600 * millisecond + (4 * lag + lag))
      (bindp (retry (c_maxRetries ?c) (c_handler ?c om)) (\<lambda>lastErr.
         bindp (case lastErr of None \<Rightarrow> Ret () | Some e \<Rightarrow> dead_letter ?c (msg_value msg) e)
           (\<lambda>_. Call (KCommit msg) (\<lambda>r. Ret (as_unit r)))))" for om
    by (rule takes_bindp [OF tries commit]) (use assms in simp)
  then have decoded: "takes lag (25 * lag + 600 * millisecond) (bindp (retry (c_maxRetries ?c) (c_handler ?c om)) (\<lambda>lastErr.
      bindp (case lastErr of None \<Rightarrow> Ret () | Some e \<Rightarrow> dead_letter ?c (msg_value msg) e)
        (\<lambda>_. Call (KCommit msg) (\<lambda>r. Ret (as_unit r)))))" for om
    by (rule takes_mono) simp
  show ?thesis
    using decoded takes_mono [OF undecoded, of "25 * lag + 600 * millisecond"] assms ms
    by (auto simp: process_message_def patience_def split: prod.splits option.splits)
qed

section \<open>Redeliveries and rejections\<close>

text \<open>Counts of requests all of which failed trip the breaker from the fifth on.\<close>

lemma trips_at_five:
  assumes "cb_FailureRatio c \<le> 1" and "rnd 1 = 1"
  shows "gs_ReadyToTrip (breaker_New rnd c) \<lparr>Requests = i, TotalFailures = i\<rparr> \<longleftrightarrow> 5 \<le> i"
  using assms by (auto simp: breaker_New_def ReadyToTrip_def breaker_threshold_def)

definition rejected_status :: "string \<times> int option" where
  "rejected_status = (''failed:circuit breaker is open'', Some hour)"

definition one_attempt :: "goerr option prog \<Rightarrow> nat \<Rightarrow> goerr option prog" where
  "one_attempt h a = (if 0 < a then Call (Sleep (int a * (100 * millisecond))) (\<lambda>_. h) else h)"

lemma attempts_eq:
  "attempts_from h a k = bindp (one_attempt h a) (\<lambda>lastErr.
     case lastErr of None \<Rightarrow> Ret None | Some e \<Rightarrow> (case k of 0 \<Rightarrow> Ret (Some e) | Suc m \<Rightarrow> attempts_from h (Suc a) m))"
  by (simp add: attempts_from.simps [of h a] one_attempt_def)

text \<open>What a rejected message leaves in Redis: a token that failed.\<close>

definition rejected :: "payload \<Rightarrow> keyspace \<Rightarrow> keyspace" where
  "rejected v ks =
     (case UnmarshalOrderMessage v of
        (m, None) \<Rightarrow> if m_QueueToken m \<noteq> [] then ks(queue_key (m_QueueToken m) \<mapsto> rejected_status) else ks
      | (m, Some _) \<Rightarrow> ks)"

context breaker_services begin

lemma clock_mono: "run S p w = (x, w') \<Longrightarrow> clock w \<le> clock w'"
proof (induction p arbitrary: w)
  case (Call c k)
  obtain r w1 where S: "S c w = (r, w1)" by (cases "S c w")
  have "clock w1 \<le> clock w'" by (rule Call.IH [of "k r"]) (use Call.prems S in simp_all)
  then show ?case using passes [OF S] by simp
qed simp_all

lemma clock_takes: "takes lag b p \<Longrightarrow> run S p w = (x, w') \<Longrightarrow> clock w' \<le> clock w + b"
proof (induction p arbitrary: w b)
  case (Call c k)
  obtain r w1 where S: "S c w = (r, w1)" by (cases "S c w")
  have "clock w' \<le> clock w1 + (b - pause c - lag)" by (rule Call.IH [of "k r"]) (use Call.prems S in simp_all)
  then show ?case using passes [OF S] by simp
qed simp_all

lemma brk_run: "makes (\<lambda>c. \<not> breaker_call c) p \<Longrightarrow> run S p w = (x, w') \<Longrightarrow> brk w' = brk w"
  using run_invariant [where P = "\<lambda>c. \<not> breaker_call c" and I = "\<lambda>v. brk v = brk w" and S = S and w = w and p = p]
    brk_frame by fastforce

lemma insert_keeps_brk: "run S (order_create sw shards x) w = (y, w') \<Longrightarrow> brk w' = brk w"
  by (rule brk_run)
     (auto simp: order_create_eq shardedOrderRepo_Create_def orderRepo_Create_def breaker_call_def split: option.splits)

lemma dead_letter_keeps_brk: "run S (consumer_dlq dlq raw reason) w = (y, w') \<Longrightarrow> brk w' = brk w"
proof (erule brk_run [rotated])
  show "makes (\<lambda>c. \<not> breaker_call c) (consumer_dlq dlq raw reason)"
    by (auto simp: consumer_dlq_def MarkFailed_def breaker_call_def intro!: makes_bindp makes_SendOrder split: prod.splits)
qed

text \<open>What a dead letter leaves in Redis.\<close>

lemma dead_letter_status:
  assumes run: "run S (consumer_dlq dlq raw reason) w = (x, w')" and raw: "UnmarshalOrderMessage raw = (m, err)"
  shows "ks w' = (if err = None \<and> m_QueueToken m \<noteq> []
    then (ks w)(queue_key (m_QueueToken m) \<mapsto> (''failed:'' @ err_text reason, Some hour)) else ks w)"
proof -
  let ?set = "Redis (SET (queue_key (m_QueueToken m)) (''failed:'' @ err_text reason) hour)"
  obtain r1 w1 where count: "S (CountMetric DLQTotal [err_text reason]) w = (r1, w1)"
    by (cases "S (CountMetric DLQTotal [err_text reason]) w")
  obtain r2 w2 where set: "S ?set w1 = (r2, w2)" by (cases "S ?set w1")
  have k2: "ks w2 = (ks w)(queue_key (m_QueueToken m) \<mapsto> (''failed:'' @ err_text reason, Some hour))"
    using redis_ok [OF set] local_frame [OF count] by (auto simp: hour_def minute_def)
  let ?send = "if m_OrderID m \<noteq> 0 then bindp (SendOrder dlq m) (\<lambda>_. Ret ()) else Ret ()"
  have sent: "ks v' = ks v" if "run S ?send v = (y, v')" for v v' y
  proof -
    have "makes (\<lambda>c. \<not> (\<exists>x. c = Redis x)) ?send" by (auto intro!: makes_bindp makes_SendOrder)
    from run_invariant [where P = "\<lambda>c. \<not> (\<exists>x. c = Redis x)" and I = "\<lambda>u. ks u = ks v" and S = S and w = v, OF this]
    show ?thesis using other_frame(1) that by fastforce
  qed
  have rest: "run S (bindp (if err = None \<and> m_QueueToken m \<noteq> [] then MarkFailed (m_QueueToken m) reason else Ret ()) (\<lambda>_. ?send)) w1 = (x, w')"
    using run raw count by (simp add: consumer_dlq_def)
  show ?thesis
  proof (cases "err = None \<and> m_QueueToken m \<noteq> []")
    case True
    then have "run S ?send w2 = (x, w')" using rest set by (simp add: MarkFailed_def)
    from sent [OF this] show ?thesis using True k2 by simp
  next
    case False
    then have "run S ?send w1 = (x, w')" using rest by (auto split: if_splits)
    from sent [OF this] show ?thesis using False local_frame [OF count] by auto
  qed
qed

text \<open>A redelivered message is handled, and counted as a failure.\<close>

lemma run_redelivery:
  assumes sw: "CircuitBreaker sw" and v: "UnmarshalOrderMessage v = (m, None)"
    and d: "insert_db sw shards (order_of m) = Some d" "order_conflict coll (order_of m) (orders_0 (tbl w d))"
    and b: "brk w = Closed n e" "Requests n + 1 < 2 ^ 32" "0 < gs_Timeout st" and e: "clock w + 3 * lag < e" "0 \<le> lag"
  obtains w' where "run S (process_message (order_consumer sw shards topic dlq) (KMsg k v)) w = (Some None, w')"
    "tbl w' = tbl w" "\<exists>t\<ge>clock w. after_failure st t (n\<lparr>Requests := Requests n + 1\<rparr>) e (brk w')"
proof -
  let ?x = "order_of m" and ?set = "Redis (SET (queue_key (m_QueueToken m)) (''success:'' @ show_int (m_OrderID m)) hour)"
  obtain r1 w1 where ask: "S BreakerAsk w = (r1, w1)" by (cases "S BreakerAsk w")
  have c1: "clock w \<le> clock w1" "clock w1 \<le> clock w + lag" using passes [OF ask] by auto
  then have f1: "r1 = ROk" "brk w1 = Closed (n\<lparr>Requests := Requests n + 1\<rparr>) e" "tbl w1 = tbl w"
    using ask_closed [OF ask b(1) _ b(2)] local_frame [OF ask] e by auto
  obtain w2 where ins: "run S (order_create sw shards ?x) w1 = (Some (Some ErrOrderDuplicate), w2)" "tbl w2 = tbl w"
    by (rule run_insert [OF d(1), of w1]) (use d(2) f1 in simp_all)
  have c2: "clock w1 \<le> clock w2" "clock w2 \<le> clock w1 + lag"
    using clock_mono [OF ins(1)] clock_takes [OF takes_order_create [OF e(2)] ins(1)] by auto
  obtain r3 w3 where tell: "S (BreakerTell False) w2 = (r3, w3)" by (cases "S (BreakerTell False) w2")
  have c3: "clock w3 \<le> clock w2 + lag" using passes [OF tell] by simp
  have told: "after_failure st (clock w2) (n\<lparr>Requests := Requests n + 1\<rparr>) e (brk w3)"
    using tell_failure [OF tell _ _ b(3)] insert_keeps_brk [OF ins(1)] f1 c1 c2 c3 e by auto
  obtain r4 w4 where set: "S ?set w3 = (r4, w4)" by (cases "S ?set w3")
  obtain r5 w5 where commit: "S (KCommit (KMsg k v)) w4 = (r5, w5)" by (cases "S (KCommit (KMsg k v)) w4")
  have ok: "r4 = ROk" "r5 = ROk" using redis_ok [OF set] commit_ok [OF commit] by auto
  have "run S (process_message (order_consumer sw shards topic dlq) (KMsg k v)) w = (Some None, w5)"
    using sw v ask f1 ins(1) tell set commit ok
    by (simp add: process_message_def order_consumer_def retry_def attempts_from.simps [of _ 0] run_bindp
        Handle_def materializer_eq CB_Do_def)
  moreover have "tbl w5 = tbl w"
    using local_frame [OF tell] redis_call [OF set] local_frame [OF commit] ins(2) by simp
  moreover have "brk w5 = brk w3"
    using brk_frame [OF set] brk_frame [OF commit] by (simp add: breaker_call_def)
  ultimately show thesis using that told c1 c2 by (metis order_trans)
qed

text \<open>While the breaker is open, nothing is inserted.\<close>

lemma run_rejected:
  assumes run: "run S (CB_Do p) w = (x, w')" and b: "brk w = Open e" and e: "clock w' < e"
  shows "x = Some (Some ErrOpenState)" "brk w' = brk w" "ks w' = ks w" "tbl w' = tbl w"
proof -
  obtain r w1 where ask: "S BreakerAsk w = (r, w1)" by (cases "S BreakerAsk w")
  have rest: "run S (case as_unit r of Some err \<Rightarrow> Ret (Some err)
      | None \<Rightarrow> bindp p (\<lambda>err. Call (BreakerTell (err = None)) (\<lambda>_. Ret err))) w1 = (x, w')"
    using run ask by (simp add: CB_Do_def)
  then have "clock w1 < e" using clock_mono [OF rest] e by simp
  then have "r = RErr ErrOpenState" "brk w1 = brk w" using ask_open [OF ask b] by auto
  then show "x = Some (Some ErrOpenState)" "brk w' = brk w" "ks w' = ks w" "tbl w' = tbl w"
    using rest local_frame [OF ask] by simp_all
qed

lemma clock_first:
  assumes "run S (bindp p f) w = (x, w')" and "run S p w = (y, w1)"
  shows "clock w1 \<le> clock w'"
  using assms clock_mono [of "f _" w1 x w'] by (cases y) (auto simp: run_bindp)

lemma run_rejected_Handle:
  assumes run: "run S (Handle (materializer sw shards) m) w = (x, w')" and sw: "CircuitBreaker sw"
    and b: "brk w = Open e" and e: "clock w' < e"
  shows "x = Some (Some ErrOpenState)" "brk w' = brk w" "ks w' = ks w" "tbl w' = tbl w"
proof -
  let ?p = "CB_Do (order_create sw shards (order_of m))"
  obtain y w1 where first: "run S ?p w = (y, w1)" by (cases "run S ?p w")
  have "clock w1 \<le> clock w'"
    by (rule clock_first [OF _ first]) (use run sw in \<open>simp add: Handle_def materializer_eq\<close>)
  then have r: "y = Some (Some ErrOpenState)" "brk w1 = brk w" "ks w1 = ks w" "tbl w1 = tbl w"
    using run_rejected [OF first b] e by auto
  then show "x = Some (Some ErrOpenState)" "brk w' = brk w" "ks w' = ks w" "tbl w' = tbl w"
    using run sw first by (auto simp: Handle_def materializer_eq run_bindp ErrOpenState_def)
qed

lemma run_rejected_attempt:
  assumes run: "run S (one_attempt (Handle (materializer sw shards) m) a) w = (x, w')" and sw: "CircuitBreaker sw"
    and b: "brk w = Open e" and e: "clock w' < e"
  shows "x = Some (Some ErrOpenState)" "brk w' = brk w" "ks w' = ks w" "tbl w' = tbl w"
proof -
  let ?h = "Handle (materializer sw shards) m" and ?s = "Sleep (int a * (100 * millisecond))"
  obtain w0 where w0: "run S ?h w0 = (x, w')" "brk w0 = brk w" "ks w0 = ks w" "tbl w0 = tbl w"
  proof (cases "0 < a")
    case True
    obtain r w0 where s: "S ?s w = (r, w0)" by (cases "S ?s w")
    have "brk w0 = brk w" using brk_frame [OF s] by (simp add: breaker_call_def)
    then show thesis using that [of w0] run True s local_frame [OF s] by (simp add: one_attempt_def)
  qed (use that [of w] run in \<open>simp add: one_attempt_def\<close>)
  then show "x = Some (Some ErrOpenState)" "brk w' = brk w" "ks w' = ks w" "tbl w' = tbl w"
    using run_rejected_Handle [OF w0(1) sw _ e] b by simp_all
qed

lemma run_rejected_attempts:
  assumes "run S (attempts_from (Handle (materializer sw shards) m) a k) w = (x, w')" and "CircuitBreaker sw"
    and "brk w = Open e" and "clock w' < e"
  shows "x = Some (Some ErrOpenState) \<and> brk w' = brk w \<and> ks w' = ks w \<and> tbl w' = tbl w"
  using assms(1,3)
proof (induction k arbitrary: a w)
  let ?h = "Handle (materializer sw shards) m"
  case 0
  obtain y w1 where f: "run S (one_attempt ?h a) w = (y, w1)" by (cases "run S (one_attempt ?h a) w")
  have "clock w1 < e" using clock_first [OF _ f] 0(1) assms(4) unfolding attempts_eq [of ?h a 0] by fastforce
  from run_rejected_attempt [OF f assms(2) 0(2) this] show ?case
    using 0(1) f by (simp add: attempts_eq [of ?h a 0] run_bindp)
next
  let ?h = "Handle (materializer sw shards) m"
  case (Suc k)
  obtain y w1 where f: "run S (one_attempt ?h a) w = (y, w1)" by (cases "run S (one_attempt ?h a) w")
  have "clock w1 < e"
    using clock_first [OF _ f] Suc.prems(1) assms(4) unfolding attempts_eq [of ?h a "Suc k"] by fastforce
  note y = run_rejected_attempt [OF f assms(2) Suc.prems(2) this]
  have "run S (attempts_from ?h (Suc a) k) w1 = (x, w')"
    using Suc.prems(1) f y(1) by (simp add: attempts_eq [of ?h a "Suc k"] run_bindp)
  then show ?case using Suc.IH [of "Suc a" w1] y Suc.prems(2) by simp
qed

lemma run_rejected_message:
  assumes run: "run S (process_message (order_consumer sw shards topic dlq) (KMsg k v)) w = (x, w')"
    and sw: "CircuitBreaker sw" and b: "brk w = Open e" and e: "clock w' < e"
  shows "x = Some None \<and> brk w' = brk w \<and> tbl w' = tbl w \<and> ks w' = rejected v (ks w)"
proof -
  let ?c = "order_consumer sw shards topic dlq"
  obtain m err where v: "UnmarshalOrderMessage v = (m, err)" by (cases "UnmarshalOrderMessage v")
  let ?h = "Handle (materializer sw shards) m"
  have three: "retry (c_maxRetries ?c) (c_handler ?c m) = attempts_from ?h 0 3" by (simp add: order_consumer_def retry_def)
  obtain reason w1 where w1: "brk w1 = brk w" "ks w1 = ks w" "tbl w1 = tbl w" "err = None \<Longrightarrow> reason = ErrOpenState"
    "err \<noteq> None \<Longrightarrow> err = Some reason \<and> w1 = w"
    "err = None \<Longrightarrow> run S (attempts_from ?h 0 3) w = (Some (Some reason), w1)"
  proof (cases err)
    case None
    obtain y w1 where tries: "run S (attempts_from ?h 0 3) w = (y, w1)" by (cases "run S (attempts_from ?h 0 3) w")
    have "clock w1 \<le> clock w'"
      by (rule clock_first [OF _ tries]) (use run v None in \<open>simp add: process_message_def three\<close>)
    then have y: "y = Some (Some ErrOpenState)" "brk w1 = brk w" "ks w1 = ks w" "tbl w1 = tbl w"
      using run_rejected_attempts [OF tries sw b] e by auto
    show thesis by (rule that [of w1 ErrOpenState]) (use None tries y in simp_all)
  qed (use that [of w] in simp)
  obtain w2 where dead: "run S (consumer_dlq dlq v reason) w1 = (Some (), w2)"
    using calm_returns [OF calm_consumer_dlq] by (metis old.unit.exhaust)
  obtain r w3 where commit: "S (KCommit (KMsg k v)) w2 = (r, w3)" by (cases "S (KCommit (KMsg k v)) w2")
  have letter: "dead_letter ?c v reason = consumer_dlq dlq v reason" by (simp add: dead_letter_def order_consumer_def)
  have "x = Some None \<and> w3 = w'"
  proof (cases err)
    case None
    show ?thesis
      using run w1(6) [OF None] dead commit commit_ok [OF commit]
      by (simp add: process_message_def v None three run_bindp letter)
  next
    case (Some a)
    then show ?thesis using run w1(5) dead commit by (simp add: process_message_def v run_bindp letter)
  qed
  moreover have "brk w3 = brk w" "tbl w3 = tbl w" "ks w3 = ks w2"
    using brk_frame [OF commit] local_frame [OF commit] dead_letter_keeps_brk [OF dead] dead_letter_tables [OF dead] w1
    by (simp_all add: breaker_call_def)
  moreover have "ks w2 = rejected v (ks w)"
    using dead_letter_status [OF dead v] w1 v by (auto simp: ErrOpenState_def rejected_status_def rejected_def split: option.splits)
  ultimately show ?thesis by simp
qed

lemma run_breaker_round:
  assumes "pos w topic < length (log w topic)"
  obtains n w2 where "ks w2 = ks w" "tbl w2 = tbl w" "log w2 = log w" "pos w2 topic = Suc (pos w topic)"
    "brk w2 = brk w" "clock w \<le> clock w2" "clock w2 \<le> clock w + 2 * lag"
    "\<And>fuel. run S (Run (Suc fuel) (order_consumer sw shards topic dlq)) w =
       run S (bindp (process_message (order_consumer sw shards topic dlq) (KMsg n (log w topic ! pos w topic)))
         (\<lambda>stop. case stop of None \<Rightarrow> Run fuel (order_consumer sw shards topic dlq)
                 | Some err \<Rightarrow> Ret (Returned (Some err)))) w2"
proof -
  have topic: "c_topic (order_consumer sw shards topic dlq) = topic" by (simp add: order_consumer_def)
  obtain n r1 w1 r2 w2 where ctx: "S CtxDone w = (r1, w1)" and fetch: "S (KFetch topic) w1 = (r2, w2)"
    and f: "ks w2 = ks w" "tbl w2 = tbl w" "log w2 = log w" "pos w2 topic = Suc (pos w topic)"
    "\<And>fuel. run S (Run (Suc fuel) (order_consumer sw shards topic dlq)) w =
       run S (bindp (process_message (order_consumer sw shards topic dlq) (KMsg n (log w topic ! pos w topic)))
         (\<lambda>stop. case stop of None \<Rightarrow> Run fuel (order_consumer sw shards topic dlq)
                 | Some err \<Rightarrow> Ret (Returned (Some err)))) w2"
    by (rule run_round [OF assms topic]) blast
  have "brk w2 = brk w" using brk_frame [OF ctx] brk_frame [OF fetch] by (simp add: breaker_call_def)
  moreover have "clock w \<le> clock w2" "clock w2 \<le> clock w + 2 * lag" using passes [OF ctx] passes [OF fetch] by auto
  ultimately show thesis using that f by blast
qed

text \<open>The loop with the breaker open: every message is rejected.\<close>

lemma run_open:
  assumes "CircuitBreaker sw" and "dlq \<noteq> topic" and "0 \<le> lag" and "pos w topic \<le> length (log w topic)"
    and "drop (pos w topic) (log w topic) = rest" and "brk w = Open e"
    and "clock w + int (length rest) * patience lag < e" and "length rest < fuel"
  shows "\<exists>err w'. run S (Run fuel (order_consumer sw shards topic dlq)) w = (Some (Returned err), w') \<and>
    tbl w' = tbl w \<and> ks w' = fold rejected rest (ks w) \<and> log w' topic = log w topic \<and> pos w' topic = length (log w topic)"
  using assms(4-)
proof (induction rest arbitrary: w fuel)
  case Nil
  then have "\<not> pos w topic < length (log w topic)" by simp
  moreover have "c_topic (order_consumer sw shards topic dlq) = topic" by (simp add: order_consumer_def)
  moreover obtain k where "fuel = Suc k" using Nil.prems by (cases fuel) auto
  ultimately show ?case using run_last [of w topic] Nil.prems by (metis fold_simps(1) le_antisym not_less)
next
  case (Cons v rest)
  let ?c = "order_consumer sw shards topic dlq"
  have ahead: "pos w topic < length (log w topic)" using Cons.prems(2) by (metis drop_all leI list.distinct(1))
  have v: "log w topic ! pos w topic = v" "drop (Suc (pos w topic)) (log w topic) = rest"
    using Cons.prems(2) Cons_nth_drop_Suc [OF ahead] by auto
  obtain k where fuel: "fuel = Suc k" using Cons.prems by (cases fuel) auto
  obtain n w2 where w2: "ks w2 = ks w" "tbl w2 = tbl w" "log w2 = log w" "pos w2 topic = Suc (pos w topic)"
    "brk w2 = brk w" "clock w \<le> clock w2" "clock w2 \<le> clock w + 2 * lag"
    "run S (Run (Suc k) ?c) w = run S (bindp (process_message ?c (KMsg n v))
       (\<lambda>stop. case stop of None \<Rightarrow> Run k ?c | Some err \<Rightarrow> Ret (Returned (Some err)))) w2"
    using run_breaker_round [OF ahead, of sw shards dlq] v(1) by metis
  obtain x w3 where proc: "run S (process_message ?c (KMsg n v)) w2 = (x, w3)"
    by (cases "run S (process_message ?c (KMsg n v)) w2")
  have c3: "clock w3 \<le> clock w + patience lag" using clock_takes [OF takes_process [OF assms(3)] proc] w2 by simp
  have pat: "0 \<le> patience lag" using assms(3) by (simp add: patience_def millisecond_def)
  then have "clock w + patience lag + int (length rest) * patience lag < e" "0 \<le> int (length rest) * patience lag"
    using Cons.prems(4) by (simp_all add: algebra_simps)
  then have late: "clock w3 < e" "clock w3 + int (length rest) * patience lag < e" using c3 by linarith+
  have w3: "x = Some None" "brk w3 = Open e" "tbl w3 = tbl w" "ks w3 = rejected v (ks w)"
    using run_rejected_message [OF proc assms(1) _ late(1)] w2 Cons.prems(3) by auto
  note f3 = process_frame [OF proc assms(2)]
  have "\<exists>err w'. run S (Run k ?c) w3 = (Some (Returned err), w') \<and> tbl w' = tbl w3 \<and>
      ks w' = fold rejected rest (ks w3) \<and> log w' topic = log w3 topic \<and> pos w' topic = length (log w3 topic)"
    by (rule Cons.IH) (use f3 w2 w3 v late ahead Cons.prems fuel in auto)
  then show ?case using w2 w3 f3 proc fuel by (auto simp: run_bindp)
qed

text \<open>The loop in a fresh interval: five redeliveries open the breaker.\<close>

lemma run_redeliveries:
  assumes sw: "CircuitBreaker sw" and dlq: "dlq \<noteq> topic" and lag: "0 \<le> lag"
    and st: "\<And>i. gs_ReadyToTrip st \<lparr>Requests = i, TotalFailures = i\<rparr> \<longleftrightarrow> 5 \<le> i" "0 < gs_Timeout st"
    and "drop (pos w topic) (log w topic) = vs @ rest" and "i + length vs = 5" and "vs \<noteq> []"
    and "\<forall>v\<in>set vs. snd (UnmarshalOrderMessage v) = None \<and> settled coll sw shards (tbl w) v"
    and "brk w = Closed \<lparr>Requests = i, TotalFailures = i\<rparr> e" and "clock w + int (length vs) * patience lag < e"
  shows "\<exists>w' e'. (\<forall>fuel. run S (Run (length vs + fuel) (order_consumer sw shards topic dlq)) w =
        run S (Run fuel (order_consumer sw shards topic dlq)) w') \<and>
      tbl w' = tbl w \<and> log w' topic = log w topic \<and> pos w' topic = pos w topic + length vs \<and>
      brk w' = Open e' \<and> clock w' + gs_Timeout st \<le> e' + patience lag"
  using assms(6-)
proof (induction vs arbitrary: w i)
  case (Cons v vs)
  let ?c = "order_consumer sw shards topic dlq"
  have ahead: "pos w topic < length (log w topic)"
    using Cons.prems(1) by (metis append_Cons drop_all leI list.distinct(1))
  have v: "log w topic ! pos w topic = v" "drop (Suc (pos w topic)) (log w topic) = vs @ rest"
    using Cons.prems(1) Cons_nth_drop_Suc [OF ahead] by auto
  obtain m d where m: "UnmarshalOrderMessage v = (m, None)" "insert_db sw shards (order_of m) = Some d"
    "order_conflict coll (order_of m) (orders_0 (tbl w d))"
    using Cons.prems(4) by (auto simp: settled_def prod_eq_iff)
  obtain n w2 where w2: "tbl w2 = tbl w" "log w2 = log w" "pos w2 topic = Suc (pos w topic)"
    "brk w2 = brk w" "clock w \<le> clock w2" "clock w2 \<le> clock w + 2 * lag"
    and one: "\<And>fuel. run S (Run (Suc fuel) ?c) w = run S (bindp (process_message ?c (KMsg n v))
       (\<lambda>stop. case stop of None \<Rightarrow> Run fuel ?c | Some err \<Rightarrow> Ret (Returned (Some err)))) w2"
    using run_breaker_round [OF ahead, of sw shards dlq] v(1) by metis
  have pat: "0 \<le> patience lag" "5 * lag < patience lag" using lag by (simp_all add: patience_def millisecond_def)
  then have "clock w + patience lag + int (length vs) * patience lag < e" "0 \<le> int (length vs) * patience lag"
    using Cons.prems(6) by (simp_all add: algebra_simps)
  then have early: "clock w2 + 3 * lag < e" using w2 pat by linarith
  have few: "Requests \<lparr>Requests = i, TotalFailures = i\<rparr> + 1 < 2 ^ 32" using Cons.prems(2) by simp
  obtain w3 where proc: "run S (process_message ?c (KMsg n v)) w2 = (Some None, w3)" and t3: "tbl w3 = tbl w2"
    and told: "\<exists>t\<ge>clock w2. after_failure st t (\<lparr>Requests = i, TotalFailures = i\<rparr>\<lparr>Requests := Requests \<lparr>Requests = i, TotalFailures = i\<rparr> + 1\<rparr>) e (brk w3)"
    by (rule run_redelivery [OF sw m(1,2) _ _ few st(2) early lag, of topic dlq n]) (use m(3) w2 Cons.prems(5) in simp_all)
  then obtain t where t: "clock w2 \<le> t" "after_failure st t \<lparr>Requests = Suc i, TotalFailures = i\<rparr> e (brk w3)" by auto
  note f3 = process_frame [OF proc dlq]
  have c3: "clock w3 \<le> clock w + patience lag" using clock_takes [OF takes_process [OF lag] proc] w2 by simp
  have step: "run S (Run (Suc fuel) ?c) w = run S (Run fuel ?c) w3" for fuel using one proc by (simp add: run_bindp)
  show ?case
  proof (cases "vs = []")
    case True
    then have "gs_ReadyToTrip st \<lparr>Requests = Suc i, TotalFailures = Suc i\<rparr>" using Cons.prems(2) st(1) by simp
    then obtain e' where "brk w3 = Open e'" "t + gs_Timeout st \<le> e'" using t(2) by (auto simp: after_failure_def)
    then show ?thesis
      using True step t3 f3 w2 t(1) c3 by (intro exI [of _ w3] exI [of _ e']) auto
  next
    case False
    then have "brk w3 = Closed \<lparr>Requests = Suc i, TotalFailures = Suc i\<rparr> e"
      using t(2) Cons.prems(2) st(1) by (auto simp: after_failure_def neq_Nil_conv)
    moreover have "clock w3 + int (length vs) * patience lag < e"
      using c3 Cons.prems(6) by (simp add: algebra_simps)
    ultimately have "\<exists>w' e'. (\<forall>fuel. run S (Run (length vs + fuel) ?c) w3 = run S (Run fuel ?c) w') \<and>
        tbl w' = tbl w3 \<and> log w' topic = log w3 topic \<and> pos w' topic = pos w3 topic + length vs \<and>
        brk w' = Open e' \<and> clock w' + gs_Timeout st \<le> e' + patience lag"
      using False Cons.prems v f3 w2 t3 by (intro Cons.IH [of w3 "Suc i"]) auto
    then show ?thesis using step t3 f3 w2 by auto
  qed
qed simp

end

text \<open>Every token of a rejected message ends as failed.\<close>

lemma rejected_kept: "ks k = Some rejected_status \<Longrightarrow> rejected v ks k = Some rejected_status"
  by (auto simp: rejected_def split: prod.splits option.splits)

lemma fold_rejected_kept: "ks k = Some rejected_status \<Longrightarrow> fold rejected vs ks k = Some rejected_status"
  by (induction vs arbitrary: ks) (auto intro: rejected_kept)

lemma fold_rejected:
  assumes "v \<in> set vs" and "UnmarshalOrderMessage v = (m, None)" and "m_QueueToken m \<noteq> []"
  shows "fold rejected vs ks (queue_key (m_QueueToken m)) = Some rejected_status"
  using assms(1)
proof (induction vs arbitrary: ks)
  case (Cons x vs)
  have "rejected v ks (queue_key (m_QueueToken m)) = Some rejected_status"
    using assms(2,3) by (simp add: rejected_def)
  then show ?case using Cons fold_rejected_kept [of "rejected v ks" _ vs] by auto
qed simp


section \<open>A breaker in memory\<close>

type_synonym timed = "(mem \<times> (string \<Rightarrow> nat)) \<times> breaker_state \<times> int"

fun timed_call :: "Settings \<Rightarrow> call \<Rightarrow> timed \<Rightarrow> reply \<times> timed" where
  "timed_call st BreakerAsk (x, b, t) =
     (case b of
        Closed n e \<Rightarrow> (ROk, (x, Closed (n\<lparr>Requests := Requests n + 1\<rparr>) e, t))
      | Open e \<Rightarrow> if t < e then (RErr ErrOpenState, (x, b, t)) else (ROk, (x, HalfOpen, t))
      | HalfOpen \<Rightarrow> (ROk, (x, b, t)))"
| "timed_call st (BreakerTell success) (x, b, t) =
     (case b of
        Closed n e \<Rightarrow>
          if success then (ROk, (x, b, t))
          else (let n' = n\<lparr>TotalFailures := TotalFailures n + 1\<rparr>
            in (ROk, (x, if gs_ReadyToTrip st n' then Open (t + gs_Timeout st) else Closed n' e, t)))
      | _ \<Rightarrow> (ROk, (x, b, t)))"
| "timed_call st c (x, b, t) = (case group_call c x of (r, x') \<Rightarrow> (r, (x', b, t + pause c)))"

lemma timed_call_other:
  "\<not> breaker_call c \<Longrightarrow> timed_call st c (x, b, t) = (case group_call c x of (r, x') \<Rightarrow> (r, (x', b, t + pause c)))"
  by (cases "(st, c, (x, b, t))" rule: timed_call.cases) (auto simp: breaker_call_def)

lemma timed_passes_on: "passes_on (timed_call st) fst group_call breaker_call"
  unfolding passes_on_def
proof (intro allI)
  fix c and x :: timed
  obtain y b t where x: "x = (y, b, t)" by (cases x)
  show "if breaker_call c then local_call c \<and> c \<notin> {Now, AddCounter, NewUUIDv7, LimiterAllow} \<and> fst (snd (timed_call st c x)) = fst x
      else group_call c (fst x) = (fst (timed_call st c x), fst (snd (timed_call st c x)))"
    by (auto simp: x breaker_call_def timed_call_other Let_def split: breaker_state.splits prod.splits)
qed

interpretation timed: breaker_services "timed_call st" "\<lambda>x. mem_ks (fst (fst x))" "\<lambda>x. mem_tbl (fst (fst x))"
    "\<lambda>x. mem_log (fst (fst x))" "\<lambda>x. x" "\<lambda>t. t" "\<lambda>x. snd (fst x)" st "\<lambda>x. fst (snd x)" "\<lambda>x. snd (snd x)" 0
  for st
proof (intro breaker_services.intro topic_group.intro)
  let ?T = "timed_call st"
  have down: "group_call c (fst x) = (r, fst x')" "fst (snd x') = fst (snd x)" "snd (snd x') = snd (snd x) + pause c"
    if "?T c x = (r, x')" "\<not> breaker_call c" for c x r x'
    using that timed_call_other [OF that(2)] by (cases x; auto split: prod.splits)+
  show "working_services ?T (\<lambda>x. mem_ks (fst (fst x))) (\<lambda>x. mem_tbl (fst (fst x))) (\<lambda>x. mem_log (fst (fst x))) (\<lambda>x. x) (\<lambda>t. t)"
    by (rule working_passed_on [OF group.working_services_axioms timed_passes_on]) (simp add: breaker_call_def)
  show "topic_group_axioms ?T (\<lambda>x. mem_log (fst (fst x))) (\<lambda>x. snd (fst x))"
  proof (unfold_locales, goal_cases)
    case (1 topic x r x')
    then show ?case using down(1) [OF 1(1)] group.fetch_next by (simp add: breaker_call_def)
  next
    case (2 topic x r x')
    then show ?case using down(1) [OF 2(1)] group.fetch_end by (simp add: breaker_call_def)
  next
    case (3 c x r x')
    then show ?case
      using down(1) [OF 3(1)] passes_on_own [OF timed_passes_on 3(1)] group.pos_frame [of c "fst x" r "fst x'"]
      by (cases "breaker_call c") auto
  next
    case (4 m x r x')
    then show ?case using down(1) [OF 4] group.commit_ok [of m "fst x" r "fst x'"] by (simp add: breaker_call_def)
  next
    case (5 x r x')
    then show ?case using down(1) [OF 5] group.not_cancelled [of "fst x" r "fst x'"] by (simp add: breaker_call_def)
  qed
  show "breaker_services_axioms ?T st (\<lambda>x. fst (snd x)) (\<lambda>x. snd (snd x)) 0"
  proof (unfold_locales, goal_cases)
    case (6 c x r x')
    then show ?case
      using down(3) [OF 6] by (cases x; cases "breaker_call c") (auto simp: breaker_call_def Let_def split: breaker_state.splits if_splits)
  next
    case (5 c x r x')
    then show ?case using down(2) [OF 5] by simp
  qed (auto simp: after_failure_def Let_def split: prod.splits if_splits)
qed

text \<open>Five deliveries of an order that has its row, then a new order; the breaker is the default one.\<close>

definition wire_of :: "OrderMessage \<Rightarrow> payload" where
  "wire_of m = (case Marshal m of Inr v \<Rightarrow> v | Inl _ \<Rightarrow> Malformed [])"

definition ex_next :: OrderMessage where
  "ex_next = ex_message\<lparr>m_OrderID := 43, m_IdempotencyToken := ''t2'', m_QueueToken := ''q2''\<rparr>"

definition ex_redelivered :: timed where
  "ex_redelivered =
     ((ex_world\<lparr>mem_tbl := with_row (\<lambda>t. t) (ShardDB 1) (order_of ex_message) (mem_tbl ex_world),
         mem_log := (\<lambda>_. [])(TopicSeckillOrders := replicate 5 (wire_of ex_message) @ [wire_of ex_next])\<rparr>, (\<lambda>_. 0)),
      Closed \<lparr>Requests = 0, TotalFailures = 0\<rparr> (60 * second), 0)"

lemma ex_wire_of: "UnmarshalOrderMessage (wire_of ex_message) = (ex_message, None)" "UnmarshalOrderMessage (wire_of ex_next) = (ex_next, None)"
proof -
  have "message_in64 ex_message" "message_in64 ex_next"
    by (simp_all add: message_in64_def ex_next_def ex_message_def in64_def)
  moreover obtain v v' where "Marshal ex_message = Inr v" "Marshal ex_next = Inr v'"
    by (simp add: Marshal_def ex_next_def ex_message_def year_ok_def)
  ultimately show "UnmarshalOrderMessage (wire_of ex_message) = (ex_message, None)" "UnmarshalOrderMessage (wire_of ex_next) = (ex_next, None)"
    using Unmarshal_Marshal by (simp_all add: wire_of_def)
qed


end
