(* ===== verification/Spec2Isabelle.thy ===== *)
theory Spec2Isabelle
  imports Scenarios Seed Startup Settlement Counting Breaker
begin

text \<open>
  Verification development for flash-deal, a flash-sale backend in Go.

  \<^bold>\<open>The program.\<close>  \<open>cmd/api\<close> serves HTTP.  A request to \<open>POST /v1/seckill\<close> passes the middleware
  (request id, recovery, metrics, rate limit, idempotency), is bound and validated, and becomes one
  attempt of \<open>service.SeckillService\<close>: look the activity up in MySQL, check its window, take a unit
  of stock (a Lua script in Redis, or an UPDATE), draw an order id and a queue token, and either
  publish the order to Kafka or insert it.  \<open>cmd/consumer\<close> reads the topic, inserts each order into
  the shard of its user, and records the outcome under the queue token, which
  \<open>GET /v1/order/by-token\<close> reads back; a message that keeps failing goes to a dead-letter topic.
  Activities are created and warmed through admin routes or by \<open>cmd/seed\<close>; a sweeper in the API
  process compares stock and rows with the activity's total.

  \<^bold>\<open>How it is modelled.\<close>  Code that talks to Redis, MySQL, Kafka, the clock, the breaker or the
  process is a \<^emph>\<open>program\<close> (\<open>Runtime\<close>): the tree of the calls it makes, each continued on every
  possible reply, with panics and returned errors as values.  Pure code is functions.  A program is
  run against a service \<open>S\<close>, a parameter; what the code relies on is the locale \<open>services\<close>
  (\<open>Services\<close>), over three observations of the world: the Redis keyspace, the tables of each
  database and the log of each topic.  Its laws allow every remote call to fail before or after its
  effect and a write to be appended more than once.  \<open>redis_services\<close> adds that Redis does not
  fail, \<open>working_services\<close> that no service fails, \<open>reliable_services\<close> that the breaker rejects nothing
  either.  \<open>topic_group\<close> and \<open>group_services\<close> (\<open>Drain\<close>) add to the last two where a consumer group
  stands, \<open>breaker_services\<close> (\<open>Breaker\<close>) a clock and the breaker's states.  The in-memory services
  \<open>memory\<close>, \<open>group\<close> and \<open>timed\<close> satisfy them, each built on the one before.
  Concurrency is a pool of programs (\<open>Reservation\<close>): a step lets one program make one call, starts
  a program, or lets the environment act (keys expire).  \<open>deployed\<close> (\<open>Oversell\<close>) is the set of
  programs of a deployment, and \<open>Startup\<close> proves it is what the two binaries start.

  \<^bold>\<open>Which theory holds which code\<close> (paths under \<open>src/\<close>).
  \<^item> \<open>Prelude\<close>: 64-bit arithmetic, decimal text, the key formats, \<open>strings\<close> functions.
  \<^item> \<open>Domain\<close>: \<open>internal/domain/seckill.go\<close>.  \<open>Shardkey\<close>: \<open>pkg/shardkey/shardkey.go\<close>.
  \<^item> \<open>Runtime\<close>, \<open>Services\<close>, \<open>Json_Decode\<close>: errors, calls and programs; the service laws (Redis
    commands and scripts, SQL statements under the keys of \<open>migrations/\<close>, topics); decoding JSON
    objects into structs.
  \<^item> \<open>Stock_Repo\<close>: \<open>internal/repo/stock_redis_repo.go\<close> with its Lua script (doubles included) and
    \<open>stock_repo.go\<close>, both satisfying the contract \<open>stock_repo\<close>.
  \<^item> \<open>Order_Repo\<close>: \<open>activity_repo.go\<close>, \<open>order_repo.go\<close>, \<open>sharded_order_repo.go\<close>, the latter two
    satisfying the contract \<open>order_repo\<close>.  \<open>Statements\<close>: the SQL texts of the repositories and the
    tables of \<open>migrations/\<close>, proved to mean the statements the law speaks of.
  \<^item> \<open>Collectors\<close>: \<open>internal/infra/metrics/metrics.go\<close>.
  \<^item> \<open>Messages\<close>: \<open>internal/infra/kafka/topics.go\<close> and \<open>internal/infra/otel/propagator.go\<close>.
  \<^item> \<open>Seckill_Service\<close>: \<open>internal/service/seckill.go\<close>, \<open>queue_token.go\<close>,
    \<open>kafka_order_creator.go\<close>, \<open>internal/infra/kafka/producer.go\<close>, the wiring of \<open>cmd/api\<close>.
  \<^item> \<open>Operations\<close>: \<open>internal/service/admin.go\<close> and \<open>reconcile.go\<close>.
  \<^item> \<open>Consumer\<close>: \<open>order_materializer.go\<close>, \<open>internal/infra/breaker/breaker.go\<close>,
    \<open>internal/infra/kafka/consumer.go\<close>, the dead-letter handler of \<open>cmd/consumer\<close>.
  \<^item> \<open>Http\<close>, \<open>Handlers\<close>: \<open>internal/middleware\<close>, \<open>internal/handler\<close>, the routes of \<open>cmd/api\<close>.
  \<^item> \<open>Config\<close>, \<open>Startup\<close>, \<open>Seed\<close>: \<open>internal/config/config.go\<close>, the \<open>main\<close> functions with
    the constructors of \<open>internal/infra\<close> (the connections of \<open>cmd/seed\<close> too; the tracer of
    \<open>internal/infra/otel/tracer.go\<close>), \<open>cmd/seed/main.go\<close>.  \<open>Logger\<close>: \<open>internal/infra/logger/logger.go\<close>.
  Names are the source's, with the receiver's type or the package in front where they clash; records
  carry a prefix per field.  A Go \<open>int64\<close> is an \<open>int\<close> with \<open>wrap64\<close> where the code computes with
  it, an instant is its nanoseconds since 1970, a duration its nanoseconds.

  \<^bold>\<open>What is shown.\<close>
  \<^item> The sale (\<open>Reservation\<close>, \<open>Sale\<close>, \<open>Funding\<close>, \<open>Oversell\<close>, \<open>User_Limit\<close>, \<open>Provenance\<close>, this
    theory): a unit of stock is a ticket; a deduction grants one, a published order spends one, and
    services never hand out more than there is (the locale \<open>tickets\<close>, a sublocale of \<open>services\<close> for
    each resource).  Programs that never spend what they do not hold are \<open>funded\<close>, which the locale
    \<open>seckill_ports\<close> proves of an attempt once for every resource.  Hence no oversale of messages or
    rows and the per-user limit, in every interleaving and under every failure.
  \<^item> Idempotency under concurrency (\<open>Machines\<close>, \<open>Exclusive\<close>): programs follow a small state machine;
    one token publishes one order.
  \<^item> The sweeper (\<open>Drift\<close>): what a check reads, and that it sees no oversale.
  \<^item> Nothing is lost while nothing fails: the counting of tickets made exact (\<open>Balance\<close>, the locale
    \<open>exact_tickets\<close>), the consumer that empties its topic (\<open>Drain\<close>), and both together: the books
    of a finished sale balance (\<open>Settlement\<close>).
  \<^item> The breaker over time (\<open>Breaker\<close>): five redelivered messages open it, and while it is open every
    new order is given up, although all services work.
  \<^item> What is counted (\<open>Counting\<close>): every call of a deployment that counts does so on a registered
    collector.
  \<^item> The keyspace (\<open>Keyspace\<close>): every key holds a value of its type in every reachable state.
  \<^item> One attempt (\<open>Attempt\<close>), the asynchronous half (\<open>Delivery\<close>), the HTTP layer (\<open>Web\<close>), the
    journey from a queued answer to a resolved token (\<open>Journey\<close>), repositories, sweeper and runs
    worth knowing (\<open>Scenarios\<close>), start-up, configuration and seeding (\<open>Startup\<close>, \<open>Config\<close>,
    \<open>Seed\<close>).  \<open>Example\<close> is the deployment of the witnesses.

  \<^bold>\<open>Fuel.\<close>  Two loops of the program may run for ever.  \<open>Run\<close> (the consumer) takes a number of
  rounds and says when it is spent; every round that does not end the loop consumes one fetched
  message, so fuel beyond the number of messages fetched is enough (\<open>Delivery.Run_returns\<close>).
  \<open>reconcile_Run\<close> (the sweeper) takes a number of rounds of its \<open>select\<close>.  The theorems about
  deployments hold for every fuel.  All other loops end: over lists, over remaining attempts.

  \<^bold>\<open>Parameters.\<close>  Besides the service: the wire syntax of JSON (\<open>wire\<close>: scanning a whole body, its
  first value, and rendering a document); the collation \<open>coll\<close> of idempotency tokens in MySQL and
  what a DATETIME keeps (\<open>dt\<close>); the rounding \<open>rnd\<close> of a quotient to a double; viper
  (\<open>viper_lib\<close>, with its documented resolution as \<open>viper_law\<close> and \<open>typed_law\<close>); and which library
  calls fail at start-up (\<open>host\<close>).  \<open>ShardDB i\<close> is taken to be a database of its own for each \<open>i\<close>:
  two equal DSNs in the configuration would make two of them one.

  \<^bold>\<open>Not modelled.\<close>  Log lines; what Prometheus does with a count (\<open>CountMetric\<close>); spans, the
  consumer's extraction of the trace context, which only its span uses (the headers of a send and the
  carrier are modelled), and what a library does with the settings it is given; timeouts and
  cancelled contexts, which appear as failing calls; the answers of \<open>/metrics\<close>, pprof and unmatched
  routes; the \<open>Content-Type\<close> header; the ranges of MySQL columns outside \<open>Statements\<close> (a value out
  of range is an error, which the laws allow any statement to be; \<open>working_services\<close> exclude it);
  what the token bucket decides, which is a reply; what the breaker decides, a reply too, except in
  \<open>Breaker\<close>, which has its closed and open states and not the half-open one; a breaker told of a
  panic.  The benchmark scripts and the deployment files are no part of the program.
\<close>

section \<open>The sale as a whole\<close>

text \<open>
  C1. No overselling.  In any deployment (stock in Redis or MySQL, orders through Kafka or
  written directly, any number of requests on any route, consumers and sweepers, interleaved
  call by call, with calls that fail before or after their effect and keys that expire at any
  time), as long as the activity is not warmed again, the units left plus the distinct orders
  published never exceed what they were at the start.
\<close>

theorem no_oversell:
  assumes "services S ks tbl logs coll dt"
    and "reachable S spawn env w0 (ps, w)"
    and "\<forall>w. spawn w \<subseteq> deployed W A dlq (no_restock A a)"
    and "dlq \<noteq> api_OrderTopic A"
    and "\<forall>w w'. env w w' \<longrightarrow> expiry (ks w) (ks w') \<and> tbl w' = tbl w \<and> logs w' = logs w"
    and "stock_there (api_switches A) a (tbl w0)"
  shows "stock_units (api_switches A) a (ks w) (tbl w) +
      orders_out (api_switches A) (api_shards A) (api_OrderTopic A) (any_user a) (tbl w) (logs w)
    \<le> stock_units (api_switches A) a (ks w0) (tbl w0) +
      orders_out (api_switches A) (api_shards A) (api_OrderTopic A) (any_user a) (tbl w0) (logs w0)"
  using services.deployment_conserves [OF assms(1,2,6,3,4,5)] by blast

theorem no_oversell_witness:
  "(case run mem_call (bindp ex_post (\<lambda>_. Ret ())) ex_world of (r, w) \<Rightarrow>
      stock_units all_on 7 (mem_ks w) (mem_tbl w) +
      orders_out all_on ex_shards TopicSeckillOrders (any_user 7) (mem_tbl w) (mem_log w)) \<le> 2"
proof -
  obtain r w where run: "run mem_call (bindp ex_post (\<lambda>_. Ret ())) ex_world = (r, w)"
    by (cases "run mem_call (bindp ex_post (\<lambda>_. Ret ())) ex_world")
  obtain ps where "reachable mem_call (ex_spawn (no_restock ex_api 7)) (\<lambda>_ _. False) ex_world (ps, w)"
    by (rule ex_post_reaches [where allowed = "no_restock ex_api 7", OF run _ reachable.initial]) simp_all
  from no_oversell [OF memory.services_axioms this, of ex_wire ex_api TopicSeckillDLQ 7]
  have "stock_units all_on 7 (mem_ks w) (mem_tbl w) +
      orders_out all_on ex_shards TopicSeckillOrders (any_user 7) (mem_tbl w) (mem_log w)
    \<le> stock_units all_on 7 (mem_ks ex_world) (mem_tbl ex_world) +
      orders_out all_on ex_shards TopicSeckillOrders (any_user 7) (mem_tbl ex_world) (mem_log ex_world)"
    by (simp add: ex_api_def stock_there_def all_on_def TopicSeckillOrders_def TopicSeckillDLQ_def)
  also have "\<dots> = 2" by code_simp
  finally show ?thesis by (simp add: run)
qed

text \<open>
  C2. No overselling of rows.  With orders through Kafka, the rows of an activity, over all
  shards and however often messages are redelivered or consumers restarted, never exceed the
  stock there was plus the messages already out.
\<close>

theorem no_oversold_rows:
  assumes "services S ks tbl logs coll dt"
    and "reachable S spawn env w0 (ps, w)"
    and "KafkaOrder (api_switches A)"
    and "\<forall>w. spawn w \<subseteq> deployed W A dlq (no_restock A a)"
    and "dlq \<noteq> api_OrderTopic A"
    and "\<forall>w w'. env w w' \<longrightarrow> expiry (ks w) (ks w') \<and> tbl w' = tbl w \<and> logs w' = logs w"
    and "stock_there (api_switches A) a (tbl w0)"
    and "rows_backed (order_from (api_switches A) (api_shards A)) dt (any_user a) (tbl w0)
           (set (logs w0 (api_OrderTopic A)))"
  shows "rows_out (api_switches A) (api_shards A) (any_user a) (tbl w)
    \<le> stock_units (api_switches A) a (ks w0) (tbl w0) +
      orders_out (api_switches A) (api_shards A) (api_OrderTopic A) (any_user a) (tbl w0) (logs w0)"
proof -
  have "rows_out (api_switches A) (api_shards A) (any_user a) (tbl w)
      \<le> orders_out (api_switches A) (api_shards A) (api_OrderTopic A) (any_user a) (tbl w) (logs w)"
    using services.rows_bounded [OF assms(1,2,3,8,4)] assms(3,6) unfolding orders_out_def by simp
  also have "\<dots> \<le> stock_units (api_switches A) a (ks w0) (tbl w0) +
      orders_out (api_switches A) (api_shards A) (api_OrderTopic A) (any_user a) (tbl w0) (logs w0)"
    using services.deployment_conserves [OF assms(1,2,7,4,5,6)] by simp
  finally show ?thesis .
qed

theorem no_oversold_rows_witness:
  "(case run mem_call (bindp (ex_consume 2) (\<lambda>_. Ret ())) (snd (run mem_call (bindp ex_post (\<lambda>_. Ret ())) ex_world)) of
      (r, w) \<Rightarrow> rows_out all_on ex_shards (any_user 7) (mem_tbl w)) \<le> 2"
proof -
  let ?q = "bindp (ex_consume 2) (\<lambda>_. Ret ())" and ?spawn = "ex_spawn (no_restock ex_api 7)"
  obtain r w1 where run: "run mem_call (bindp ex_post (\<lambda>_. Ret ())) ex_world = (r, w1)"
    by (cases "run mem_call (bindp ex_post (\<lambda>_. Ret ())) ex_world")
  obtain r' w where run': "run mem_call ?q w1 = (r', w)" by (cases "run mem_call ?q w1")
  obtain ps1 where p1: "reachable mem_call ?spawn (\<lambda>_ _. False) ex_world (ps1, w1)"
    by (rule ex_post_reaches [where allowed = "no_restock ex_api 7", OF run _ reachable.initial]) simp_all
  have "KafkaOrder (api_switches ex_api)" by (simp add: ex_api_def all_on_def)
  from deployed.consumer [OF this, of 2 TopicSeckillDLQ ex_wire "no_restock ex_api 7"]
  have "?q \<in> ?spawn w1" by (simp add: ex_consume_def ex_api_def)
  from reachable_run [where spawn = ?spawn, OF p1 this run']
  obtain ps where "reachable mem_call ?spawn (\<lambda>_ _. False) ex_world (ps, w)" by blast
  note bound = no_oversold_rows [OF memory.services_axioms this, of ex_api ex_wire TopicSeckillDLQ 7]
  have "rows_backed B dt sel (mem_tbl ex_world) L" for B dt sel L
    by (simp add: rows_backed_def ex_world_def ex_tables_def empty_tables_def)
  with bound have "rows_out all_on ex_shards (any_user 7) (mem_tbl w)
    \<le> stock_units all_on 7 (mem_ks ex_world) (mem_tbl ex_world) +
      orders_out all_on ex_shards TopicSeckillOrders (any_user 7) (mem_tbl ex_world) (mem_log ex_world)"
    by (simp add: ex_api_def stock_there_def all_on_def TopicSeckillOrders_def TopicSeckillDLQ_def)
  also have "\<dots> = 2" by code_simp
  finally show ?thesis by (simp add: run run')
qed

text \<open>
  C3. The per-user limit.  With the stock in Redis, and as long as the user's counter does not
  expire, no interleaving publishes more orders of one user for the activity than the limit in
  the activity's row still allowed at the start (warming the activity again included).
\<close>

theorem per_user_limit:
  assumes "services S ks tbl logs coll dt"
    and "reachable S spawn env w0 (ps, w)"
    and "LuaStock (api_switches A)"
    and "\<forall>w. spawn w \<subseteq> deployed W A dlq allowed"
    and "dlq \<noteq> api_OrderTopic A"
    and "\<forall>w w'. env w w' \<longrightarrow>
      ks w' (user_buy_key a u) = ks w (user_buy_key a u) \<and> tbl w' = tbl w \<and> logs w' = logs w"
    and "limit_there limit a u (ks w0) (tbl w0)"
  shows "purchase_units limit a u (ks w) +
      orders_out (api_switches A) (api_shards A) (api_OrderTopic A) (the_user a u) (tbl w) (logs w)
    \<le> purchase_units limit a u (ks w0) +
      orders_out (api_switches A) (api_shards A) (api_OrderTopic A) (the_user a u) (tbl w0) (logs w0)"
  using services.deployment_limits [OF assms(1,2,7,4,5,3,6)] by blast

theorem per_user_limit_witness:
  "(case run mem_call (bindp ex_post (\<lambda>_. Ret ())) ex_world of (r, w) \<Rightarrow>
      orders_out all_on ex_shards TopicSeckillOrders (the_user 7 9) (mem_tbl w) (mem_log w)) \<le> 1"
proof -
  obtain r w where run: "run mem_call (bindp ex_post (\<lambda>_. Ret ())) ex_world = (r, w)"
    by (cases "run mem_call (bindp ex_post (\<lambda>_. Ret ())) ex_world")
  obtain ps where "reachable mem_call (ex_spawn (\<lambda>_. True)) (\<lambda>_ _. False) ex_world (ps, w)"
    by (rule ex_post_reaches [OF run _ reachable.initial]) simp_all
  note bound = per_user_limit [OF memory.services_axioms this, of ex_api ex_wire TopicSeckillDLQ "\<lambda>_. True" 7 9 1]
  have "limit_there 1 7 9 (mem_ks ex_world) (mem_tbl ex_world)"
    by (simp add: limit_there_def small_def ex_world_def ex_tables_def ex_activity_def purchases_def key_simps)
  with bound have "purchase_units 1 7 9 (mem_ks w) +
      orders_out all_on ex_shards TopicSeckillOrders (the_user 7 9) (mem_tbl w) (mem_log w)
    \<le> purchase_units 1 7 9 (mem_ks ex_world) +
      orders_out all_on ex_shards TopicSeckillOrders (the_user 7 9) (mem_tbl ex_world) (mem_log ex_world)"
    by (simp add: ex_api_def all_on_def TopicSeckillOrders_def TopicSeckillDLQ_def)
  also have "\<dots> = 1" by code_simp
  finally show ?thesis by (simp add: run)
qed



text \<open>
  C5. The sweeper never sees an oversale.  With the stock in Redis and orders through Kafka, a
  check made between two calls of a deployment that started with its stock warmed and no orders
  reads the activity's unchanged total, at least as much as stock and rows together; so a
  negative drift means that the check itself was interleaved with a sale.
\<close>

theorem no_negative_drift:
  assumes "services S ks tbl logs coll dt"
    and "reachable S spawn env w0 (ps, w)"
    and "LuaStock (api_switches A)" and "KafkaOrder (api_switches A)"
    and "distinct (order_dbs (api_switches A) (api_shards A))"
    and "\<forall>w. spawn w \<subseteq> deployed W A dlq (no_restock A a)"
    and "dlq \<noteq> api_OrderTopic A"
    and "\<forall>w w'. env w w' \<longrightarrow> expiry (ks w) (ks w') \<and> tbl w' = tbl w \<and> logs w' = logs w"
    and "total_stock (tbl w0 MainDB) a = Some n" and "in64 n" and "0 \<le> n"
    and "units (stock_left (ks w0) a) \<le> nat n"
    and "\<forall>d. orders_0 (tbl w0 d) = []" and "logs w0 (api_OrderTopic A) = []"
    and "run S (Check (api_reconcile A) a) w = (Some (Inr f), w')"
  shows "f_InitStock f = n \<and> f_Redis f + f_OrdersCount f \<le> n \<and> (0 \<le> f_Redis f \<longrightarrow> 0 \<le> f_Drift f)"
  using services.checked_drift [OF assms] .

theorem no_negative_drift_witness:
  "(case run mem_call (Check (api_reconcile ex_api) 7) (snd (run mem_call (bindp ex_post (\<lambda>_. Ret ())) ex_world)) of
      (Some (Inr f), _) \<Rightarrow> f_InitStock f = 2 \<and> f_Redis f + f_OrdersCount f \<le> 2 | _ \<Rightarrow> True)"
proof -
  obtain r w where run: "run mem_call (bindp ex_post (\<lambda>_. Ret ())) ex_world = (r, w)"
    by (cases "run mem_call (bindp ex_post (\<lambda>_. Ret ())) ex_world")
  obtain res w' where check: "run mem_call (Check (api_reconcile ex_api) 7) w = (res, w')"
    by (cases "run mem_call (Check (api_reconcile ex_api) 7) w")
  obtain ps where ps: "reachable mem_call (ex_spawn (no_restock ex_api 7)) (\<lambda>_ _. False) ex_world (ps, w)"
    by (rule ex_post_reaches [where allowed = "no_restock ex_api 7", OF run _ reachable.initial]) simp_all
  have "distinct (order_dbs (api_switches ex_api) (api_shards ex_api))" by code_simp
  moreover have "total_stock (mem_tbl ex_world MainDB) 7 = Some 2" "units (stock_left (mem_ks ex_world) 7) \<le> nat 2"
    by code_simp+
  moreover have "orders_0 (mem_tbl ex_world d) = []" "mem_log ex_world t = []" for d t
    by (simp_all add: ex_world_def ex_tables_def empty_tables_def mem0_def)
  ultimately have "f_InitStock f = 2 \<and> f_Redis f + f_OrdersCount f \<le> 2" if "res = Some (Inr f)" for f
    using no_negative_drift [OF memory.services_axioms ps, of ex_api ex_wire TopicSeckillDLQ 7 2 f w'] check that
    by (simp add: ex_api_def all_on_def TopicSeckillOrders_def TopicSeckillDLQ_def in64_def)
  then show ?thesis by (auto simp: run check split: option.splits sum.splits)
qed

end
